(* ===== verification/Prelude.thy ===== *)
theory Prelude
  imports Complex_Main "HOL-Library.AList"
begin

text \<open>
  What the components share: the result of running Go code (a value, a run-time panic, or
  a goroutine that waits for ever), indexing and slicing with the bounds checks of the
  language, Go maps as association lists, the machine integers, and the generic lemmas on
  lists the component proofs use.

  \<^item> \<open>float64\<close> and \<open>float32\<close> are rationals: every value the code stores comes from a JSON
    number, so it is finite and denotes a rational, and the modelled code only compares,
    copies and stores such values. NaN and the infinities have no JSON form and are outside
    the model.
  \<^item> A Go \<open>int\<close> is an \<open>int\<close>; where arithmetic can leave the 64-bit range, \<open>wrap64\<close> is
    written out.
  \<^item> A Go map is an association list with distinct keys. The language leaves the order of
    a \<open>range\<close> over a map open; where that order is visible, the order is an argument.
\<close>

section \<open>Types\<close>

type_synonym float64 = rat
type_synonym float32 = rat
type_synonym ('k, 'v) gomap = "('k \<times> 'v) list"

text \<open>An \<open>error\<close> value of the source is the message it is built from.\<close>

type_synonym error = string

datatype panic =
    IndexOutOfRange
  | NilDereference
  | NilMapWrite
  | NilFunctionCall
  | SendOnClosed
  | CloseOfClosed
  | CloseOfNil
  | TypeAssertion
  | ReflectPanic
  | DivideByZero
  | NegativeShift
  | LogPanic string

datatype 'a go = Ret 'a | Panic panic | Blocked

section \<open>Collections of facts\<close>

named_theorems go_simps "evaluation of the control operators"
named_theorems book_simps "facts on the levels of the order book"
named_theorems chan_simps "facts on channel operations"

section \<open>Control\<close>

fun go_bind :: "'a go \<Rightarrow> ('a \<Rightarrow> 'b go) \<Rightarrow> 'b go" where
  "go_bind (Ret a) f = f a"
| "go_bind (Panic e) f = Panic e"
| "go_bind Blocked f = Blocked"

fun go_fold :: "('s \<Rightarrow> 'x \<Rightarrow> 's go) \<Rightarrow> 's \<Rightarrow> 'x list \<Rightarrow> 's go" where
  "go_fold f s [] = Ret s"
| "go_fold f s (x # xs) = go_bind (f s x) (\<lambda>s'. go_fold f s' xs)"

fun go_map :: "('a \<Rightarrow> 'b go) \<Rightarrow> 'a list \<Rightarrow> 'b list go" where
  "go_map f [] = Ret []"
| "go_map f (x # xs) = go_bind (f x) (\<lambda>y. go_bind (go_map f xs) (\<lambda>ys. Ret (y # ys)))"

text \<open>Indexing with the language's bounds check, by a Go \<open>int\<close> and by a natural number.\<close>

definition go_nth :: "'a list \<Rightarrow> int \<Rightarrow> 'a go" where
  "go_nth xs i = (if 0 \<le> i \<and> i < int (length xs) then Ret (xs ! nat i) else Panic IndexOutOfRange)"

definition go_at :: "'a list \<Rightarrow> nat \<Rightarrow> 'a go" where
  "go_at xs i = (if i < length xs then Ret (xs ! i) else Panic IndexOutOfRange)"

text \<open>Following a pointer that may be nil.\<close>

definition go_deref :: "'a option \<Rightarrow> 'a go" where
  "go_deref p = (case p of None \<Rightarrow> Panic NilDereference | Some a \<Rightarrow> Ret a)"

definition go_ok :: "'a go \<Rightarrow> bool" where
  "go_ok m = (case m of Ret _ \<Rightarrow> True | Panic _ \<Rightarrow> False | Blocked \<Rightarrow> False)"

lemma go_bind_Ret_iff [go_simps]:
  "go_bind m f = Ret b \<longleftrightarrow> (\<exists>a. m = Ret a \<and> f a = Ret b)"
  by (cases m) auto

lemma go_bind_assoc [go_simps]:
  "go_bind (go_bind m f) g = go_bind m (\<lambda>a. go_bind (f a) g)"
  by (cases m) auto

lemma go_ok_iff [go_simps]: "go_ok m \<longleftrightarrow> (\<exists>a. m = Ret a)"
  by (cases m) (auto simp: go_ok_def)

lemma go_fold_append:
  "go_fold f s (xs @ ys) = go_bind (go_fold f s xs) (\<lambda>s'. go_fold f s' ys)"
  by (induction xs arbitrary: s) (auto simp: go_bind_assoc)

text \<open>An invariant kept by every iteration is kept by the loop, and a loop whose
  iterations all return under the invariant returns.\<close>

lemma go_fold_invariant:
  assumes "go_fold f s xs = Ret t" and "P s"
    and "\<And>s x t. P s \<Longrightarrow> x \<in> set xs \<Longrightarrow> f s x = Ret t \<Longrightarrow> P t"
  shows "P t"
  using assms
proof (induction xs arbitrary: s)
  case Nil
  then show ?case by simp
next
  case (Cons x xs)
  from Cons.prems(1) obtain u where u: "f s x = Ret u" and rest: "go_fold f u xs = Ret t"
    by (cases "f s x") auto
  have "P u" by (rule Cons.prems(3) [OF Cons.prems(2) _ u]) simp
  with rest show ?case
    by (rule Cons.IH) (rule Cons.prems(3), auto)
qed

lemma go_fold_total:
  assumes "P s" and "\<And>s x. P s \<Longrightarrow> x \<in> set xs \<Longrightarrow> \<exists>t. f s x = Ret t \<and> P t"
  shows "\<exists>t. go_fold f s xs = Ret t \<and> P t"
  using assms
proof (induction xs arbitrary: s)
  case Nil
  then show ?case by simp
next
  case (Cons x xs)
  then obtain t where "f s x = Ret t" "P t" by fastforce
  with Cons show ?case by fastforce
qed

text \<open>A test on every element, in order.\<close>

fun go_filter_map :: "('a \<Rightarrow> bool go) \<Rightarrow> ('a \<Rightarrow> 'b go) \<Rightarrow> 'a list \<Rightarrow> 'b list go" where
  "go_filter_map p f [] = Ret []"
| "go_filter_map p f (x # xs) =
     go_bind (p x) (\<lambda>b.
       if b then go_bind (f x) (\<lambda>y. go_bind (go_filter_map p f xs) (\<lambda>ys. Ret (y # ys)))
       else go_filter_map p f xs)"

lemma go_filter_map_Ret:
  "(\<And>x. x \<in> set xs \<Longrightarrow> p x = Ret (q x)) \<Longrightarrow> (\<And>x. x \<in> set xs \<Longrightarrow> q x \<Longrightarrow> f x = Ret (g x)) \<Longrightarrow>
    go_filter_map p f xs = Ret (map g (filter q xs))"
  by (induction xs) auto

lemma go_map_Ret: "(\<And>x. x \<in> set xs \<Longrightarrow> f x = Ret (g x)) \<Longrightarrow> go_map f xs = Ret (map g xs)"
  by (induction xs) auto

lemma go_at_Ret [go_simps]: "i < length xs \<Longrightarrow> go_at xs i = Ret (xs ! i)"
  by (simp add: go_at_def)

lemma go_nth_Ret [go_simps]: "0 \<le> i \<Longrightarrow> i < int (length xs) \<Longrightarrow> go_nth xs i = Ret (xs ! nat i)"
  by (simp add: go_nth_def)

lemma go_nth_last [go_simps]:
  "go_nth xs (int (length xs) - 1) = (if xs = [] then Panic IndexOutOfRange else Ret (last xs))"
proof (cases "xs = []")
  case False
  then have "nat (int (length xs) - 1) = length xs - 1"
    by (simp add: nat_diff_distrib)
  with False show ?thesis by (simp add: go_nth_def last_conv_nth)
qed (simp add: go_nth_def)

lemma go_deref_simps [simp]:
  "go_deref None = Panic NilDereference"
  "go_deref (Some a) = Ret a"
  by (simp_all add: go_deref_def)

section \<open>Machine integers\<close>

definition wrap64 :: "int \<Rightarrow> int" where
  "wrap64 x = (x + 2 ^ 63) mod 2 ^ 64 - 2 ^ 63"

lemma wrap64_id: "- (2 ^ 63) \<le> x \<Longrightarrow> x < 2 ^ 63 \<Longrightarrow> wrap64 x = x"
  by (simp add: wrap64_def)

lemma wrap64_range: "- (2 ^ 63) \<le> wrap64 x" "wrap64 x < 2 ^ 63"
  by (simp_all add: wrap64_def)

section \<open>Maps\<close>

definition gokeys :: "('k, 'v) gomap \<Rightarrow> 'k list" where
  "gokeys m = map fst m"

lemma map_of_update [simp]: "map_of (AList.update k v m) = (map_of m)(k \<mapsto> v)"
  by (simp add: update_conv')

lemma map_of_delete [simp]: "map_of (AList.delete k m) = (map_of m)(k := None)"
  by (simp add: delete_conv')

lemma distinct_gokeys_update: "distinct (map fst m) \<Longrightarrow> distinct (map fst (AList.update k v m))"
  by (rule distinct_update)

lemma distinct_gokeys_delete: "distinct (map fst m) \<Longrightarrow> distinct (map fst (AList.delete k m))"
  by (rule distinct_delete)

section \<open>Lists\<close>

text \<open>The \<open>n\<close> last elements of a list: the best \<open>n\<close> levels of a side of the book.\<close>

definition topn :: "nat \<Rightarrow> 'a list \<Rightarrow> 'a list" where
  "topn n xs = drop (length xs - n) xs"

lemma length_topn [simp]: "length (topn n xs) = min n (length xs)"
  by (simp add: topn_def)

lemma topn_all: "length xs \<le> n \<Longrightarrow> topn n xs = xs"
  by (simp add: topn_def)

lemma set_topn_subset: "set (topn n xs) \<subseteq> set xs"
  by (auto simp: topn_def dest: in_set_dropD)

lemma set_take_drop: "set (take i xs) \<union> set (drop i xs) = set xs"
  by (metis append_take_drop_id set_append)

text \<open>The element at an index, and the two parts around it.\<close>

lemma split_at: "i < length xs \<Longrightarrow> xs = take i xs @ xs ! i # drop (Suc i) xs"
  by (rule id_take_nth_drop)

text \<open>\<open>ys\<close> is \<open>xs\<close> with \<open>p\<close> put in, as the \<open>d\<close>-th element from the end.\<close>

definition level_put :: "'a list \<Rightarrow> 'a list \<Rightarrow> 'a \<Rightarrow> nat \<Rightarrow> bool" where
  "level_put xs ys p d \<longleftrightarrow>
     (\<exists>i\<le>length xs. ys = take i xs @ p # drop i xs \<and> d = Suc (length xs) - i)"

lemma level_put_length: "level_put xs ys p d \<Longrightarrow> length ys = Suc (length xs) \<and> 0 < d \<and> d \<le> length ys"
  by (auto simp: level_put_def)

lemma level_put_set: "level_put xs ys p d \<Longrightarrow> set ys = insert p (set xs)"
  by (auto simp: level_put_def dest: in_set_takeD in_set_dropD)
    (metis UnE set_take_drop)

lemma topn_Suc: "n < length xs \<Longrightarrow> topn (Suc n) xs = xs ! (length xs - Suc n) # topn n xs"
  by (simp add: topn_def Suc_diff_Suc Cons_nth_drop_Suc [symmetric] del: drop_Suc)

lemma level_put_far: "level_put xs ys p d \<Longrightarrow> n < d \<Longrightarrow> topn n ys = topn n xs"
  by (auto simp: level_put_def topn_def Suc_diff_le)

lemma level_put_near: "level_put xs ys p d \<Longrightarrow> d \<le> Suc n \<Longrightarrow> set (topn (Suc n) ys) = insert p (set (topn n xs))"
proof -
  assume a: "level_put xs ys p d" "d \<le> Suc n"
  then obtain i where i: "i \<le> length xs" "ys = take i xs @ p # drop i xs" "d = Suc (length xs) - i"
    by (auto simp: level_put_def)
  define k where "k = length xs - n"
  have k: "k \<le> i" using a(2) i by (simp add: k_def)
  have "topn (Suc n) ys = drop k (take i xs) @ p # drop i xs"
    using i k by (simp add: topn_def k_def)
  moreover have "drop k xs = drop k (take i xs) @ drop i xs"
    using k i(1) by (metis (no_types, lifting) append_take_drop_id drop_append drop_take length_take min.absorb2 drop_0 diff_is_0_eq)
  ultimately show ?thesis by (simp add: topn_def k_def)
qed

lemma sorted_wrt_insert_at:
  assumes "sorted_wrt r xs"
    and "\<And>x. x \<in> set (take i xs) \<Longrightarrow> r x p" and "\<And>x. x \<in> set (drop i xs) \<Longrightarrow> r p x"
  shows "sorted_wrt r (take i xs @ p # drop i xs)"
proof -
  have "sorted_wrt r (take i xs @ drop i xs)" using assms(1) by simp
  with assms(2,3) show ?thesis
    by (auto simp: sorted_wrt_append simp del: append_take_drop_id)
qed

lemma sorted_wrt_remove_at:
  "sorted_wrt r xs \<Longrightarrow> sorted_wrt r (take i xs @ drop (Suc i) xs)"
proof -
  assume s: "sorted_wrt r xs"
  then have "sorted_wrt r (take i xs @ drop i xs)" by simp
  then have "sorted_wrt r (take i xs)" "sorted_wrt r (drop i xs)"
    "\<forall>x\<in>set (take i xs). \<forall>y\<in>set (drop i xs). r x y"
    by (auto simp: sorted_wrt_append simp del: append_take_drop_id)
  moreover have "drop (Suc i) xs = drop 1 (drop i xs)" by simp
  moreover have "set (drop (Suc i) xs) \<subseteq> set (drop i xs)"
    by (rule set_drop_subset_set_drop) simp
  ultimately show ?thesis
    by (metis (no_types, opaque_lifting) sorted_wrt_append sorted_wrt_drop subsetD)
qed

end
