(* ===== verification/PriceList.thy ===== *)
theory PriceList
  imports Prelude
begin

text \<open>
  \<open>utils/common.go\<close> and \<open>utils/slice.go\<close>: integer minima and maxima, the binary search,
  insertion and removal on the sorted price lists of the order book, and the index-based
  trimming of slices.
\<close>

section \<open>Integer helpers\<close>

definition MaxInt :: "int \<Rightarrow> int \<Rightarrow> int" where
  "MaxInt i j = (if i \<ge> j then i else j)"

definition MinInt :: "int \<Rightarrow> int \<Rightarrow> int" where
  "MinInt i j = (if i \<le> j then i else j)"

definition MaxDuration :: "int \<Rightarrow> int \<Rightarrow> int" where
  "MaxDuration i j = (if i \<ge> j then i else j)"

definition MinDuration :: "int \<Rightarrow> int \<Rightarrow> int" where
  "MinDuration i j = (if i \<le> j then i else j)"

definition MaxInts :: "int list \<Rightarrow> int" where
  "MaxInts numbers = fold (\<lambda>num mx. if num > mx then num else mx) numbers (- (2 ^ 63))"

definition MinInts :: "int list \<Rightarrow> int" where
  "MinInts numbers = fold (\<lambda>num mn. if num < mn then num else mn) numbers (2 ^ 63 - 1)"

section \<open>Binary search\<close>

text \<open>The loop of the standard library's \<open>sort.Search\<close>.\<close>

function sort_Search_loop :: "(nat \<Rightarrow> bool) \<Rightarrow> nat \<Rightarrow> nat \<Rightarrow> nat" where
  "sort_Search_loop f i j =
     (if i < j then
        (let h = (i + j) div 2
         in if \<not> f h then sort_Search_loop f (h + 1) j else sort_Search_loop f i h)
      else i)"
  by pat_completeness auto
termination
  by (relation "measure (\<lambda>(f, i, j). j - i)") auto

declare sort_Search_loop.simps [simp del]

definition sort_Search :: "nat \<Rightarrow> (nat \<Rightarrow> bool) \<Rightarrow> nat" where
  "sort_Search n f = sort_Search_loop f 0 n"

definition UniPriceSearch :: "float64 list \<Rightarrow> float64 \<Rightarrow> bool \<Rightarrow> int" where
  "UniPriceSearch priceList price reverse =
     (let originLen = length priceList;
          idx = (if reverse then sort_Search originLen (\<lambda>i. priceList ! i \<le> price)
                 else sort_Search originLen (\<lambda>i. priceList ! i \<ge> price))
      in if idx \<ge> originLen \<or> priceList ! idx \<noteq> price then -1 else int idx)"

section \<open>Insertion\<close>

text \<open>
  The search loops of \<open>UniPriceAdd\<close>, one for each order. \<open>append(append(priceList[:i],
  price), right...)\<close> overwrites the backing array, but \<open>right\<close> is copied before, so the
  returned value is the list with the price put in at \<open>i\<close>.
\<close>

function price_add_desc :: "float64 list \<Rightarrow> float64 \<Rightarrow> nat \<Rightarrow> nat \<Rightarrow> (int \<times> float64 list) go" where
  "price_add_desc priceList price start end' =
     (if end' - start \<le> 1 then
        Ret (int (start + 1), take (start + 1) priceList @ price # drop end' priceList)
      else
        (let mid = (end' - start) div 2 + start in
         go_bind (go_at priceList mid) (\<lambda>pm.
           if price < pm then
             go_bind (go_at priceList (mid + 1)) (\<lambda>pn.
               if price > pn then
                 Ret (int (mid + 1), take (mid + 1) priceList @ price # drop (mid + 1) priceList)
               else price_add_desc priceList price mid end')
           else
             go_bind (go_at priceList (mid - 1)) (\<lambda>pn.
               if price < pn then
                 Ret (int mid, take mid priceList @ price # drop mid priceList)
               else price_add_desc priceList price start mid))))"
  by pat_completeness auto
termination
  by (relation "measure (\<lambda>(xs, p, s, e). e - s)") auto

function price_add_asc :: "float64 list \<Rightarrow> float64 \<Rightarrow> nat \<Rightarrow> nat \<Rightarrow> (int \<times> float64 list) go" where
  "price_add_asc priceList price start end' =
     (if end' - start \<le> 1 then
        Ret (int (start + 1), take (start + 1) priceList @ price # drop end' priceList)
      else
        (let mid = (end' - start) div 2 + start in
         go_bind (go_at priceList mid) (\<lambda>pm.
           if price > pm then
             go_bind (go_at priceList (mid + 1)) (\<lambda>pn.
               if price < pn then
                 Ret (int (mid + 1), take (mid + 1) priceList @ price # drop (mid + 1) priceList)
               else price_add_asc priceList price mid end')
           else
             go_bind (go_at priceList (mid - 1)) (\<lambda>pn.
               if price > pn then
                 Ret (int mid, take mid priceList @ price # drop mid priceList)
               else price_add_asc priceList price start mid))))"
  by pat_completeness auto
termination
  by (relation "measure (\<lambda>(xs, p, s, e). e - s)") auto

declare price_add_desc.simps [simp del] price_add_asc.simps [simp del]

definition UniPriceAdd :: "float64 list \<Rightarrow> float64 \<Rightarrow> bool \<Rightarrow> (int \<times> float64 list) go" where
  "UniPriceAdd priceList price reverse =
     (let originLen = length priceList in
      if originLen < 1 then Ret (0, priceList @ [price])
      else
        (let start = 0; end' = originLen - 1 in
         if reverse then
           go_bind (go_at priceList start) (\<lambda>ps.
             if price > ps then Ret (int start, price # priceList)
             else go_bind (go_at priceList end') (\<lambda>pe.
               if price < pe then Ret (int (end' + 1), priceList @ [price])
               else price_add_desc priceList price start end'))
         else
           go_bind (go_at priceList end') (\<lambda>pe.
             if price > pe then Ret (int (end' + 1), priceList @ [price])
             else go_bind (go_at priceList start) (\<lambda>ps.
               if price < ps then Ret (int start, price # priceList)
               else price_add_asc priceList price start end'))))"

section \<open>Removal\<close>

text \<open>\<open>copy(dst, src)\<close>: the first elements of \<open>dst\<close> are overwritten.\<close>

definition go_copy :: "'a list \<Rightarrow> 'a list \<Rightarrow> 'a list" where
  "go_copy dst src = take (length dst) src @ drop (length src) dst"

definition UniPriceRemove :: "float64 list \<Rightarrow> float64 \<Rightarrow> bool \<Rightarrow> int \<times> float64 list" where
  "UniPriceRemove priceList price reverse =
     (let idx = UniPriceSearch priceList price reverse in
      if idx < 0 then (idx, priceList)
      else
        (let lastIdx = length priceList - 1; i = nat idx in
         if i = 0 then (idx, drop 1 priceList)
         else if i = lastIdx then (idx, take i priceList)
         else
           (let right = drop (i + 1) priceList;
                priceList' = take i priceList @ go_copy (drop i priceList) right
            in (idx, take lastIdx priceList'))))"

section \<open>Slices\<close>

text \<open>
  The loop of \<open>RangeSlice\<close>: \<open>count\<close> is the position in the sorted index list and
  \<open>invalid\<close> the number of indices skipped so far.
\<close>

fun RangeSlice_loop :: "'a list \<Rightarrow> int \<Rightarrow> int \<Rightarrow> int list \<Rightarrow> 'a list" where
  "RangeSlice_loop src count invalid [] = src"
| "RangeSlice_loop src count invalid (idx # rest) =
     (let trim = idx - count + invalid in
      if trim < 0 then RangeSlice_loop src (count + 1) (invalid + 1) rest
      else if trim \<ge> int (length src) then src
      else RangeSlice_loop (take (nat trim) src @ drop (nat trim + 1) src) (count + 1) invalid rest)"

definition RangeSlice :: "'a list \<Rightarrow> int list \<Rightarrow> 'a list" where
  "RangeSlice src sliced = (if sliced \<noteq> [] then RangeSlice_loop src 0 0 (sort sliced) else src)"

definition Slice :: "'a list \<Rightarrow> int \<Rightarrow> 'a list" where
  "Slice src idx =
     (if idx \<ge> 0 \<and> idx < int (length src) then take (nat idx) src @ drop (nat idx + 1) src
      else src)"

text \<open>The swapping loop of \<open>ReverseFloat64Slice\<close>; the last index of an empty slice is -1.\<close>

function Reverse_loop :: "'a list \<Rightarrow> int \<Rightarrow> int \<Rightarrow> 'a list" where
  "Reverse_loop s i j =
     (if i < j then
        Reverse_loop (s[nat i := s ! nat j, nat j := s ! nat i]) (i + 1) (j - 1)
      else s)"
  by pat_completeness auto
termination
  by (relation "measure (\<lambda>(s, i, j). nat (j - i))") auto

declare Reverse_loop.simps [simp del]

definition ReverseFloat64Slice :: "'a list \<Rightarrow> 'a list" where
  "ReverseFloat64Slice s = Reverse_loop s 0 (int (length s) - 1)"

section \<open>Price orders\<close>

text \<open>
  Bids are kept ascending and asks descending, so that the best level is the last one. Both
  are strict total orders; the facts are proved once, for \<open>before\<close>.
\<close>

definition insertion_point :: "('a \<Rightarrow> 'a \<Rightarrow> bool) \<Rightarrow> 'a list \<Rightarrow> 'a \<Rightarrow> nat \<Rightarrow> bool" where
  "insertion_point before xs p i \<longleftrightarrow>
     i \<le> length xs \<and> (\<forall>x\<in>set (take i xs). before x p) \<and> (\<forall>x\<in>set (drop i xs). before p x)"

text \<open>The two insertion loops are one loop, read along either order.\<close>

function price_add_loop :: "('a \<Rightarrow> 'a \<Rightarrow> bool) \<Rightarrow> 'a list \<Rightarrow> 'a \<Rightarrow> nat \<Rightarrow> nat \<Rightarrow> (int \<times> 'a list) go" where
  "price_add_loop before xs p s e =
     (if e - s \<le> 1 then Ret (int (s + 1), take (s + 1) xs @ p # drop e xs)
      else
        (let mid = (e - s) div 2 + s in
         go_bind (go_at xs mid) (\<lambda>pm.
           if before pm p then
             go_bind (go_at xs (mid + 1)) (\<lambda>pn.
               if before p pn then Ret (int (mid + 1), take (mid + 1) xs @ p # drop (mid + 1) xs)
               else price_add_loop before xs p mid e)
           else
             go_bind (go_at xs (mid - 1)) (\<lambda>pn.
               if before pn p then Ret (int mid, take mid xs @ p # drop mid xs)
               else price_add_loop before xs p s mid))))"
  by pat_completeness auto
termination
  by (relation "measure (\<lambda>(b, xs, p, s, e). e - s)") auto

declare price_add_loop.simps [simp del]

lemma price_add_desc_loop: "price_add_desc xs p s e = price_add_loop (\<lambda>a b. b < a) xs p s e"
proof (induction xs p s e rule: price_add_desc.induct)
  case (1 xs p s e)
  then show ?case
    by (subst price_add_desc.simps, subst price_add_loop.simps) (simp add: Let_def cong: if_cong)
qed

lemma price_add_asc_loop: "price_add_asc xs p s e = price_add_loop (<) xs p s e"
proof (induction xs p s e rule: price_add_asc.induct)
  case (1 xs p s e)
  then show ?case
    by (subst price_add_asc.simps, subst price_add_loop.simps) (simp add: Let_def cong: if_cong)
qed

lemma sort_Search_loop_spec:
  assumes "i \<le> j" and "\<And>a b. i \<le> a \<Longrightarrow> a \<le> b \<Longrightarrow> b < j \<Longrightarrow> f a \<Longrightarrow> f b"
  shows "i \<le> sort_Search_loop f i j \<and> sort_Search_loop f i j \<le> j
    \<and> (\<forall>k. i \<le> k \<and> k < sort_Search_loop f i j \<longrightarrow> \<not> f k)
    \<and> (\<forall>k. sort_Search_loop f i j \<le> k \<and> k < j \<longrightarrow> f k)"
  using assms
proof (induction f i j rule: sort_Search_loop.induct)
  case (1 f i j)
  define h where "h = (i + j) div 2"
  show ?case
  proof (cases "i < j")
    case False
    then have "sort_Search_loop f i j = i" by (subst sort_Search_loop.simps) simp
    with False "1.prems"(1) show ?thesis by auto
  next
    case True
    then have h: "i \<le> h" "h < j" by (auto simp: h_def)
    have mono: "\<And>a b. i \<le> a \<Longrightarrow> a \<le> b \<Longrightarrow> b < j \<Longrightarrow> f a \<Longrightarrow> f b" by (rule "1.prems"(2))
    show ?thesis
    proof (cases "f h")
      case True
      let ?r = "sort_Search_loop f i h"
      have eq: "sort_Search_loop f i j = ?r"
        using \<open>i < j\<close> True by (subst sort_Search_loop.simps) (simp add: Let_def h_def)
      have "i \<le> ?r \<and> ?r \<le> h \<and> (\<forall>k. i \<le> k \<and> k < ?r \<longrightarrow> \<not> f k) \<and> (\<forall>k. ?r \<le> k \<and> k < h \<longrightarrow> f k)"
      proof (rule "1.IH"(2) [OF \<open>i < j\<close> h_def])
        fix a b assume ab: "i \<le> a" "a \<le> b" "b < h" "f a"
        then have "b < j" using h by simp
        then show "f b" by (rule mono [OF ab(1,2) _ ab(4)])
      qed (use True h in auto)
      moreover have "f k" if "h \<le> k" "k < j" for k using mono [of h k] h True that by simp
      ultimately show ?thesis unfolding eq using h by (auto intro: leI)
    next
      case False
      let ?r = "sort_Search_loop f (h + 1) j"
      have eq: "sort_Search_loop f i j = ?r"
        using \<open>i < j\<close> False by (subst sort_Search_loop.simps) (simp add: Let_def h_def)
      have "h + 1 \<le> ?r \<and> ?r \<le> j \<and> (\<forall>k. h + 1 \<le> k \<and> k < ?r \<longrightarrow> \<not> f k) \<and> (\<forall>k. ?r \<le> k \<and> k < j \<longrightarrow> f k)"
      proof (rule "1.IH"(1) [OF \<open>i < j\<close> h_def])
        fix a b assume ab: "h + 1 \<le> a" "a \<le> b" "b < j" "f a"
        then have "i \<le> a" using h by simp
        then show "f b" by (rule mono [OF _ ab(2,3,4)])
      qed (use False h in auto)
      moreover have "\<not> f k" if "i \<le> k" "k < h + 1" for k using mono [of k h] h False that by auto
      ultimately show ?thesis unfolding eq using h by (auto intro: leI)
    qed
  qed
qed

text \<open>The search probes the list only inside its bounds: any predicate that agrees with the
  index test on the valid indices gives the same result.\<close>

lemma sort_Search_loop_cong:
  "(\<And>k. i \<le> k \<Longrightarrow> k < j \<Longrightarrow> f k = g k) \<Longrightarrow> sort_Search_loop f i j = sort_Search_loop g i j"
proof (induction f i j rule: sort_Search_loop.induct)
  case (1 f i j)
  show ?case
  proof (cases "i < j")
    case False
    then show ?thesis by (simp add: sort_Search_loop.simps [of _ i j])
  next
    case True
    define h where "h = (i + j) div 2"
    have h: "i \<le> h" "h < j" using True by (auto simp: h_def)
    have fg: "f h = g h" using "1.prems" h by blast
    have "\<not> f h \<Longrightarrow> sort_Search_loop f (h + 1) j = sort_Search_loop g (h + 1) j"
      using "1.IH"(1) [OF True h_def] "1.prems" h by simp
    moreover have "f h \<Longrightarrow> sort_Search_loop f i h = sort_Search_loop g i h"
      using "1.IH"(2) [OF True h_def] "1.prems" h by simp
    ultimately show ?thesis using True fg
      by (subst (1 2) sort_Search_loop.simps) (simp add: Let_def h_def [symmetric])
  qed
qed

section \<open>The contract of a price list\<close>

text \<open>
  What the order book relies on when it keeps a side: insertion puts a new price at its
  place in the order and returns its index, search and removal find a price that is there
  and answer -1 for one that is not.
\<close>

locale price_order =
  fixes before :: "'a \<Rightarrow> 'a \<Rightarrow> bool"
  assumes before_irrefl: "\<not> before x x"
    and before_trans: "before x y \<Longrightarrow> before y z \<Longrightarrow> before x z"
    and before_total: "x \<noteq> y \<Longrightarrow> before x y \<or> before y x"
begin

lemma before_asym: "before x y \<Longrightarrow> \<not> before y x"
  using before_irrefl before_trans by blast

lemma not_before: "\<not> before x y \<Longrightarrow> x \<noteq> y \<Longrightarrow> before y x"
  using before_total by blast

lemma sorted_distinct: "sorted_wrt before xs \<Longrightarrow> distinct xs"
  by (induction xs) (auto simp: before_irrefl)

lemma sorted_nth: "sorted_wrt before xs \<Longrightarrow> i < j \<Longrightarrow> j < length xs \<Longrightarrow> before (xs ! i) (xs ! j)"
  by (simp add: sorted_wrt_nth_less)

lemma insertion_pointI:
  assumes srt: "sorted_wrt before xs" and i: "i \<le> length xs"
    and lo: "i = 0 \<or> before (xs ! (i - 1)) p" and hi: "i = length xs \<or> before p (xs ! i)"
  shows "insertion_point before xs p i"
proof -
  have "before (xs ! k) p" if "k < i" for k
  proof (cases "k = i - 1")
    case False
    with that have "before (xs ! k) (xs ! (i - 1))" using i by (intro sorted_nth [OF srt]) auto
    moreover have "before (xs ! (i - 1)) p" using lo that by auto
    ultimately show ?thesis by (rule before_trans)
  qed (use lo that in auto)
  moreover have "before p (xs ! k)" if "i \<le> k" "k < length xs" for k
  proof (cases "k = i")
    case False
    with that have "before (xs ! i) (xs ! k)" by (intro sorted_nth [OF srt]) auto
    moreover have "before p (xs ! i)" using hi that by auto
    ultimately show ?thesis using before_trans by blast
  qed (use hi that in auto)
  ultimately show ?thesis using i
    by (auto simp: insertion_point_def in_set_conv_nth)
qed

lemma sorted_insert:
  "sorted_wrt before xs \<Longrightarrow> insertion_point before xs p i \<Longrightarrow>
    sorted_wrt before (take i xs @ p # drop i xs)"
  by (rule sorted_wrt_insert_at) (auto simp: insertion_point_def)

lemma price_add_loop_spec:
  assumes "sorted_wrt before xs" and "s < e" and "e < length xs" and "p \<notin> set xs"
    and "before (xs ! s) p" and "before p (xs ! e)"
  shows "\<exists>i. price_add_loop before xs p s e = Ret (int i, take i xs @ p # drop i xs)
    \<and> insertion_point before xs p i"
  using assms
proof (induction "e - s" arbitrary: s e rule: less_induct)
  case less
  note srt = less.prems(1) and se = less.prems(2) and e = less.prems(3) and p = less.prems(4)
    and lo = less.prems(5) and hi = less.prems(6)
  show ?case
  proof (cases "e - s \<le> 1")
    case True
    then have "e = s + 1" using se by simp
    then show ?thesis using srt lo hi e
      by (subst price_add_loop.simps) (auto intro!: exI [of _ "s + 1"] insertion_pointI)
  next
    case False
    define mid where "mid = (e - s) div 2 + s"
    have mid: "s < mid" "mid < e" using False by (auto simp: mid_def)
    then have len: "mid < length xs" "mid + 1 < length xs" "mid - 1 < length xs" using e by auto
    have ne: "xs ! k \<noteq> p" if "k < length xs" for k using p that nth_mem by blast
    have step: "price_add_loop before xs p s e =
        (if before (xs ! mid) p then
           if before p (xs ! (mid + 1))
           then Ret (int (mid + 1), take (mid + 1) xs @ p # drop (mid + 1) xs)
           else price_add_loop before xs p mid e
         else if before (xs ! (mid - 1)) p then Ret (int mid, take mid xs @ p # drop mid xs)
         else price_add_loop before xs p s mid)"
      using False len by (subst price_add_loop.simps) (simp add: Let_def mid_def [symmetric] go_at_Ret)
    show ?thesis
    proof (cases "before (xs ! mid) p")
      case above: True
      show ?thesis
      proof (cases "before p (xs ! (mid + 1))")
        case True
        have "insertion_point before xs p (mid + 1)"
          using srt above True len by (intro insertion_pointI) auto
        then show ?thesis using above True unfolding step by (intro exI [of _ "mid + 1"]) simp
      next
        case False
        then have "mid + 1 \<noteq> e" using hi by auto
        then show ?thesis using less.hyps [of e mid] srt mid e p above hi False
          unfolding step by simp
      qed
    next
      case below: False
      then have b: "before p (xs ! mid)" using ne len not_before by blast
      show ?thesis
      proof (cases "before (xs ! (mid - 1)) p")
        case True
        have "insertion_point before xs p mid"
          using srt True b len by (intro insertion_pointI) auto
        then show ?thesis using below True unfolding step by (intro exI [of _ mid]) simp
      next
        case False
        then show ?thesis using less.hyps [of mid s] srt mid len p lo b below
          unfolding step by simp
      qed
    qed
  qed
qed

text \<open>The place of a new price is unique: as many levels come before it as its index.\<close>

lemma insertion_point_index:
  assumes "distinct xs" and "insertion_point before xs p i"
  shows "length xs - i = card {x \<in> set xs. before p x}"
proof -
  have "set xs = set (take i xs) \<union> set (drop i xs)" by (simp add: set_take_drop)
  then have "{x \<in> set xs. before p x} = set (drop i xs)"
    using assms(2) before_asym by (auto simp: insertion_point_def)
  then show ?thesis using assms(1) by (simp add: distinct_card)
qed

lemma level_index:
  assumes srt: "sorted_wrt before xs" and i: "i < length xs"
  shows "length xs - Suc i = card {x \<in> set xs. before (xs ! i) x}"
proof -
  have "{x \<in> set xs. before (xs ! i) x} = set (drop (Suc i) xs)"
  proof (intro set_eqI iffI)
    fix x assume "x \<in> {x \<in> set xs. before (xs ! i) x}"
    then obtain k where k: "k < length xs" "x = xs ! k" "before (xs ! i) (xs ! k)"
      by (auto simp: in_set_conv_nth)
    then have "i < k" using sorted_nth [OF srt, of k i] i before_asym before_irrefl
      by (metis linorder_neqE_nat)
    with k show "x \<in> set (drop (Suc i) xs)"
      by (auto simp: in_set_conv_nth intro!: exI [of _ "k - Suc i"])
  next
    fix x assume "x \<in> set (drop (Suc i) xs)"
    then obtain k where "k < length xs - Suc i" "x = xs ! (Suc i + k)"
      by (auto simp: in_set_conv_nth)
    then show "x \<in> {x \<in> set xs. before (xs ! i) x}"
      using sorted_nth [OF srt, of i "Suc i + k"] by simp
  qed
  then show ?thesis using sorted_distinct [OF srt] by (simp add: distinct_card)
qed

text \<open>The binary search, run with "not before the price", stops at the price.\<close>

lemma sort_Search_before:
  assumes srt: "sorted_wrt before xs" and i: "i < length xs"
  shows "sort_Search (length xs) (\<lambda>k. \<not> before (xs ! k) (xs ! i)) = i"
proof -
  let ?f = "\<lambda>k. \<not> before (xs ! k) (xs ! i)"
  let ?r = "sort_Search (length xs) ?f"
  have mono: "?f b" if "a \<le> b" "b < length xs" "?f a" for a b
  proof (cases "a = b")
    case False
    with that have "before (xs ! a) (xs ! b)" by (intro sorted_nth [OF srt]) auto
    with that(3) show ?thesis using before_trans by blast
  qed (use that in simp)
  have sp: "0 \<le> ?r \<and> ?r \<le> length xs \<and> (\<forall>k. 0 \<le> k \<and> k < ?r \<longrightarrow> \<not> ?f k)
      \<and> (\<forall>k. ?r \<le> k \<and> k < length xs \<longrightarrow> ?f k)"
    unfolding sort_Search_def by (rule sort_Search_loop_spec) (auto dest: mono)
  have "\<not> i < ?r" using sp before_irrefl by (meson zero_le)
  moreover have "\<not> ?r < i"
  proof
    assume r: "?r < i"
    then have "before (xs ! ?r) (xs ! i)" by (rule sorted_nth [OF srt _ i])
    moreover have "?f ?r" using sp r i by (meson order_refl less_trans)
    ultimately show False by simp
  qed
  ultimately show ?thesis by simp
qed

end

locale price_side = price_order before
  for before :: "'a \<Rightarrow> 'a \<Rightarrow> bool" +
  fixes add :: "'a list \<Rightarrow> 'a \<Rightarrow> (int \<times> 'a list) go"
    and remove :: "'a list \<Rightarrow> 'a \<Rightarrow> int \<times> 'a list"
    and search :: "'a list \<Rightarrow> 'a \<Rightarrow> int"
  assumes add_spec: "sorted_wrt before xs \<Longrightarrow> p \<notin> set xs \<Longrightarrow>
      \<exists>i. add xs p = Ret (int i, take i xs @ p # drop i xs) \<and> insertion_point before xs p i"
    and search_found: "sorted_wrt before xs \<Longrightarrow> i < length xs \<Longrightarrow> search xs (xs ! i) = int i"
    and search_missing: "p \<notin> set xs \<Longrightarrow> search xs p = -1"
    and remove_found: "sorted_wrt before xs \<Longrightarrow> i < length xs \<Longrightarrow>
      remove xs (xs ! i) = (int i, take i xs @ drop (Suc i) xs)"
    and remove_missing: "p \<notin> set xs \<Longrightarrow> remove xs p = (-1, xs)"

text \<open>\<open>UniPriceAdd\<close> and its companions keep the contract for both orders.\<close>

interpretation asc: price_order "(<) :: float64 \<Rightarrow> float64 \<Rightarrow> bool"
  by unfold_locales auto

interpretation desc: price_order "\<lambda>a b :: float64. b < a"
  by unfold_locales auto

lemma UniPriceAdd_asc:
  assumes srt: "sorted_wrt (<) xs" and p: "p \<notin> set xs"
  shows "\<exists>i. UniPriceAdd xs p False = Ret (int i, take i xs @ p # drop i xs)
    \<and> insertion_point (<) xs p i"
proof (cases "xs = []")
  case True
  then show ?thesis
    by (intro exI [of _ 0]) (simp add: UniPriceAdd_def insertion_point_def)
next
  case False
  then have len: "length xs - 1 < length xs" "0 < length xs" by auto
  have ne: "p \<noteq> xs ! k" if "k < length xs" for k using p that nth_mem by blast
  note unfold = UniPriceAdd_def Let_def go_at_Ret len price_add_asc_loop
  consider (last) "xs ! (length xs - 1) < p" | (first) "\<not> xs ! (length xs - 1) < p" "p < xs ! 0"
    | (mid) "p < xs ! (length xs - 1)" "xs ! 0 < p"
    using ne [OF len(1)] ne [OF len(2)] by (meson linorder_neqE)
  then show ?thesis
  proof cases
    case last
    then have "insertion_point (<) xs p (length xs)"
      using srt by (intro asc.insertion_pointI) auto
    then show ?thesis using last False
      by (intro exI [of _ "length xs"]) (auto simp: unfold of_nat_diff)
  next
    case first
    then have "insertion_point (<) xs p 0" using srt by (intro asc.insertion_pointI) auto
    then show ?thesis using first False by (intro exI [of _ 0]) (auto simp: unfold)
  next
    case mid
    then have "0 < length xs - 1" by (metis gr0I less_asym)
    then show ?thesis
      using asc.price_add_loop_spec [OF srt, of 0 "length xs - 1" p] mid p len
      by (auto simp: unfold)
  qed
qed

lemma UniPriceAdd_desc:
  assumes srt: "sorted_wrt (\<lambda>a b. b < a) xs" and p: "p \<notin> set xs"
  shows "\<exists>i. UniPriceAdd xs p True = Ret (int i, take i xs @ p # drop i xs)
    \<and> insertion_point (\<lambda>a b. b < a) xs p i"
proof (cases "xs = []")
  case True
  then show ?thesis
    by (intro exI [of _ 0]) (simp add: UniPriceAdd_def insertion_point_def)
next
  case False
  then have len: "length xs - 1 < length xs" "0 < length xs" by auto
  have ne: "p \<noteq> xs ! k" if "k < length xs" for k using p that nth_mem by blast
  note unfold = UniPriceAdd_def Let_def go_at_Ret len price_add_desc_loop
  consider (last) "\<not> p > xs ! 0" "xs ! (length xs - 1) > p" | (first) "p > xs ! 0"
    | (mid) "p > xs ! (length xs - 1)" "xs ! 0 > p"
    using ne [OF len(1)] ne [OF len(2)] by (meson linorder_neqE)
  then show ?thesis
  proof cases
    case last
    then have "insertion_point (\<lambda>a b. b < a) xs p (length xs)"
      using srt by (intro desc.insertion_pointI) auto
    then show ?thesis using last False
      by (intro exI [of _ "length xs"]) (auto simp: unfold of_nat_diff)
  next
    case first
    then have "insertion_point (\<lambda>a b. b < a) xs p 0" using srt by (intro desc.insertion_pointI) auto
    then show ?thesis using first False by (intro exI [of _ 0]) (auto simp: unfold)
  next
    case mid
    then have "0 < length xs - 1" by (metis gr0I less_asym)
    then show ?thesis
      using desc.price_add_loop_spec [OF srt, of 0 "length xs - 1" p] mid p len
      by (auto simp: unfold)
  qed
qed

lemma UniPriceSearch_missing: "p \<notin> set xs \<Longrightarrow> UniPriceSearch xs p rv = -1"
  using nth_mem by (fastforce simp: UniPriceSearch_def Let_def not_le)

lemma UniPriceSearch_asc:
  "sorted_wrt (<) xs \<Longrightarrow> i < length xs \<Longrightarrow> UniPriceSearch xs (xs ! i) False = int i"
  using asc.sort_Search_before [of xs i] by (simp add: UniPriceSearch_def not_less)

lemma UniPriceSearch_desc:
  "sorted_wrt (\<lambda>a b. b < a) xs \<Longrightarrow> i < length xs \<Longrightarrow> UniPriceSearch xs (xs ! i) True = int i"
  using desc.sort_Search_before [of xs i] by (simp add: UniPriceSearch_def not_less)

lemma UniPriceRemove_missing: "p \<notin> set xs \<Longrightarrow> UniPriceRemove xs p rv = (-1, xs)"
  by (simp add: UniPriceRemove_def UniPriceSearch_missing)

text \<open>All three slicing branches take one level out.\<close>

lemma UniPriceRemove_at:
  assumes "UniPriceSearch xs p rv = int i" and i: "i < length xs"
  shows "UniPriceRemove xs p rv = (int i, take i xs @ drop (Suc i) xs)"
proof -
  have "take (length xs - 1) (take i xs @ go_copy (drop i xs) (drop (i + 1) xs)) =
      take i xs @ drop (Suc i) xs" if "i \<noteq> length xs - 1"
    using i that by (auto simp: go_copy_def min_def)
  then show ?thesis using assms by (auto simp: UniPriceRemove_def Let_def)
qed

interpretation bids: price_side "(<) :: float64 \<Rightarrow> float64 \<Rightarrow> bool"
  "\<lambda>xs p. UniPriceAdd xs p False" "\<lambda>xs p. UniPriceRemove xs p False"
  "\<lambda>xs p. UniPriceSearch xs p False"
  by unfold_locales
    (simp_all add: UniPriceAdd_asc UniPriceSearch_asc UniPriceSearch_missing
      UniPriceRemove_missing UniPriceRemove_at)

interpretation asks: price_side "\<lambda>a b :: float64. b < a"
  "\<lambda>xs p. UniPriceAdd xs p True" "\<lambda>xs p. UniPriceRemove xs p True"
  "\<lambda>xs p. UniPriceSearch xs p True"
  by unfold_locales
    (simp_all add: UniPriceAdd_desc UniPriceSearch_desc UniPriceSearch_missing
      UniPriceRemove_missing UniPriceRemove_at)

section \<open>The other helpers\<close>

text \<open>The loops of \<open>MaxInts\<close> and \<open>MinInts\<close>: the extremum of the arguments, and the
  64-bit limit when there is none.\<close>

lemma MaxInts_bounds:
  "fold (\<lambda>num mx. if num > mx then num else mx) ns m \<in> insert m (set ns)
    \<and> m \<le> fold (\<lambda>num mx. if num > mx then num else mx) ns m
    \<and> (\<forall>n\<in>set ns. n \<le> fold (\<lambda>num mx. if num > mx then num else mx) ns (m :: int))"
  by (induction ns arbitrary: m) (force split: if_splits)+

lemma MinInts_bounds:
  "fold (\<lambda>num mn. if num < mn then num else mn) ns m \<in> insert m (set ns)
    \<and> fold (\<lambda>num mn. if num < mn then num else mn) ns m \<le> m
    \<and> (\<forall>n\<in>set ns. fold (\<lambda>num mn. if num < mn then num else mn) ns (m :: int) \<le> n)"
  by (induction ns arbitrary: m) (force split: if_splits)+

text \<open>Trimming with sorted, distinct indices: after \<open>d\<close> removals the index \<open>i\<close> of the
  original slice is at \<open>i - d\<close>.\<close>

lemma nths_remove_at:
  assumes t: "t < length src" and keep: "\<And>n. n < t \<Longrightarrow> n \<in> A \<and> n \<in> B" and "t \<notin> B"
    and shift: "\<And>n. t \<le> n \<Longrightarrow> n \<in> A \<longleftrightarrow> Suc n \<in> B"
  shows "nths (take t src @ drop (Suc t) src) A = nths src B"
proof -
  have len: "length (take t src) = t" using t by simp
  have all: "nths (take t src) C = take t src" if "\<And>n. n < t \<Longrightarrow> n \<in> C" for C
    using that by (intro nths_all) (auto simp: len)
  have "nths (take t src @ drop (Suc t) src) A = take t src @ nths (drop (Suc t) src) {j. j + t \<in> A}"
    using keep by (subst nths_append) (simp only: len all)
  moreover have "nths src B = take t src @ nths (src ! t # drop (Suc t) src) {j. j + t \<in> B}"
    using keep by (subst id_take_nth_drop [OF t], subst nths_append) (simp only: len all)
  moreover have "{j. j + t \<in> A} = {j. Suc j + t \<in> B}" using shift by auto
  ultimately show ?thesis using assms(3) by (simp add: nths_Cons)
qed

lemma RangeSlice_loop_spec:
  assumes "sorted is" and "distinct is" and "c - v = d" and "0 \<le> d"
    and "d = 0 \<or> (\<forall>i\<in>set is. d \<le> i)"
  shows "RangeSlice_loop src c v is = nths src {n. int n + d \<notin> set is}"
  using assms
proof (induction "is" arbitrary: src c v d)
  case Nil
  then show ?case by (simp add: nths_all)
next
  case (Cons i rest)
  have rest: "sorted rest" "distinct rest" "\<forall>j\<in>set rest. i < j"
    using Cons.prems(1,2) by (auto simp: order.strict_iff_order)
  have trim: "i - c + v = i - d" using Cons.prems(3) by simp
  consider (neg) "i < d" | (big) "d \<le> i" "i - d \<ge> int (length src)" | (cut) "d \<le> i" "i - d < int (length src)"
    by linarith
  then show ?case
  proof cases
    case neg
    then have "d = 0" using Cons.prems(5) by auto
    moreover have "RangeSlice_loop src (c + 1) (v + 1) rest = nths src {n. int n + 0 \<notin> set rest}"
      using Cons.prems(3) \<open>d = 0\<close> rest by (intro Cons.IH) auto
    moreover have "{n. int n \<notin> set (i # rest)} = {n. int n \<notin> set rest}" using neg \<open>d = 0\<close> by auto
    ultimately show ?thesis using neg trim by simp
  next
    case big
    then have "nths src {n. int n + d \<notin> set (i # rest)} = src"
      using rest(3) by (intro nths_all) auto
    then show ?thesis using big trim by simp
  next
    case cut
    define t where "t = nat (i - d)"
    have t: "t < length src" "i = int t + d" using cut by (auto simp: t_def)
    have "RangeSlice_loop (take t src @ drop (Suc t) src) (c + 1) v rest =
        nths (take t src @ drop (Suc t) src) {n. int n + (d + 1) \<notin> set rest}"
      using Cons.prems(3,4) rest cut by (intro Cons.IH) auto
    also have "\<dots> = nths src {n. int n + d \<notin> set (i # rest)}"
      using rest(3) t by (intro nths_remove_at) (auto simp: algebra_simps)
    finally show ?thesis using cut by (simp add: t_def trim Let_def)
  qed
qed

lemma Reverse_loop_nth:
  assumes "0 \<le> i" and "j < int (length s)" and "k < length s"
  shows "length (Reverse_loop s i j) = length s \<and>
    Reverse_loop s i j ! k = (if i \<le> int k \<and> int k \<le> j then s ! nat (i + j - int k) else s ! k)"
  using assms
proof (induction s i j rule: Reverse_loop.induct)
  case (1 s i j)
  show ?case
  proof (cases "i < j")
    case False
    then have "Reverse_loop s i j = s" by (subst Reverse_loop.simps) simp
    moreover have "nat (i + j - int k) = k" if "i \<le> int k" "int k \<le> j" using False that by simp
    ultimately show ?thesis by simp
  next
    case True
    let ?s = "s[nat i := s ! nat j, nat j := s ! nat i]"
    have "Reverse_loop s i j = Reverse_loop ?s (i + 1) (j - 1)"
      using True by (subst Reverse_loop.simps) simp
    moreover have "length (Reverse_loop ?s (i + 1) (j - 1)) = length ?s \<and>
      Reverse_loop ?s (i + 1) (j - 1) ! k =
        (if i + 1 \<le> int k \<and> int k \<le> j - 1 then ?s ! nat (i + 1 + (j - 1) - int k) else ?s ! k)"
      using True "1.prems" by (intro "1.IH") auto
    moreover have "nat i < length s" "nat j < length s" using "1.prems" True by auto
    ultimately show ?thesis using True "1.prems"
      by (auto simp: nth_list_update nat_eq_iff)
  qed
qed

lemma ReverseFloat64Slice_rev: "ReverseFloat64Slice s = rev s"
proof (rule nth_equalityI)
  show "length (ReverseFloat64Slice s) = length (rev s)"
    using Reverse_loop_nth [of 0 "int (length s) - 1" s 0]
    by (cases s) (auto simp: ReverseFloat64Slice_def Reverse_loop.simps)
  fix k assume "k < length (ReverseFloat64Slice s)"
  with \<open>length (ReverseFloat64Slice s) = length (rev s)\<close> have k: "k < length s" by simp
  then have "nat (int (length s) - 1 - int k) = length s - Suc k" by simp
  then show "ReverseFloat64Slice s ! k = rev s ! k"
    using k Reverse_loop_nth [of 0 "int (length s) - 1" s k]
    by (simp add: ReverseFloat64Slice_def rev_nth)
qed

end
