(* ===== verification/GoText.thy ===== *)
theory GoText
  imports Prelude "HOL-Library.List_Lexorder" "HOL-Library.Char_ord"
begin

text \<open>
  What the code uses of the standard library on strings: \<open>strings\<close> (splitting, joining,
  trimming, searching, replacing, changing the case) and \<open>strconv\<close> (decimal numbers). Strings
  are ASCII byte strings, compared byte by byte. A function of \<open>strconv\<close> returns its value
  together with its error, which the code often ignores.
\<close>

section \<open>Strings\<close>

fun go_split :: "char \<Rightarrow> string \<Rightarrow> string list" where
  "go_split c [] = [[]]"
| "go_split c (x # xs) =
     (if x = c then [] # go_split c xs
      else (case go_split c xs of [] \<Rightarrow> [[x]] | y # ys \<Rightarrow> (x # y) # ys))"

fun go_join :: "string \<Rightarrow> string list \<Rightarrow> string" where
  "go_join sep [] = []"
| "go_join sep [x] = x"
| "go_join sep (x # y # ys) = x @ sep @ go_join sep (y # ys)"

definition go_trim :: "char \<Rightarrow> string \<Rightarrow> string" where
  "go_trim c s = rev (dropWhile (\<lambda>x. x = c) (rev (dropWhile (\<lambda>x. x = c) s)))"

definition lower_char :: "char \<Rightarrow> char" where
  "lower_char c = (let n = (of_char c :: nat) in if 65 \<le> n \<and> n \<le> 90 then char_of (n + 32) else c)"

definition ToLower :: "string \<Rightarrow> string" where
  "ToLower s = map lower_char s"

fun HasPrefix :: "string \<Rightarrow> string \<Rightarrow> bool" where
  "HasPrefix s [] = True"
| "HasPrefix [] (p # ps) = False"
| "HasPrefix (x # xs) (p # ps) = (x = p \<and> HasPrefix xs ps)"

fun Contains :: "string \<Rightarrow> string \<Rightarrow> bool" where
  "Contains [] pat = (pat = [])"
| "Contains (x # xs) pat = (HasPrefix (x # xs) pat \<or> Contains xs pat)"

text \<open>Text between double quotes.\<close>

definition quoted :: "string \<Rightarrow> string" where
  "quoted s = CHR 0x22 # s @ [CHR 0x22]"

lemma go_split_nonempty: "go_split c s \<noteq> []"
  by (induction s) (auto split: list.split)

lemma go_split_no_sep: "c \<notin> set s \<Longrightarrow> go_split c s = [s]"
  by (induction s) auto

lemma go_split_append: "c \<notin> set s \<Longrightarrow> go_split c (s @ c # t) = s # go_split c t"
  by (induction s) auto

lemma go_split_join:
  "ps \<noteq> [] \<Longrightarrow> (\<And>p. p \<in> set ps \<Longrightarrow> c \<notin> set p) \<Longrightarrow> go_split c (go_join [c] ps) = ps"
  by (induction "[c]" ps rule: go_join.induct) (auto simp: go_split_append go_split_no_sep)

lemma go_join_split: "go_join [c] (go_split c s) = s"
proof (induction s)
  case Nil
  then show ?case by simp
next
  case (Cons x s)
  obtain y ys where "go_split c s = y # ys" using go_split_nonempty by (cases "go_split c s") auto
  with Cons show ?case by (cases ys) auto
qed

lemma dropWhile_hd: "s \<noteq> [] \<Longrightarrow> hd s \<noteq> c \<Longrightarrow> dropWhile (\<lambda>x. x = c) s = s"
  by (cases s) auto

lemma go_trim_quotes:
  "s \<noteq> [] \<Longrightarrow> hd s \<noteq> c \<Longrightarrow> last s \<noteq> c \<Longrightarrow> go_trim c (c # s @ [c]) = s"
  using dropWhile_hd [of "s @ [c]" c] dropWhile_hd [of "rev s" c]
  by (simp add: go_trim_def hd_rev)

lemma HasPrefix_iff: "HasPrefix s p \<longleftrightarrow> (\<exists>t. s = p @ t)"
  by (induction s p rule: HasPrefix.induct) auto

lemma Contains_iff: "Contains s p \<longleftrightarrow> (\<exists>a b. s = a @ p @ b)"
proof (induction s)
  case Nil
  then show ?case by auto
next
  case (Cons x s)
  have "(\<exists>a b. x # s = a @ p @ b) \<longleftrightarrow> (\<exists>b. x # s = p @ b) \<or> (\<exists>a b. s = a @ p @ b)"
    (is "?l \<longleftrightarrow> ?r")
  proof
    assume ?l
    then obtain a b where "x # s = a @ p @ b" by blast
    then show ?r by (cases a) auto
  next
    assume ?r
    then show ?l by (metis append_Cons append_Nil)
  qed
  then show ?case by (simp add: Cons.IH HasPrefix_iff)
qed

section \<open>More of \<open>strings\<close>\<close>

definition upper_char :: "char \<Rightarrow> char" where
  "upper_char c = (let n = (of_char c :: nat) in if 97 \<le> n \<and> n \<le> 122 then char_of (n - 32) else c)"

definition ToUpper :: "string \<Rightarrow> string" where
  "ToUpper s = map upper_char s"

definition TrimLeft :: "char set \<Rightarrow> string \<Rightarrow> string" where
  "TrimLeft cs s = dropWhile (\<lambda>c. c \<in> cs) s"

definition TrimRight :: "char set \<Rightarrow> string \<Rightarrow> string" where
  "TrimRight cs s = rev (dropWhile (\<lambda>c. c \<in> cs) (rev s))"

text \<open>\<open>strings.Replace(s, old, new, 1)\<close>\<close>

fun replace_once :: "string \<Rightarrow> string \<Rightarrow> string \<Rightarrow> string" where
  "replace_once [] old new = (if old = [] then new else [])"
| "replace_once (x # xs) old new =
     (if HasPrefix (x # xs) old then new @ drop (length old) (x # xs) else x # replace_once xs old new)"

lemma replace_once_prefix: "replace_once (old @ s) old new = new @ s"
proof (cases "old @ s")
  case Nil
  then show ?thesis by simp
next
  case (Cons x xs)
  have "HasPrefix (old @ s) old" by (auto simp: HasPrefix_iff)
  then have "replace_once (x # xs) old new = new @ drop (length old) (x # xs)" using Cons by simp
  then show ?thesis by (metis Cons append_eq_conv_conj)
qed

lemma replace_once_absent: "\<not> Contains s old \<Longrightarrow> replace_once s old new = s"
  by (induction s) auto

lemma ToLower_ToLower [simp]: "ToLower (ToLower s) = ToLower s"
proof -
  have "lower_char (lower_char c) = lower_char c" for c
    by (cases "of_char c :: nat" rule: nat.exhaust) (auto simp: lower_char_def Let_def of_char_of)
  then show ?thesis by (simp add: ToLower_def)
qed

section \<open>Decimal numbers\<close>

text \<open>\<open>strconv.Itoa\<close>\<close>

fun show_nat_digits :: "nat \<Rightarrow> string" where
  "show_nat_digits n =
     (if n < 10 then [char_of (48 + n)] else show_nat_digits (n div 10) @ [char_of (48 + n mod 10)])"

declare show_nat_digits.simps [simp del]

definition show_int :: "int \<Rightarrow> string" where
  "show_int i = (if i < 0 then ''-'' @ show_nat_digits (nat (- i)) else show_nat_digits (nat i))"

definition is_digit :: "char \<Rightarrow> bool" where
  "is_digit c \<longleftrightarrow> 48 \<le> (of_char c :: nat) \<and> (of_char c :: nat) \<le> 57"

definition digits_val :: "string \<Rightarrow> nat" where
  "digits_val ds = foldl (\<lambda>a c. 10 * a + (of_char c - 48)) 0 ds"

definition all_digits :: "string \<Rightarrow> bool" where
  "all_digits ds \<longleftrightarrow> ds \<noteq> [] \<and> list_all is_digit ds"

definition split_sign :: "string \<Rightarrow> bool \<times> string" where
  "split_sign s =
     (case s of [] \<Rightarrow> (False, [])
      | c # cs \<Rightarrow> if c = CHR ''-'' then (True, cs) else if c = CHR ''+'' then (False, cs) else (False, s))"

definition errSyntax :: error where "errSyntax = ''invalid syntax''"
definition errRange :: error where "errRange = ''value out of range''"

text \<open>\<open>strconv.ParseInt(s, 10, 64)\<close>: out of range, the nearest limit is returned with the error.\<close>

definition ParseInt :: "string \<Rightarrow> int \<times> error option" where
  "ParseInt s =
     (case split_sign s of (neg, ds) \<Rightarrow>
        if \<not> all_digits ds then (0, Some errSyntax)
        else
          (let n = int (digits_val ds) in
           if neg then (if n > 2 ^ 63 then (- (2 ^ 63), Some errRange) else (- n, None))
           else (if n \<ge> 2 ^ 63 then (2 ^ 63 - 1, Some errRange) else (n, None))))"

text \<open>\<open>strconv.ParseFloat(s, 64)\<close> on decimal literals, without rounding.\<close>

definition pow10 :: "int \<Rightarrow> rat" where
  "pow10 e = (if e \<ge> 0 then 10 ^ nat e else 1 / 10 ^ nat (- e))"

definition parse_exponent :: "string \<Rightarrow> int option" where
  "parse_exponent s =
     (case s of [] \<Rightarrow> Some 0
      | c # t \<Rightarrow>
          if c = CHR ''e'' \<or> c = CHR ''E'' then
            (case split_sign t of (neg, ds) \<Rightarrow>
               if all_digits ds then Some (if neg then - int (digits_val ds) else int (digits_val ds)) else None)
          else None)"

definition ParseFloat :: "string \<Rightarrow> float64 \<times> error option" where
  "ParseFloat s =
     (case split_sign s of (neg, r) \<Rightarrow>
        let ip = takeWhile is_digit r; r1 = dropWhile is_digit r;
            (fp, r2) = (case r1 of [] \<Rightarrow> ([], [])
                        | c # t \<Rightarrow> if c = CHR ''.'' then (takeWhile is_digit t, dropWhile is_digit t) else ([], r1))
        in (case parse_exponent r2 of
              None \<Rightarrow> (0, Some errSyntax)
            | Some e \<Rightarrow>
                if ip = [] \<and> fp = [] then (0, Some errSyntax)
                else
                  (let v = of_nat (digits_val (ip @ fp)) * pow10 (e - int (length fp))
                   in (if neg then - v else v, None))))"

lemma of_char_digit: "n < 10 \<Longrightarrow> (of_char (char_of (48 + n :: nat) :: char) :: nat) = 48 + n"
  by (simp add: of_char_of)

lemma show_nat_digits_ok: "all_digits (show_nat_digits n) \<and> digits_val (show_nat_digits n) = n"
proof (induction n rule: show_nat_digits.induct)
  case (1 n)
  show ?case
  proof (cases "n < 10")
    case True
    then show ?thesis
      by (simp add: show_nat_digits.simps [of n] all_digits_def is_digit_def digits_val_def of_char_digit)
  next
    case False
    then show ?thesis using 1 [OF False]
      by (simp add: show_nat_digits.simps [of n] all_digits_def is_digit_def digits_val_def of_char_digit)
  qed
qed

lemma digit_no_sign: "all_digits ds \<Longrightarrow> split_sign ds = (False, ds)"
  by (auto simp: split_sign_def all_digits_def is_digit_def split: list.split)

lemma ParseInt_show:
  assumes "- (2 ^ 63) \<le> i" and "i < 2 ^ 63"
  shows "ParseInt (show_int i) = (i, None)"
proof (cases "i < 0")
  case True
  have "split_sign (show_int i) = (True, show_nat_digits (nat (- i)))"
    using True by (simp add: show_int_def split_sign_def)
  then show ?thesis using True assms(1) show_nat_digits_ok [of "nat (- i)"] by (simp add: ParseInt_def)
next
  case False
  have "split_sign (show_int i) = (False, show_nat_digits (nat i))"
    using False digit_no_sign show_nat_digits_ok by (simp add: show_int_def)
  then show ?thesis using False assms(2) show_nat_digits_ok [of "nat i"] by (simp add: ParseInt_def)
qed

end
