(* ===== verification/Messages.thy ===== *)
theory Messages
  imports GoText
begin

text \<open>
  \<open>models/*.go\<close>: the requests and responses of the websocket protocol, the table responses the caches store and the heartbeat message.
  JSON encoding and decoding belong to the standard
  library; where the code falls back on it, the decoder is an argument.

  The rows of the tables the code never looks into (orders, positions, margins,
  executions) are an opaque type \<open>'o\<close>; an order book row is a reference to an
  \<open>OrderBookL2\<close> object, which may be nil.
\<close>

section \<open>Actions and message patterns\<close>

definition PartialAction :: string where "PartialAction = ''partial''"
definition InsertAction :: string where "InsertAction = ''insert''"
definition UpdateAction :: string where "UpdateAction = ''update''"
definition DeleteAction :: string where "DeleteAction = ''delete''"

lemmas action_defs = PartialAction_def InsertAction_def UpdateAction_def DeleteAction_def

text \<open>The regular expressions are substring tests, some with one optional blank.\<close>

definition PingPattern :: "string \<Rightarrow> bool" where "PingPattern msg = Contains msg ''ping''"
definition PongPattern :: "string \<Rightarrow> bool" where "PongPattern msg = Contains msg ''pong''"
definition InfoPattern :: "string \<Rightarrow> bool" where "InfoPattern msg = Contains msg (quoted ''info'')"
definition SubPattern :: "string \<Rightarrow> bool" where "SubPattern msg = Contains msg (quoted ''subscribe'')"
definition AuthPattern :: "string \<Rightarrow> bool" where
  "AuthPattern msg = (Contains msg (quoted ''authKeyExpires'') \<or> Contains msg (quoted ''api-key''))"
definition keyed :: "string \<Rightarrow> string \<Rightarrow> string \<Rightarrow> bool" where
  "keyed msg key rest =
     (Contains msg (quoted key @ '':'' @ rest) \<or> Contains msg (quoted key @ '': '' @ rest))"
definition InstrumentPattern :: "string \<Rightarrow> bool" where
  "InstrumentPattern msg = keyed msg ''table'' (quoted ''instrument'')"
definition MBLPattern :: "string \<Rightarrow> bool" where
  "MBLPattern msg = keyed msg ''table'' (CHR 0x22 # ''orderBook'')"
definition TradePattern :: "string \<Rightarrow> bool" where
  "TradePattern msg = keyed msg ''table'' (quoted ''trade'')"
definition ErrPattern :: "string \<Rightarrow> bool" where "ErrPattern msg = Contains msg (quoted ''error'')"

section \<open>Requests\<close>

record OperationRequest =
  Operation :: string
  Args :: "string list"

text \<open>The pattern \<open>^".*"$\<close>: quotes at both ends and no line break between them.\<close>

definition stringPattern :: "string \<Rightarrow> bool" where
  "stringPattern data =
     (2 \<le> length data \<and> hd data = CHR 0x22 \<and> last data = CHR 0x22 \<and> CHR 0x0A \<notin> set data)"

definition Args_UnmarshalJSON :: "(string \<Rightarrow> error + string list) \<Rightarrow> string \<Rightarrow> error + string list" where
  "Args_UnmarshalJSON unmarshal data =
     (if stringPattern data then Inr (go_split (CHR '','') (go_trim (CHR 0x22) data))
      else unmarshal data)"

lemma go_join_chars: "set (go_join [c] ps) \<subseteq> insert c (\<Union> (set ` set ps))"
  by (induction "[c]" ps rule: go_join.induct) auto

lemma Args_UnmarshalJSON_join:
  assumes "xs \<noteq> []" and "\<forall>x\<in>set xs. CHR '','' \<notin> set x \<and> CHR 0x22 \<notin> set x \<and> CHR 0x0A \<notin> set x"
  shows "Args_UnmarshalJSON unmarshal (quoted (go_join '','' xs)) = Inr xs"
proof -
  let ?s = "go_join '','' xs"
  have free: "CHR 0x22 \<notin> set ?s" "CHR 0x0A \<notin> set ?s"
    using assms(2) go_join_chars [of "CHR '',''" xs] by auto
  then have "stringPattern (quoted ?s)" by (auto simp: stringPattern_def quoted_def)
  moreover have "go_trim (CHR 0x22) (quoted ?s) = ?s"
  proof (cases "?s = []")
    case True
    then show ?thesis by (simp add: quoted_def go_trim_def)
  next
    case False
    then have "hd ?s \<in> set ?s" "last ?s \<in> set ?s" by simp_all
    with free(1) have "hd ?s \<noteq> CHR 0x22" "last ?s \<noteq> CHR 0x22" by metis+
    then show ?thesis using go_trim_quotes [OF False] by (simp add: quoted_def)
  qed
  moreover have "go_split (CHR '','') ?s = xs" using assms by (intro go_split_join) auto
  ultimately show ?thesis by (simp add: Args_UnmarshalJSON_def)
qed

section \<open>Responses\<close>

text \<open>
  A JSON value, for the fields of any type. It keeps its strings and numbers as they are written.
\<close>

datatype json =
    JNull
  | JBool bool
  | JNum string
  | JStr string
  | JArr "json list"
  | JObj "(string \<times> json) list"

record InfoResponse =
  Info :: string
  Version :: string
  info_Timestamp :: int
  Docs :: string
  Limit :: "(string, json) gomap"
  FrontID :: string
  SessionID :: string

record AuthResponse =
  auth_Success :: bool
  auth_Request :: "(string, json) gomap"

record SubscribeResponse =
  Success :: bool
  Subscribe :: string
  sub_Request :: OperationRequest

record ErrResponse =
  Error :: string
  Status :: int
  Meta :: "(string, json) gomap"
  err_Request :: OperationRequest

record tableResponse =
  Table :: string
  Action :: string
  Keys :: "string list"
  Types :: "(string, string) gomap"
  ForeignKeys :: "(string, string) gomap"
  Attributes :: "(string, string) gomap"
  Filter :: "(string, string) gomap"

record 'd dataResponse = tableResponse +
  Data :: "'d list"

record trade =
  td_Timestamp :: "int option"
  td_Symbol :: string
  td_Side :: string
  td_Size :: float32
  td_Price :: float64
  td_TickDirection :: string
  td_TrdMatchID :: string
  td_GrossValue :: float32
  td_HomeNotional :: float64
  td_ForeignNotional :: float64

text \<open>Of the hundred fields of an instrument, the ones the cache reads or writes.\<close>

record instrument =
  ins_Symbol :: string
  IndicativeSettlePrice :: float64
  MarkPrice :: float64
  FairBasis :: float64
  FairPrice :: float64
  PrevMarkPrice24H :: float64
  BidPrice :: float64
  AskPrice :: float64
  LastPrice :: float64
  PrevPrice24h :: float64
  LastChangePcnt :: float64
  LastTickDirection :: string
  Volume :: float64
  Volume24h :: float64
  TotalVolume :: float64
  PrevTotalVolume :: float64
  Turnover :: float64
  Turnover24h :: float64
  TotalTurnover :: float64
  PrevTotalTurnover :: float64
  FundingRate :: float64
  FundingTimestamp :: "int option"

type_synonym order_ref = "nat option"

datatype 'o table_msg =
    MBLResponse "order_ref dataResponse"
  | TradeResponse "trade dataResponse"
  | InstrumentResponse "instrument dataResponse"
  | ExecutionResponse "'o dataResponse"
  | MarginResponse "'o dataResponse"
  | OrderResponse "'o dataResponse"
  | PositionResponse "'o dataResponse"

datatype 'o response =
    InfoRsp InfoResponse
  | AuthRsp AuthResponse
  | SubRsp SubscribeResponse
  | ErrRsp ErrResponse
  | TableRsp "'o table_msg"

definition emptyTable :: tableResponse where
  "emptyTable = \<lparr>Table = [], Action = [], Keys = [], Types = [], ForeignKeys = [],
     Attributes = [], Filter = []\<rparr>"

definition emptyResponse :: "'d dataResponse" where
  "emptyResponse = tableResponse.extend emptyTable \<lparr>Data = []\<rparr>"

definition NewMBLPartial :: "order_ref dataResponse" where
  "NewMBLPartial = emptyResponse\<lparr>Table := ''orderBookL2'', Action := PartialAction\<rparr>"

definition NewTradePartial :: "trade dataResponse" where
  "NewTradePartial = emptyResponse\<lparr>Table := ''trade'', Action := PartialAction\<rparr>"

definition NewInstrumentPartial :: "instrument dataResponse" where
  "NewInstrumentPartial = emptyResponse\<lparr>Table := ''instrument'', Action := PartialAction\<rparr>"

fun table_of :: "'o table_msg \<Rightarrow> tableResponse" where
  "table_of (MBLResponse r) = tableResponse.truncate r"
| "table_of (TradeResponse r) = tableResponse.truncate r"
| "table_of (InstrumentResponse r) = tableResponse.truncate r"
| "table_of (ExecutionResponse r) = tableResponse.truncate r"
| "table_of (MarginResponse r) = tableResponse.truncate r"
| "table_of (OrderResponse r) = tableResponse.truncate r"
| "table_of (PositionResponse r) = tableResponse.truncate r"

definition GetAction :: "'o table_msg \<Rightarrow> string" where
  "GetAction m = Action (table_of m)"

datatype 'o row = MBLRow order_ref | TradeRow trade | InstrumentRow instrument | OtherRow 'o

fun GetData :: "'o table_msg \<Rightarrow> 'o row list" where
  "GetData (MBLResponse r) = map MBLRow (Data r)"
| "GetData (TradeResponse r) = map TradeRow (Data r)"
| "GetData (InstrumentResponse r) = map InstrumentRow (Data r)"
| "GetData (ExecutionResponse r) = map OtherRow (Data r)"
| "GetData (MarginResponse r) = map OtherRow (Data r)"
| "GetData (OrderResponse r) = map OtherRow (Data r)"
| "GetData (PositionResponse r) = map OtherRow (Data r)"

fun IsTableResponse :: "'o response \<Rightarrow> bool" where
  "IsTableResponse (TableRsp m) = True"
| "IsTableResponse _ = False"

fun IsPartialResponse :: "'o response \<Rightarrow> bool" where
  "IsPartialResponse (TableRsp m) = (Action (table_of m) = PartialAction)"
| "IsPartialResponse _ = False"

section \<open>Heartbeat messages\<close>

definition ping :: int where "ping = 1"
definition pong :: int where "pong = -1"

record HeartBeat =
  hb_value :: int
  hb_ts :: int

definition IsPing :: "HeartBeat \<Rightarrow> bool" where "IsPing hb = (hb_value hb = ping)"
definition IsPong :: "HeartBeat \<Rightarrow> bool" where "IsPong hb = (hb_value hb = pong)"
definition GetTime :: "HeartBeat \<Rightarrow> int" where "GetTime hb = hb_ts hb"
definition hb_Value :: "HeartBeat \<Rightarrow> int" where "hb_Value hb = hb_value hb"

definition hb_Type :: "HeartBeat \<Rightarrow> string" where
  "hb_Type hb =
     (if hb_value hb = ping then ''Ping''
      else if hb_value hb = pong then ''Pong''
      else ''Invalid type.'')"

definition hb_String :: "(int \<Rightarrow> string) \<Rightarrow> HeartBeat \<Rightarrow> string" where
  "hb_String fmt hb = hb_Type hb @ '': '' @ fmt (hb_ts hb)"

text \<open>\<open>time.Now\<close> is an argument.\<close>

definition NewPing :: "int \<Rightarrow> HeartBeat" where "NewPing now = \<lparr>hb_value = ping, hb_ts = now\<rparr>"
definition NewPong :: "int \<Rightarrow> HeartBeat" where "NewPong now = \<lparr>hb_value = pong, hb_ts = now\<rparr>"

lemma hb_Type_New [simp]:
  "hb_Type (NewPing t) = ''Ping''" "hb_Type (NewPong t) = ''Pong''"
  "hb_Value (NewPing t) = 1" "hb_Value (NewPong t) = -1"
  by (simp_all add: hb_Type_def NewPing_def NewPong_def hb_Value_def ping_def pong_def)

end
