(* ===== verification/OrderBook.thy ===== *)
theory OrderBook
  imports PriceList Messages
begin

text \<open>
  The book inside \<open>MBLCache\<close> (\<open>utils/cache_mbl.go\<close>): two sorted price lists, the map from
  prices to orders, the two best quotes, and the three handlers that change one level.

  The orders are objects shared by pointer between the messages and the cache
  (\<open>handleInsert\<close> stores the pointer of the message, \<open>handleUpdate\<close> writes through it), so
  they live in a store: \<open>objs\<close> lists every \<open>OrderBookL2\<close> object that exists, and a
  reference is an index into it. \<open>objs\<close> is not a field of the Go structure.

  \<open>l2Cache\<close> is nil until the first partial; reading a nil map finds nothing, writing to it
  is a run-time panic. \<open>realtime\<close> is \<open>channelGroup[Realtime]\<close>: the channels by depth.
\<close>

section \<open>State\<close>

record orderL2 =
  ord_Symbol :: string
  ord_ID :: int
  ord_Side :: string
  ord_Size :: float32
  ord_Price :: float64

record quote =
  bestPrice :: float64
  lastPrice :: float64
  bestSize :: float32
  lastSize :: float32

record mbl =
  objs :: "orderL2 list"
  realtime :: "(int, nat) gomap"
  historyCount :: int
  askPrices :: "float64 list"
  bidPrices :: "float64 list"
  askQuote :: quote
  bidQuote :: quote
  l2Cache :: "(float64, nat) gomap option"

datatype book_error =
    DeleteNotExist
  | InvalidSide string
  | PriceNotFound
  | InsertExists
  | UpdateNotExist
  | InvalidAction string

definition zeroQuote :: quote where
  "zeroQuote = \<lparr>bestPrice = 0, lastPrice = 0, bestSize = 0, lastSize = 0\<rparr>"

text \<open>The zero value of \<open>MBLCache\<close>.\<close>

definition newMBL :: mbl where
  "newMBL = \<lparr>objs = [], realtime = [], historyCount = 0, askPrices = [], bidPrices = [],
     askQuote = zeroQuote, bidQuote = zeroQuote, l2Cache = None\<rparr>"

text \<open>Following a pointer into the store, and looking up \<open>l2Cache\<close>.\<close>

definition load :: "mbl \<Rightarrow> order_ref \<Rightarrow> orderL2 go" where
  "load c ref = (case ref of None \<Rightarrow> Panic NilDereference
     | Some r \<Rightarrow> if r < length (objs c) then Ret (objs c ! r) else Panic NilDereference)"

definition l2_get :: "mbl \<Rightarrow> float64 \<Rightarrow> order_ref" where
  "l2_get c p = (case l2Cache c of None \<Rightarrow> None | Some m \<Rightarrow> map_of m p)"

definition push_quote :: "float64 \<Rightarrow> float32 \<Rightarrow> quote \<Rightarrow> quote" where
  "push_quote price sz q =
     q\<lparr>lastPrice := bestPrice q, bestPrice := price, lastSize := bestSize q, bestSize := sz\<rparr>"

definition push_size :: "float32 \<Rightarrow> quote \<Rightarrow> quote" where
  "push_size sz q = q\<lparr>lastSize := bestSize q, bestSize := sz\<rparr>"

section \<open>Readers\<close>

definition BestBidPrice :: "mbl \<Rightarrow> float64" where "BestBidPrice c = bestPrice (bidQuote c)"
definition BestBidSize :: "mbl \<Rightarrow> float32" where "BestBidSize c = bestSize (bidQuote c)"
definition BestAskPrice :: "mbl \<Rightarrow> float64" where "BestAskPrice c = bestPrice (askQuote c)"
definition BestAskSize :: "mbl \<Rightarrow> float32" where "BestAskSize c = bestSize (askQuote c)"

text \<open>\<open>IsQuoteChange\<close> also settles the last quotes.\<close>

definition IsQuoteChange :: "mbl \<Rightarrow> mbl \<times> bool" where
  "IsQuoteChange c =
     (let bq = bidQuote c; aq = askQuote c;
          bidChanged = (bestPrice bq \<noteq> lastPrice bq \<or> bestSize bq \<noteq> lastSize bq);
          askChanged = (bestPrice aq \<noteq> lastPrice aq \<or> bestSize aq \<noteq> lastSize aq);
          c1 = (if bidChanged
                then c\<lparr>bidQuote := bq\<lparr>lastPrice := bestPrice bq, lastSize := bestSize bq\<rparr>\<rparr> else c);
          c2 = (if askChanged
                then c1\<lparr>askQuote := aq\<lparr>lastPrice := bestPrice aq, lastSize := bestSize aq\<rparr>\<rparr> else c1)
      in (c2, bidChanged \<or> askChanged))"

definition GetDepth :: "mbl \<Rightarrow> string \<Rightarrow> int" where
  "GetDepth c side =
     (if side = ''Buy'' then int (length (bidPrices c))
      else if side = ''Sell'' then int (length (askPrices c))
      else -1)"

definition GetOrderOnDepth :: "mbl \<Rightarrow> string \<Rightarrow> int \<Rightarrow> order_ref go" where
  "GetOrderOnDepth c side depth =
     (if side = ''Buy'' then
        (let bidLength = int (length (bidPrices c)) in
         if bidLength < 1 \<or> depth > bidLength then Ret None
         else go_bind (go_nth (bidPrices c) (bidLength - depth)) (\<lambda>p. Ret (l2_get c p)))
      else if side = ''Sell'' then
        (let askLength = int (length (askPrices c)) in
         if askLength < 1 \<or> depth > askLength then Ret None
         else go_bind (go_nth (askPrices c) (askLength - depth)) (\<lambda>p. Ret (l2_get c p)))
      else Ret None)"

text \<open>\<open>fmt.Sprintf("%s_%d", table, depth)\<close>\<close>

definition depth_table :: "string \<Rightarrow> int \<Rightarrow> string" where
  "depth_table table depth = table @ ''_'' @ show_int depth"

definition snapshot :: "mbl \<Rightarrow> int \<Rightarrow> order_ref dataResponse" where
  "snapshot c depth =
     (let snap = NewMBLPartial;
          sellLength = int (length (askPrices c));
          buyLength = int (length (bidPrices c));
          sellDepth = (if depth > 0 then MinInt sellLength depth else sellLength);
          buyDepth = (if depth > 0 then MinInt buyLength depth else buyLength);
          snap1 = (if depth > 0 then snap\<lparr>Table := depth_table (Table snap) depth\<rparr> else snap);
          asks = drop (nat (sellLength - sellDepth)) (askPrices c);
          bids = drop (nat (buyLength - buyDepth)) (bidPrices c);
          priceList = asks @ ReverseFloat64Slice bids
      in snap1\<lparr>Data := map (l2_get c) priceList\<rparr>)"

section \<open>Changing one level\<close>

text \<open>The new best size, read through \<open>l2Cache\<close> after the price list has changed.\<close>

definition best_of :: "mbl \<Rightarrow> float64 list \<Rightarrow> (float64 \<times> float32) go" where
  "best_of c prices =
     go_bind (go_nth prices (int (length prices) - 1)) (\<lambda>p.
       go_bind (load c (l2_get c p)) (\<lambda>o'. Ret (p, ord_Size o')))"

definition handleDelete :: "mbl \<Rightarrow> order_ref \<Rightarrow> (mbl \<times> int \<times> book_error option) go" where
  "handleDelete c ref =
     go_bind (load c ref) (\<lambda>ord.
       case l2_get c (ord_Price ord) of
         None \<Rightarrow> Ret (c, 0, Some DeleteNotExist)
       | Some origin \<Rightarrow>
           go_bind (load c (Some origin)) (\<lambda>_.
           go_bind
             (if ord_Side ord = ''Buy'' then
                (let originLen = int (length (bidPrices c));
                     (idx, prices) = UniPriceRemove (bidPrices c) (ord_Price ord) False;
                     c1 = c\<lparr>bidPrices := prices\<rparr>;
                     depth = originLen - idx
                 in if depth = 1 then
                      go_bind (best_of c1 prices) (\<lambda>(p, sz).
                        Ret (c1\<lparr>bidQuote := push_quote p sz (bidQuote c1)\<rparr>, depth, idx, None))
                    else Ret (c1, depth, idx, None))
              else if ord_Side ord = ''Sell'' then
                (let originLen = int (length (askPrices c));
                     (idx, prices) = UniPriceRemove (askPrices c) (ord_Price ord) True;
                     c1 = c\<lparr>askPrices := prices\<rparr>;
                     depth = originLen - idx
                 in if depth = 1 then
                      go_bind (best_of c1 prices) (\<lambda>(p, sz).
                        Ret (c1\<lparr>askQuote := push_quote p sz (askQuote c1)\<rparr>, depth, idx, None))
                    else Ret (c1, depth, idx, None))
              else Ret (c, 0, -1, Some (InvalidSide (ord_Side ord))))
             (\<lambda>(c1, depth, idx, err).
               let err' = (if idx < 0 then Some PriceNotFound else err);
                   c2 = c1\<lparr>l2Cache := map_option (AList.delete (ord_Price ord)) (l2Cache c1)\<rparr>
               in Ret (c2, depth, err'))))"

definition handleInsert :: "mbl \<Rightarrow> order_ref \<Rightarrow> (mbl \<times> int \<times> book_error option) go" where
  "handleInsert c ref =
     go_bind (load c ref) (\<lambda>ord.
       case l2_get c (ord_Price ord) of
         Some origin \<Rightarrow> go_bind (load c (Some origin)) (\<lambda>_. Ret (c, 0, Some InsertExists))
       | None \<Rightarrow>
           go_bind
             (if ord_Side ord = ''Buy'' then
                go_bind (UniPriceAdd (bidPrices c) (ord_Price ord) False) (\<lambda>(idx, prices).
                  let c1 = c\<lparr>bidPrices := prices\<rparr>;
                      newLength = int (length prices);
                      depth = newLength - idx
                  in Ret (if depth = 1
                          then c1\<lparr>bidQuote := push_quote (ord_Price ord) (ord_Size ord) (bidQuote c1)\<rparr>
                          else c1, depth, None))
              else if ord_Side ord = ''Sell'' then
                go_bind (UniPriceAdd (askPrices c) (ord_Price ord) True) (\<lambda>(idx, prices).
                  let c1 = c\<lparr>askPrices := prices\<rparr>;
                      newLength = int (length prices);
                      depth = newLength - idx
                  in Ret (if depth = 1
                          then c1\<lparr>askQuote := push_quote (ord_Price ord) (ord_Size ord) (askQuote c1)\<rparr>
                          else c1, depth, None))
              else Ret (c, 0, Some (InvalidSide (ord_Side ord))))
             (\<lambda>(c1, depth, err).
               case l2Cache c1 of
                 None \<Rightarrow> Panic NilMapWrite
               | Some m \<Rightarrow> Ret (c1\<lparr>l2Cache := Some (AList.update (ord_Price ord) (the ref) m)\<rparr>, depth, err)))"

definition handleUpdate :: "mbl \<Rightarrow> order_ref \<Rightarrow> (mbl \<times> int \<times> book_error option) go" where
  "handleUpdate c ref =
     go_bind (load c ref) (\<lambda>ord.
       case l2_get c (ord_Price ord) of
         None \<Rightarrow> Ret (c, 0, Some UpdateNotExist)
       | Some origin \<Rightarrow>
           (let (c1, depth, idx, err) =
              (if ord_Side ord = ''Buy'' then
                 (let idx = UniPriceSearch (bidPrices c) (ord_Price ord) False;
                      depth = int (length (bidPrices c)) - idx
                  in (if depth = 1 then c\<lparr>bidQuote := push_size (ord_Size ord) (bidQuote c)\<rparr> else c,
                      depth, idx, None))
               else if ord_Side ord = ''Sell'' then
                 (let idx = UniPriceSearch (askPrices c) (ord_Price ord) True;
                      depth = int (length (askPrices c)) - idx
                  in (if depth = 1 then c\<lparr>askQuote := push_size (ord_Size ord) (askQuote c)\<rparr> else c,
                      depth, idx, None))
               else (c, 0, -1, Some (InvalidSide (ord_Side ord))))
            in if idx < 0 then Ret (c1, depth, Some PriceNotFound)
               else go_bind (load c1 (Some origin)) (\<lambda>o'.
                 Ret (c1\<lparr>objs := (objs c1)[origin := o'\<lparr>ord_Size := ord_Size ord\<rparr>]\<rparr>, depth, err))))"

definition initCache :: "mbl \<Rightarrow> mbl" where
  "initCache c = c\<lparr>l2Cache := Some [], askPrices := [], bidPrices := []\<rparr>"

section \<open>One side of the book\<close>

context price_side
begin

lemma add_level:
  assumes srt: "sorted_wrt before xs" and p: "p \<notin> set xs"
  shows "\<exists>i ys. add xs p = Ret (int i, ys) \<and> sorted_wrt before ys \<and> set ys = insert p (set xs)
    \<and> length ys = Suc (length xs) \<and> i \<le> length xs \<and> length xs - i = card {x \<in> set xs. before p x}
    \<and> last ys = (if i = length xs then p else last xs) \<and> ys = take i xs @ p # drop i xs"
proof -
  from add_spec [OF srt p] obtain i where
    a: "add xs p = Ret (int i, take i xs @ p # drop i xs)" and i: "insertion_point before xs p i"
    by blast
  let ?ys = "take i xs @ p # drop i xs"
  have le: "i \<le> length xs" using i by (simp add: insertion_point_def)
  have "set ?ys = insert p (set (take i xs) \<union> set (drop i xs))" by auto
  then have st: "set ?ys = insert p (set xs)" by (simp only: set_take_drop)
  have "last ?ys = (if i = length xs then p else last xs)" using le by auto
  with a st le show ?thesis
    using sorted_insert [OF srt i] insertion_point_index [OF sorted_distinct [OF srt] i]
    by (intro exI [of _ i] exI [of _ ?ys]) simp
qed

lemma remove_level:
  assumes srt: "sorted_wrt before xs" and p: "p \<in> set xs"
  shows "\<exists>i ys. remove xs p = (int i, ys) \<and> sorted_wrt before ys \<and> set ys = set xs - {p}
    \<and> length xs = Suc (length ys) \<and> i < length xs \<and> length xs - i = Suc (card {x \<in> set xs. before p x})
    \<and> (i < length ys \<longrightarrow> last ys = last xs) \<and> xs = take i ys @ p # drop i ys"
proof -
  from p obtain i where i: "i < length xs" "p = xs ! i" by (auto simp: in_set_conv_nth)
  let ?ys = "take i xs @ drop (Suc i) xs"
  have xs: "xs = take i xs @ p # drop (Suc i) xs" using i by (simp add: id_take_nth_drop)
  have d: "distinct xs" by (rule sorted_distinct [OF srt])
  then have "p \<notin> set (take i xs)" "p \<notin> set (drop (Suc i) xs)"
    using xs by (metis distinct_append distinct.simps(2) not_distinct_conv_prefix,
      metis xs distinct_append distinct.simps(2))
  then have rm: "remove1 p xs = ?ys" by (subst xs) (simp add: remove1_append)
  then have "set ?ys = set xs - {p}" using d by (metis set_remove1_eq)
  moreover have "xs = take i ?ys @ p # drop i ?ys" using xs i(1) by simp
  moreover have "length xs - i = Suc (card {x \<in> set xs. before p x})"
    using level_index [OF srt i(1)] i by simp
  moreover have "last ?ys = last xs" if "i < length ?ys" using that i by auto
  ultimately show ?thesis
    using remove_found [OF srt i(1)] sorted_wrt_remove_at [OF srt, of i] i
    by (intro exI [of _ i] exI [of _ ?ys]) auto
qed

lemma search_level:
  assumes srt: "sorted_wrt before xs" and p: "p \<in> set xs"
  shows "\<exists>i. search xs p = int i \<and> i < length xs \<and> xs ! i = p
    \<and> length xs - i = Suc (card {x \<in> set xs. before p x})"
proof -
  from p obtain i where i: "i < length xs" "p = xs ! i" by (auto simp: in_set_conv_nth)
  then show ?thesis using search_found [OF srt i(1)] level_index [OF srt i(1)]
    by (intro exI [of _ i]) auto
qed

end

section \<open>The book as a map\<close>

text \<open>
  What the cache stands for: at each price at most one order. \<open>side_list\<close> is the price list
  of a side, \<open>better\<close> its order (a better bid is higher, a better ask lower), \<open>level_of\<close> the
  depth the handlers report, 1 being the best level.
\<close>

definition l2_book :: "mbl \<Rightarrow> float64 \<Rightarrow> orderL2 option" where
  "l2_book c p = map_option (\<lambda>r. objs c ! r) (l2_get c p)"

definition side_list :: "mbl \<Rightarrow> string \<Rightarrow> float64 list" where
  "side_list c s = (if s = ''Buy'' then bidPrices c else askPrices c)"

definition better :: "string \<Rightarrow> float64 \<Rightarrow> float64 \<Rightarrow> bool" where
  "better s p q = (if s = ''Buy'' then p < q else q < p)"

definition level_of :: "string \<Rightarrow> float64 set \<Rightarrow> float64 \<Rightarrow> nat" where
  "level_of s ps p = Suc (card {q \<in> ps. better s p q})"

definition valid_side :: "string \<Rightarrow> bool" where
  "valid_side s \<longleftrightarrow> s = ''Buy'' \<or> s = ''Sell''"

definition book_prices :: "(float64 \<Rightarrow> orderL2 option) \<Rightarrow> string \<Rightarrow> float64 set" where
  "book_prices b s = {p. \<exists>o'. b p = Some o' \<and> ord_Side o' = s}"

definition levels_ok :: "mbl \<Rightarrow> bool" where
  "levels_ok c \<longleftrightarrow> (\<forall>p r. l2_get c p = Some r \<longrightarrow>
     r < length (objs c) \<and> ord_Price (objs c ! r) = p \<and> valid_side (ord_Side (objs c ! r)))"

definition book_ok :: "mbl \<Rightarrow> bool" where
  "book_ok c \<longleftrightarrow> (\<exists>m. l2Cache c = Some m \<and> distinct (map fst m)) \<and> levels_ok c
     \<and> (\<forall>s. valid_side s \<longrightarrow> sorted_wrt (better s) (side_list c s)
          \<and> set (side_list c s) = book_prices (l2_book c) s)"

definition side_quote :: "mbl \<Rightarrow> string \<Rightarrow> quote" where
  "side_quote c s = (if s = ''Buy'' then bidQuote c else askQuote c)"

definition quote_at :: "mbl \<Rightarrow> string \<Rightarrow> bool" where
  "quote_at c s \<longleftrightarrow> side_list c s \<noteq> [] \<longrightarrow>
     bestPrice (side_quote c s) = last (side_list c s)
     \<and> (\<exists>o'. l2_book c (last (side_list c s)) = Some o' \<and> bestSize (side_quote c s) = ord_Size o')"

definition quote_ok :: "mbl \<Rightarrow> bool" where
  "quote_ok c \<longleftrightarrow> (\<forall>s. valid_side s \<longrightarrow> quote_at c s)"

lemmas book_views = l2_book_def side_list_def better_def side_quote_def valid_side_def

lemma valid_sides [simp]: "valid_side ''Buy''" "valid_side ''Sell''"
  by (simp_all add: valid_side_def)

lemma better_sides [simp]: "better ''Buy'' = (<)" "better ''Sell'' = (\<lambda>p q. q < p)"
  by (auto simp: better_def fun_eq_iff)

lemma side_list_sides [simp]:
  "side_list c ''Buy'' = bidPrices c" "side_list c ''Sell'' = askPrices c"
  by (simp_all add: side_list_def)

lemma side_quote_sides [simp]:
  "side_quote c ''Buy'' = bidQuote c" "side_quote c ''Sell'' = askQuote c"
  by (simp_all add: side_quote_def)

lemma all_sides: "(\<forall>s. valid_side s \<longrightarrow> P s) \<longleftrightarrow> P ''Buy'' \<and> P ''Sell''"
  by (auto simp: valid_side_def)

lemma load_Some [book_simps]: "r < length (objs c) \<Longrightarrow> load c (Some r) = Ret (objs c ! r)"
  by (simp add: load_def)

lemma book_okD:
  assumes "book_ok c"
  shows "levels_ok c" "l2Cache c \<noteq> None"
    "sorted_wrt (<) (bidPrices c)" "sorted_wrt (\<lambda>p q. q < p) (askPrices c)"
    "set (bidPrices c) = book_prices (l2_book c) ''Buy''"
    "set (askPrices c) = book_prices (l2_book c) ''Sell''"
  using assms by (auto simp: book_ok_def all_sides)

lemma l2_book_objs:
  assumes "book_ok c" "l2_book c p = Some o'"
  obtains r where "l2_get c p = Some r" "r < length (objs c)" "o' = objs c ! r" "ord_Price o' = p"
    "valid_side (ord_Side o')"
proof -
  from assms(2) obtain r where r: "l2_get c p = Some r" "o' = objs c ! r"
    by (auto simp: l2_book_def)
  with book_okD(1) [OF assms(1)] have "r < length (objs c)" "ord_Price o' = p" "valid_side (ord_Side o')"
    by (auto simp: levels_ok_def)
  with r show ?thesis by (intro that [of r])
qed

lemma l2_book_side: "book_ok c \<Longrightarrow> l2_book c p = Some o' \<Longrightarrow> valid_side (ord_Side o')"
  by (erule (1) l2_book_objs)

lemma l2_book_None:
  assumes "book_ok c" "p \<notin> set (bidPrices c)" "p \<notin> set (askPrices c)"
  shows "l2_book c p = None"
  using assms(2,3) l2_book_side [OF assms(1), of p]
  by (cases "l2_book c p") (auto simp: book_okD [OF assms(1)] book_prices_def valid_side_def)

lemma side_disjoint: "book_ok c \<Longrightarrow> p \<in> set (bidPrices c) \<Longrightarrow> p \<in> set (askPrices c) \<Longrightarrow> False"
  by (auto simp: book_okD book_prices_def)

lemma not_in_side:
  assumes "book_ok c" "l2_book c p = None"
  shows "p \<notin> set (bidPrices c)" "p \<notin> set (askPrices c)"
  using assms(2) by (auto simp: book_okD [OF assms(1)] book_prices_def)

lemma book_ok_sorted: "book_ok c \<Longrightarrow> valid_side s \<Longrightarrow> sorted_wrt (better s) (side_list c s)"
  by (auto simp: book_ok_def)

lemma book_ok_set: "book_ok c \<Longrightarrow> valid_side s \<Longrightarrow> set (side_list c s) = book_prices (l2_book c) s"
  by (auto simp: book_ok_def)

lemma quote_at_same:
  assumes "quote_at c s" "side_list c s \<noteq> []" "last (side_list c' s) = last (side_list c s)"
    "side_quote c' s = side_quote c s" "l2_book c' (last (side_list c s)) = l2_book c (last (side_list c s))"
  shows "quote_at c' s"
  using assms by (auto simp: quote_at_def)

lemma last_level:
  assumes "book_ok c" "valid_side s" "side_list c s \<noteq> []"
  obtains o' where "l2_book c (last (side_list c s)) = Some o'" "ord_Side o' = s"
proof -
  have "last (side_list c s) \<in> book_prices (l2_book c) s"
    using assms by (metis book_ok_set last_in_set)
  then show ?thesis using that by (auto simp: book_prices_def)
qed

lemma book_prices_upd:
  "b p = None \<Longrightarrow> book_prices (b(p \<mapsto> o')) s = (if ord_Side o' = s then insert p (book_prices b s) else book_prices b s)"
  by (auto simp: book_prices_def)

lemma book_prices_del: "book_prices (b(p := None)) s = book_prices b s - {p}"
  by (auto simp: book_prices_def)

text \<open>A book is well-formed again when its map, its lists and its abstract book change together.\<close>

lemma book_okI:
  assumes "l2Cache c = Some m" "distinct (map fst m)" "levels_ok c"
    "sorted_wrt (<) (bidPrices c)" "sorted_wrt (\<lambda>p q. q < p) (askPrices c)"
    "set (bidPrices c) = book_prices (l2_book c) ''Buy''"
    "set (askPrices c) = book_prices (l2_book c) ''Sell''"
  shows "book_ok c"
  using assms by (simp add: book_ok_def all_sides)

section \<open>Insertion of a level\<close>

definition side_set :: "mbl \<Rightarrow> string \<Rightarrow> float64 list \<Rightarrow> quote \<Rightarrow> mbl" where
  "side_set c s ps q = (if s = ''Buy'' then c\<lparr>bidPrices := ps, bidQuote := q\<rparr>
     else c\<lparr>askPrices := ps, askQuote := q\<rparr>)"

lemma side_set_simps [simp]:
  "objs (side_set c s ps q) = objs c" "l2Cache (side_set c s ps q) = l2Cache c"
  "realtime (side_set c s ps q) = realtime c" "historyCount (side_set c s ps q) = historyCount c"
  "l2_get (side_set c s ps q) p = l2_get c p" "l2_book (side_set c s ps q) p = l2_book c p"
  by (simp_all add: side_set_def l2_get_def l2_book_def)

lemma side_set_list:
  "valid_side s \<Longrightarrow> valid_side s' \<Longrightarrow> side_list (side_set c s ps q) s' = (if s' = s then ps else side_list c s')"
  "valid_side s \<Longrightarrow> valid_side s' \<Longrightarrow> side_quote (side_set c s ps q) s' = (if s' = s then q else side_quote c s')"
  by (auto simp: side_set_def valid_side_def)

lemma side_keep [simp]:
  "side_list (c\<lparr>l2Cache := m\<rparr>) s = side_list c s" "side_quote (c\<lparr>l2Cache := m\<rparr>) s = side_quote c s"
  "side_list (c\<lparr>objs := os\<rparr>) s = side_list c s" "side_quote (c\<lparr>objs := os\<rparr>) s = side_quote c s"
  by (simp_all add: side_list_def side_quote_def)

definition side_add :: "string \<Rightarrow> float64 list \<Rightarrow> float64 \<Rightarrow> (int \<times> float64 list) go" where
  "side_add s ps p = UniPriceAdd ps p (s \<noteq> ''Buy'')"

definition side_remove :: "string \<Rightarrow> float64 list \<Rightarrow> float64 \<Rightarrow> int \<times> float64 list" where
  "side_remove s ps p = UniPriceRemove ps p (s \<noteq> ''Buy'')"

definition side_search :: "string \<Rightarrow> float64 list \<Rightarrow> float64 \<Rightarrow> int" where
  "side_search s ps p = UniPriceSearch ps p (s \<noteq> ''Buy'')"

text \<open>Both sides of the book are the same interface.\<close>

lemma price_side_of: "valid_side s \<Longrightarrow> price_side (better s) (side_add s) (side_remove s) (side_search s)"
  using bids.price_side_axioms asks.price_side_axioms
  by (auto simp: valid_side_def side_add_def [abs_def] side_remove_def [abs_def] side_search_def [abs_def])

lemma side_add_level:
  assumes "valid_side s" "sorted_wrt (better s) xs" "p \<notin> set xs"
  shows "\<exists>i ys. side_add s xs p = Ret (int i, ys) \<and> sorted_wrt (better s) ys \<and> set ys = insert p (set xs)
    \<and> length ys = Suc (length xs) \<and> i \<le> length xs \<and> length ys - i = level_of s (set xs) p
    \<and> last ys = (if i = length xs then p else last xs) \<and> ys = take i xs @ p # drop i xs"
proof -
  from price_side.add_level [OF price_side_of [OF assms(1)] assms(2,3)] obtain i ys where
    *: "side_add s xs p = Ret (int i, ys)" "sorted_wrt (better s) ys" "set ys = insert p (set xs)"
    "length ys = Suc (length xs)" "i \<le> length xs" "length xs - i = card {x \<in> set xs. better s p x}"
    "last ys = (if i = length xs then p else last xs)" "ys = take i xs @ p # drop i xs"
    by blast
  moreover have "length ys - i = level_of s (set xs) p"
    using *(4,5,6) by (simp add: level_of_def)
  ultimately show ?thesis by blast
qed

lemma side_remove_level:
  assumes "valid_side s" "sorted_wrt (better s) xs" "p \<in> set xs"
  shows "\<exists>i ys. side_remove s xs p = (int i, ys) \<and> sorted_wrt (better s) ys \<and> set ys = set xs - {p}
    \<and> length xs = Suc (length ys) \<and> i < length xs \<and> length xs - i = level_of s (set xs) p
    \<and> (i < length ys \<longrightarrow> last ys = last xs) \<and> xs = take i ys @ p # drop i ys"
  using price_side.remove_level [OF price_side_of [OF assms(1)] assms(2,3)]
  unfolding level_of_def .

lemma side_search_level:
  assumes "valid_side s" "sorted_wrt (better s) xs" "p \<in> set xs"
  shows "\<exists>i. side_search s xs p = int i \<and> i < length xs \<and> xs ! i = p \<and> length xs - i = level_of s (set xs) p"
  using price_side.search_level [OF price_side_of [OF assms(1)] assms(2,3)]
  unfolding level_of_def .

text \<open>The handlers, read on a valid side.\<close>

lemma handleInsert_side:
  assumes "r < length (objs c)" "o' = objs c ! r" "valid_side (ord_Side o')" "l2_get c (ord_Price o') = None"
    "l2Cache c = Some m" "side_add (ord_Side o') (side_list c (ord_Side o')) (ord_Price o') = Ret (i, ys)"
  shows "handleInsert c (Some r) =
    Ret ((side_set c (ord_Side o') ys
            (if int (length ys) - i = 1 then push_quote (ord_Price o') (ord_Size o') (side_quote c (ord_Side o'))
             else side_quote c (ord_Side o')))\<lparr>l2Cache := Some (AList.update (ord_Price o') r m)\<rparr>,
         int (length ys) - i, None)"
  using assms
  by (auto simp: handleInsert_def load_Some valid_side_def side_add_def side_set_def Let_def)

lemma book_okI_sides:
  assumes "l2Cache c = Some m" "distinct (map fst m)" "levels_ok c"
    "\<And>s. valid_side s \<Longrightarrow> sorted_wrt (better s) (side_list c s)"
    "\<And>s. valid_side s \<Longrightarrow> set (side_list c s) = book_prices (l2_book c) s"
  shows "book_ok c"
  using assms by (auto simp: book_ok_def)

text \<open>The frame of an operation on one side: what it leaves alone.\<close>

definition other_side_kept :: "mbl \<Rightarrow> mbl \<Rightarrow> string \<Rightarrow> bool" where
  "other_side_kept c c' s \<longleftrightarrow> realtime c' = realtime c \<and> historyCount c' = historyCount c
     \<and> length (objs c') = length (objs c) \<and> l2Cache c' \<noteq> None
     \<and> (\<forall>t. valid_side t \<longrightarrow> t \<noteq> s \<longrightarrow> side_list c' t = side_list c t \<and> side_quote c' t = side_quote c t)"

lemma handleInsert_ok:
  assumes ok: "book_ok c" and r: "r < length (objs c)" "o' = objs c ! r"
    and side: "valid_side (ord_Side o')" and new: "l2_book c (ord_Price o') = None"
  shows "\<exists>c'. handleInsert c (Some r) =
        Ret (c', int (level_of (ord_Side o') (set (side_list c (ord_Side o'))) (ord_Price o')), None)
    \<and> book_ok c' \<and> l2_book c' = (l2_book c)(ord_Price o' \<mapsto> o') \<and> objs c' = objs c
    \<and> other_side_kept c c' (ord_Side o')
    \<and> level_put (side_list c (ord_Side o')) (side_list c' (ord_Side o')) (ord_Price o')
          (level_of (ord_Side o') (set (side_list c (ord_Side o'))) (ord_Price o'))
    \<and> (quote_ok c \<longrightarrow> quote_ok c')"
proof -
  define s p xs where d: "s = ord_Side o'" "p = ord_Price o'" "xs = side_list c s"
  obtain m where m: "l2Cache c = Some m" "distinct (map fst m)" using ok by (auto simp: book_ok_def)
  have srt: "sorted_wrt (better s) xs" and st: "set xs = book_prices (l2_book c) s"
    using book_ok_sorted [OF ok] book_ok_set [OF ok] side by (auto simp: d)
  have "p \<notin> set xs" using new unfolding st by (auto simp: d(2) book_prices_def)
  from side_add_level [OF side [folded d(1)] srt this] obtain i ys where
    a: "side_add s xs p = Ret (int i, ys)" "sorted_wrt (better s) ys" "set ys = insert p (set xs)"
    "length ys = Suc (length xs)" "i \<le> length xs" "length ys - i = level_of s (set xs) p"
    "last ys = (if i = length xs then p else last xs)" "ys = take i xs @ p # drop i xs"
    by blast
  define q where "q = (if int (length ys) - int i = 1 then push_quote p (ord_Size o') (side_quote c s) else side_quote c s)"
  define c' where "c' = (side_set c s ys q)\<lparr>l2Cache := Some (AList.update p r m)\<rparr>"
  have none: "l2_get c p = None" using new by (simp add: l2_book_def d)
  have run: "handleInsert c (Some r) = Ret (c', int (level_of s (set xs) p), None)"
    using handleInsert_side [OF r side none [unfolded d(2)] m(1) a(1) [unfolded d]] a(4,5,6)
    by (simp add: c'_def q_def d of_nat_diff [symmetric] del: of_nat_diff)
  have get: "l2_get c' x = (if x = p then Some r else l2_get c x)" for x
    by (simp add: c'_def l2_get_def m(1))
  have objs: "objs c' = objs c" by (simp add: c'_def)
  have book: "l2_book c' = (l2_book c)(p \<mapsto> o')"
    by (rule ext) (simp add: l2_book_def get objs r)
  have lists: "side_list c' t = (if t = s then ys else side_list c t)"
    "side_quote c' t = (if t = s then q else side_quote c t)" if "valid_side t" for t
    using side that by (simp_all add: c'_def side_set_list d)
  have "book_ok c'"
  proof (rule book_okI_sides)
    show "l2Cache c' = Some (AList.update p r m)" by (simp add: c'_def)
    show "levels_ok c'" using book_okD(1) [OF ok] r side
      by (auto simp: levels_ok_def get objs d)
    show "sorted_wrt (better t) (side_list c' t)" if "valid_side t" for t
      using a(2) book_ok_sorted [OF ok that] by (simp add: lists that)
    show "set (side_list c' t) = book_prices (l2_book c') t" if "valid_side t" for t
      using new book_ok_set [OF ok that] a(3) st
      by (simp add: lists that book book_prices_upd d)
  qed (simp add: m distinct_update)
  moreover have "quote_ok c'" if q: "quote_ok c"
    unfolding quote_ok_def
  proof (intro allI impI)
    fix t assume t: "valid_side t"
    show "quote_at c' t"
    proof (cases "t = s \<and> i = length xs")
      case True
      then show ?thesis using a(4,7) t by (simp add: quote_at_def lists q_def push_quote_def book)
    next
      case False
      show ?thesis
      proof (cases "side_list c' t = []")
        case ne: False
        then have ne: "side_list c t \<noteq> []" using False t a(4,5) by (auto simp: lists d split: if_splits)
        have "last (side_list c t) \<noteq> p" using last_level [OF ok t ne] new by (force simp: d)
        moreover have "last (side_list c' t) = last (side_list c t)" "side_quote c' t = side_quote c t"
          using False a(4,5,7) t by (auto simp: lists q_def d)
        moreover have "quote_at c t" using q t by (simp add: quote_ok_def)
        ultimately show ?thesis using ne by - (rule quote_at_same [of c], simp_all add: book)
      qed (simp add: quote_at_def)
    qed
  qed
  moreover have "other_side_kept c c' s"
    by (simp add: other_side_kept_def lists) (simp add: c'_def)
  moreover have "level_put xs (side_list c' s) p (level_of s (set xs) p)"
    using a(4,5,6,8) side by (auto simp: level_put_def lists d)
  ultimately show ?thesis
    using run book objs unfolding d by (intro exI [of _ c']) simp
qed

section \<open>Deletion and update of a level\<close>

lemma best_of_same: "l2_get c' = l2_get c \<Longrightarrow> objs c' = objs c \<Longrightarrow> best_of c' ps = best_of c ps"
proof -
  assume a: "l2_get c' = l2_get c" "objs c' = objs c"
  then have "load c' = load c" by (auto simp: load_def fun_eq_iff split: option.splits)
  with a show ?thesis by (simp add: best_of_def)
qed

lemma handleDelete_side:
  assumes "r < length (objs c)" "o' = objs c ! r" "valid_side (ord_Side o')"
    "l2_get c (ord_Price o') = Some e" "e < length (objs c)"
    "side_remove (ord_Side o') (side_list c (ord_Side o')) (ord_Price o') = (i, ys)"
    "d = int (length (side_list c (ord_Side o'))) - i"
  shows "handleDelete c (Some r) =
    go_bind (if d = 1 then go_bind (best_of c ys) (\<lambda>(p, sz). Ret (push_quote p sz (side_quote c (ord_Side o'))))
             else Ret (side_quote c (ord_Side o')))
      (\<lambda>q. Ret ((side_set c (ord_Side o') ys q)\<lparr>l2Cache := map_option (AList.delete (ord_Price o')) (l2Cache c)\<rparr>,
                 d, if i < 0 then Some PriceNotFound else None))"
proof -
  have same: "best_of (c\<lparr>bidPrices := ys\<rparr>) ys = best_of c ys" "best_of (c\<lparr>askPrices := ys\<rparr>) ys = best_of c ys"
    by (rule best_of_same; simp add: l2_get_def fun_eq_iff)+
  show ?thesis
    using assms(3)
  proof (unfold valid_side_def, elim disjE)
    assume s: "ord_Side o' = ''Buy''"
    then show ?thesis using assms
      by (cases "best_of c ys")
        (auto simp: handleDelete_def load_Some side_remove_def side_set_def same split: prod.splits)
  next
    assume s: "ord_Side o' = ''Sell''"
    then show ?thesis using assms
      by (cases "best_of c ys")
        (auto simp: handleDelete_def load_Some side_remove_def side_set_def same split: prod.splits)
  qed
qed

lemma handleUpdate_side:
  assumes "r < length (objs c)" "o' = objs c ! r" "valid_side (ord_Side o')"
    "l2_get c (ord_Price o') = Some e" "e < length (objs c)"
    "side_search (ord_Side o') (side_list c (ord_Side o')) (ord_Price o') = i" "0 \<le> i"
    "d = int (length (side_list c (ord_Side o'))) - i"
  shows "handleUpdate c (Some r) =
    Ret ((side_set c (ord_Side o') (side_list c (ord_Side o'))
           (if d = 1 then push_size (ord_Size o') (side_quote c (ord_Side o')) else side_quote c (ord_Side o')))
         \<lparr>objs := (objs c)[e := (objs c ! e)\<lparr>ord_Size := ord_Size o'\<rparr>]\<rparr>, d, None)"
  using assms
  by (auto simp: handleUpdate_def load_def valid_side_def side_search_def side_set_def Let_def)

lemma best_of_ok:
  assumes "book_ok c" "ps \<noteq> []" "l2_book c (last ps) = Some o'"
  shows "best_of c ps = Ret (last ps, ord_Size o')"
proof -
  from l2_book_objs [OF assms(1,3)] obtain r where "l2_get c (last ps) = Some r" "r < length (objs c)" "o' = objs c ! r"
    by blast
  then show ?thesis using assms(2) by (simp add: best_of_def go_nth_last load_Some)
qed

text \<open>Deleting the only level of a side reads the best level of an empty list.\<close>

lemma handleDelete_last_panics:
  assumes ok: "book_ok c" and r: "r < length (objs c)" "o' = objs c ! r"
    and side: "valid_side (ord_Side o')" "side_list c (ord_Side o') = [ord_Price o']"
  shows "handleDelete c (Some r) = Panic IndexOutOfRange"
proof -
  have "ord_Price o' \<in> book_prices (l2_book c) (ord_Side o')"
    using book_ok_set [OF ok side(1)] side(2) by auto
  then obtain x where x: "l2_book c (ord_Price o') = Some x" by (auto simp: book_prices_def)
  from l2_book_objs [OF ok this] obtain e where e: "l2_get c (ord_Price o') = Some e" "e < length (objs c)"
    by blast
  have rm: "side_remove (ord_Side o') (side_list c (ord_Side o')) (ord_Price o') = (0, [])"
    using side_remove_level [OF side(1) book_ok_sorted [OF ok side(1)], of "ord_Price o'"] side(2) by fastforce
  show ?thesis
    using handleDelete_side [OF r side(1) e rm refl] side(2)
    by (simp add: best_of_def go_nth_last del: book_simps) (simp add: go_nth_def)
qed

lemma handleDelete_ok:
  assumes ok: "book_ok c" and r: "r < length (objs c)" "o' = objs c ! r"
    and side: "valid_side (ord_Side o')"
    and there: "l2_book c (ord_Price o') = Some x" "ord_Side x = ord_Side o'"
    and more: "side_list c (ord_Side o') \<noteq> [ord_Price o']"
  shows "\<exists>c'. handleDelete c (Some r) =
        Ret (c', int (level_of (ord_Side o') (set (side_list c (ord_Side o'))) (ord_Price o')), None)
    \<and> book_ok c' \<and> l2_book c' = (l2_book c)(ord_Price o' := None) \<and> objs c' = objs c
    \<and> other_side_kept c c' (ord_Side o')
    \<and> level_put (side_list c' (ord_Side o')) (side_list c (ord_Side o')) (ord_Price o')
          (level_of (ord_Side o') (set (side_list c (ord_Side o'))) (ord_Price o'))
    \<and> (quote_ok c \<longrightarrow> quote_ok c')"
proof -
  define s p xs where d: "s = ord_Side o'" "p = ord_Price o'" "xs = side_list c s"
  obtain m where m: "l2Cache c = Some m" "distinct (map fst m)" using ok by (auto simp: book_ok_def)
  have vs: "valid_side s" using side by (simp add: d)
  have srt: "sorted_wrt (better s) xs" and st: "set xs = book_prices (l2_book c) s"
    using book_ok_sorted [OF ok vs] book_ok_set [OF ok vs] by (auto simp: d)
  have p: "p \<in> set xs" using there unfolding st by (auto simp: d(1,2) book_prices_def)
  from side_remove_level [OF vs srt p] obtain i ys where
    a: "side_remove s xs p = (int i, ys)" "sorted_wrt (better s) ys" "set ys = set xs - {p}"
    "length xs = Suc (length ys)" "i < length xs" "length xs - i = level_of s (set xs) p"
    "i < length ys \<longrightarrow> last ys = last xs" "xs = take i ys @ p # drop i ys"
    by blast
  have "ys \<noteq> []" using a(8) more by (auto simp: d)
  then have last: "last ys \<in> set ys" by simp
  then have "last ys \<in> book_prices (l2_book c) s" using a(3) st by blast
  then obtain b where b: "l2_book c (last ys) = Some b" by (auto simp: book_prices_def)
  have bo: "best_of c ys = Ret (last ys, ord_Size b)" by (rule best_of_ok [OF ok \<open>ys \<noteq> []\<close> b])
  from l2_book_objs [OF ok there(1)] obtain e where e: "l2_get c p = Some e" "e < length (objs c)"
    unfolding d by blast
  define q where "q = (if int (length xs) - int i = 1 then push_quote (last ys) (ord_Size b) (side_quote c s) else side_quote c s)"
  define c' where "c' = (side_set c s ys q)\<lparr>l2Cache := Some (AList.delete p m)\<rparr>"
  have run: "handleDelete c (Some r) = Ret (c', int (level_of s (set xs) p), None)"
    using handleDelete_side [OF r side e [unfolded d] a(1) [unfolded d] refl] a(5,6) bo
    by (auto simp add: c'_def q_def d m(1) of_nat_diff [symmetric] simp del: of_nat_diff)
  have get: "l2_get c' x = (if x = p then None else l2_get c x)" for x
    by (simp add: c'_def l2_get_def m(1))
  have objs: "objs c' = objs c" by (simp add: c'_def)
  have book: "l2_book c' = (l2_book c)(p := None)"
    by (rule ext) (simp add: l2_book_def get objs)
  have lists: "side_list c' t = (if t = s then ys else side_list c t)"
    "side_quote c' t = (if t = s then q else side_quote c t)" if "valid_side t" for t
    using vs that by (simp_all add: c'_def side_set_list)
  have "book_ok c'"
  proof (rule book_okI_sides)
    show "l2Cache c' = Some (AList.delete p m)" by (simp add: c'_def)
    show "levels_ok c'" using book_okD(1) [OF ok] by (auto simp: levels_ok_def get objs)
    show "sorted_wrt (better t) (side_list c' t)" if "valid_side t" for t
      using a(2) book_ok_sorted [OF ok that] by (simp add: lists that)
    show "set (side_list c' t) = book_prices (l2_book c') t" if "valid_side t" for t
    proof (cases "t = s")
      case False
      then have "p \<notin> book_prices (l2_book c) t" using there by (auto simp: book_prices_def d)
      with False book_ok_set [OF ok that] show ?thesis by (simp add: lists that book book_prices_del)
    qed (use a(3) st vs in \<open>simp add: lists book book_prices_del\<close>)
  qed (simp add: m distinct_delete)
  moreover have "quote_ok c'" if q: "quote_ok c"
    unfolding quote_ok_def
  proof (intro allI impI)
    fix t assume t: "valid_side t"
    have lp: "last ys \<noteq> p" using last a(3) by auto
    show "quote_at c' t"
    proof (cases "t = s \<and> i = length ys")
      case True
      then show ?thesis using a(4) t b lp by (simp add: quote_at_def lists q_def push_quote_def book)
    next
      case False
      show ?thesis
      proof (cases "side_list c' t = []")
        case ne: False
        then have ne: "side_list c t \<noteq> []" using t a(4) by (auto simp: lists d split: if_splits)
        have "last (side_list c t) \<noteq> p"
        proof (cases "t = s")
          case True
          then show ?thesis using False lp a(4,5,7) by (auto simp: d)
        qed (use last_level [OF ok t ne] there in \<open>force simp: d\<close>)
        moreover have "last (side_list c' t) = last (side_list c t)" "side_quote c' t = side_quote c t"
          using False a(4,5,7) t by (auto simp: lists q_def d)
        moreover have "quote_at c t" using q t by (simp add: quote_ok_def)
        ultimately show ?thesis using ne by - (rule quote_at_same [of c], simp_all add: book)
      qed (simp add: quote_at_def)
    qed
  qed
  moreover have "other_side_kept c c' s"
    by (simp add: other_side_kept_def lists) (simp add: c'_def)
  moreover have "level_put (side_list c' s) xs p (level_of s (set xs) p)"
    using a(4,5,6,8) vs by (auto simp: level_put_def lists intro!: exI [of _ i])
  ultimately show ?thesis
    using run book objs unfolding d by (intro exI [of _ c']) simp
qed

text \<open>An update writes through the pointer in the cache, which belongs to one price.\<close>

lemma l2_book_write:
  assumes ok: "levels_ok c" and e: "l2_get c p = Some e" and get: "l2_get c' = l2_get c"
    and os: "objs c' = (objs c)[e := (objs c ! e)\<lparr>ord_Size := sz\<rparr>]"
  shows "l2_book c' = (l2_book c)(p \<mapsto> (objs c ! e)\<lparr>ord_Size := sz\<rparr>)"
proof (rule ext)
  fix x
  have pe: "e < length (objs c)" "ord_Price (objs c ! e) = p" using ok e by (auto simp: levels_ok_def)
  show "l2_book c' x = ((l2_book c)(p \<mapsto> (objs c ! e)\<lparr>ord_Size := sz\<rparr>)) x"
  proof (cases "l2_get c x")
    case (Some r)
    then have px: "ord_Price (objs c ! r) = x" using ok by (auto simp: levels_ok_def)
    show ?thesis
    proof (cases "x = p")
      case True
      then have "r = e" using e Some by simp
      then show ?thesis using True Some pe(1) by (simp add: l2_book_def get os)
    next
      case False
      then have "r \<noteq> e" using pe(2) px by metis
      then show ?thesis using False Some by (simp add: l2_book_def get os)
    qed
  qed (use e in \<open>auto simp: l2_book_def get\<close>)
qed

lemma handleUpdate_ok:
  assumes ok: "book_ok c" and r: "r < length (objs c)" "o' = objs c ! r"
    and side: "valid_side (ord_Side o')"
    and there: "l2_book c (ord_Price o') = Some x" "ord_Side x = ord_Side o'"
  shows "\<exists>c'. handleUpdate c (Some r) =
        Ret (c', int (level_of (ord_Side o') (set (side_list c (ord_Side o'))) (ord_Price o')), None)
    \<and> book_ok c' \<and> l2_book c' = (l2_book c)(ord_Price o' \<mapsto> x\<lparr>ord_Size := ord_Size o'\<rparr>)
    \<and> other_side_kept c c' (ord_Side o') \<and> l2_get c' = l2_get c
    \<and> (\<forall>k. l2_get c (ord_Price o') \<noteq> Some k \<longrightarrow> objs c' ! k = objs c ! k)
    \<and> side_list c' (ord_Side o') = side_list c (ord_Side o')
    \<and> (quote_ok c \<longrightarrow> quote_ok c')"
proof -
  define s p xs where d: "s = ord_Side o'" "p = ord_Price o'" "xs = side_list c s"
  obtain m where m: "l2Cache c = Some m" "distinct (map fst m)" using ok by (auto simp: book_ok_def)
  have vs: "valid_side s" using side by (simp add: d)
  have srt: "sorted_wrt (better s) xs" and st: "set xs = book_prices (l2_book c) s"
    using book_ok_sorted [OF ok vs] book_ok_set [OF ok vs] by (auto simp: d)
  have p: "p \<in> set xs" using there unfolding st by (auto simp: d(1,2) book_prices_def)
  from side_search_level [OF vs srt p] obtain i where
    a: "side_search s xs p = int i" "i < length xs" "xs ! i = p" "length xs - i = level_of s (set xs) p"
    by blast
  from l2_book_objs [OF ok there(1)] obtain e where
    e: "l2_get c p = Some e" "e < length (objs c)" "x = objs c ! e"
    unfolding d by blast
  define q where "q = (if int (length xs) - int i = 1 then push_size (ord_Size o') (side_quote c s) else side_quote c s)"
  define c' where "c' = (side_set c s xs q)\<lparr>objs := (objs c)[e := x\<lparr>ord_Size := ord_Size o'\<rparr>]\<rparr>"
  have run: "handleUpdate c (Some r) = Ret (c', int (level_of s (set xs) p), None)"
    using handleUpdate_side [OF r side e(1,2) [unfolded d] a(1) [unfolded d] _ refl] a(2,4)
    by (simp add: c'_def q_def d e(3) of_nat_diff [symmetric] del: of_nat_diff)
  have get: "l2_get c' = l2_get c" by (rule ext) (simp add: c'_def l2_get_def)
  have book: "l2_book c' = (l2_book c)(p \<mapsto> x\<lparr>ord_Size := ord_Size o'\<rparr>)"
    using l2_book_write [OF book_okD(1) [OF ok] e(1) get] by (simp add: c'_def e(3))
  have lists: "side_list c' t = side_list c t"
    "side_quote c' t = (if t = s then q else side_quote c t)" if "valid_side t" for t
    using vs that by (auto simp add: c'_def side_set_list d)
  have prices: "book_prices (l2_book c') t = book_prices (l2_book c) t" for t
    using there by (auto simp: book book_prices_def d)
  have "book_ok c'"
  proof (rule book_okI_sides)
    show "l2Cache c' = Some m" by (simp add: c'_def m)
    show "levels_ok c'" using book_okD(1) [OF ok] e
      by (auto simp: levels_ok_def get) (auto simp: c'_def nth_list_update)
    show "sorted_wrt (better t) (side_list c' t)" if "valid_side t" for t
      using book_ok_sorted [OF ok that] by (simp add: lists that)
    show "set (side_list c' t) = book_prices (l2_book c') t" if "valid_side t" for t
      using book_ok_set [OF ok that] by (simp add: lists that prices)
  qed (simp add: m)
  moreover have "quote_ok c'" if q: "quote_ok c"
    unfolding quote_ok_def
  proof (intro allI impI)
    fix t assume t: "valid_side t"
    have old: "quote_at c t" using q t by (simp add: quote_ok_def)
    have dist: "distinct xs"
      by (rule price_order.sorted_distinct [OF price_side.axioms(1) [OF price_side_of [OF vs]] srt])
    have "(xs ! i = xs ! (length xs - 1)) \<longleftrightarrow> (i = length xs - 1)"
      by (rule nth_eq_iff_index_eq [OF dist a(2)]) (use a(2) in simp)
    moreover have "last xs = xs ! (length xs - 1)" using a(2) by (intro last_conv_nth) auto
    ultimately have at: "last xs = p \<longleftrightarrow> i = length xs - 1"
      unfolding a(3) by metis
    show "quote_at c' t"
    proof (cases "t = s \<and> i = length xs - 1")
      case True
      have l: "side_list c' s = xs" "last xs = p" using True at lists(1) [OF vs] by (simp_all add: d(3))
      have "int (length xs) - int i = 1" using True a(2) by (simp add: of_nat_diff)
      then have q': "side_quote c' s = push_size (ord_Size o') (side_quote c s)"
        using lists(2) [OF vs] by (simp add: q_def)
      have "bestPrice (side_quote c s) = p"
        using old True a(2) l(2) by (auto simp: quote_at_def d(3))
      then show ?thesis using True l q' by (simp add: quote_at_def push_size_def book)
    next
      case False
      have "last (side_list c t) \<noteq> p" if ne: "side_list c t \<noteq> []"
        using False at last_level [OF ok t ne] there by (force simp: d)
      moreover have "side_quote c' t = side_quote c t"
        using False a(2) t by (auto simp: lists q_def)
      ultimately show ?thesis using old by (auto simp: quote_at_def lists t book)
    qed
  qed
  moreover have "other_side_kept c c' s"
    by (simp add: other_side_kept_def lists) (simp add: c'_def m)
  moreover have "l2_get c p \<noteq> Some k \<longrightarrow> objs c' ! k = objs c ! k" for k
    using e(1) by (simp add: c'_def)
  ultimately show ?thesis
    using run book get lists(1) [OF vs] unfolding d by (intro exI [of _ c']) simp
qed

section \<open>Refused rows\<close>

lemma handleInsert_exists:
  assumes "r < length (objs c)" "l2_get c (ord_Price (objs c ! r)) = Some e" "e < length (objs c)"
  shows "handleInsert c (Some r) = Ret (c, 0, Some InsertExists)"
  using assms by (simp add: handleInsert_def load_Some)

lemma handleDelete_missing:
  assumes "r < length (objs c)" "l2_get c (ord_Price (objs c ! r)) = None"
  shows "handleDelete c (Some r) = Ret (c, 0, Some DeleteNotExist)"
  using assms by (simp add: handleDelete_def load_Some)

lemma handleUpdate_missing:
  assumes "r < length (objs c)" "l2_get c (ord_Price (objs c ! r)) = None"
  shows "handleUpdate c (Some r) = Ret (c, 0, Some UpdateNotExist)"
  using assms by (simp add: handleUpdate_def load_Some)

section \<open>The abstract book\<close>

text \<open>
  The contract of the three handlers. \<open>row_effect\<close> is what a row of a message does to a book
  that is just a map; \<open>row_ok\<close> says when the row fits the book. A reader of the published
  messages keeps its own book with the same \<open>row_effect\<close>.
\<close>

type_synonym book = "float64 \<Rightarrow> orderL2 option"

definition row_ok :: "string \<Rightarrow> book \<Rightarrow> orderL2 \<Rightarrow> bool" where
  "row_ok action b o' \<longleftrightarrow> valid_side (ord_Side o') \<and>
     (if action = InsertAction then b (ord_Price o') = None
      else (case b (ord_Price o') of
              None \<Rightarrow> False
            | Some x \<Rightarrow> ord_Side x = ord_Side o'
                \<and> (action = DeleteAction \<longrightarrow> book_prices b (ord_Side o') \<noteq> {ord_Price o'})))"

definition row_effect :: "string \<Rightarrow> orderL2 \<Rightarrow> book \<Rightarrow> book" where
  "row_effect action o' b =
     (if action = DeleteAction then b(ord_Price o' := None)
      else if action = InsertAction then b(ord_Price o' \<mapsto> o')
      else (case b (ord_Price o') of None \<Rightarrow> b | Some x \<Rightarrow> b(ord_Price o' \<mapsto> x\<lparr>ord_Size := ord_Size o'\<rparr>)))"

fun rows_ok :: "string \<Rightarrow> book \<Rightarrow> orderL2 list \<Rightarrow> bool" where
  "rows_ok action b [] = True"
| "rows_ok action b (o' # rows) \<longleftrightarrow> row_ok action b o' \<and> rows_ok action (row_effect action o' b) rows"

definition handler :: "string \<Rightarrow> mbl \<Rightarrow> order_ref \<Rightarrow> (mbl \<times> int \<times> book_error option) go" where
  "handler action = (if action = DeleteAction then handleDelete
     else if action = InsertAction then handleInsert else handleUpdate)"

definition level :: "mbl \<Rightarrow> orderL2 \<Rightarrow> nat" where
  "level c o' = level_of (ord_Side o') (set (side_list c (ord_Side o'))) (ord_Price o')"

lemma actions_distinct [simp]:
  "DeleteAction \<noteq> InsertAction" "InsertAction \<noteq> DeleteAction" "UpdateAction \<noteq> DeleteAction"
  "DeleteAction \<noteq> UpdateAction" "UpdateAction \<noteq> InsertAction" "InsertAction \<noteq> UpdateAction"
  "PartialAction \<noteq> DeleteAction" "PartialAction \<noteq> InsertAction" "PartialAction \<noteq> UpdateAction"
  "DeleteAction \<noteq> PartialAction" "InsertAction \<noteq> PartialAction" "UpdateAction \<noteq> PartialAction"
  by (simp_all add: action_defs)

text \<open>Objects the cache does not hold are left alone.\<close>

definition uncached_kept :: "mbl \<Rightarrow> mbl \<Rightarrow> bool" where
  "uncached_kept c c' \<longleftrightarrow> (\<forall>k. (\<forall>p. l2_get c p \<noteq> Some k) \<longrightarrow> objs c' ! k = objs c ! k)"

lemma handler_ok:
  assumes ok: "book_ok c" and r: "r < length (objs c)"
    and row: "row_ok action (l2_book c) (objs c ! r)"
  shows "\<exists>c'. handler action c (Some r) = Ret (c', int (level c (objs c ! r)), None)
    \<and> book_ok c' \<and> l2_book c' = row_effect action (objs c ! r) (l2_book c)
    \<and> other_side_kept c c' (ord_Side (objs c ! r)) \<and> uncached_kept c c'
    \<and> (action \<noteq> UpdateAction \<and> (action = InsertAction \<or> action = DeleteAction) \<longrightarrow> objs c' = objs c)
    \<and> (action = InsertAction \<longrightarrow> level_put (side_list c (ord_Side (objs c ! r)))
         (side_list c' (ord_Side (objs c ! r))) (ord_Price (objs c ! r)) (level c (objs c ! r)))
    \<and> (action = DeleteAction \<longrightarrow> level_put (side_list c' (ord_Side (objs c ! r)))
         (side_list c (ord_Side (objs c ! r))) (ord_Price (objs c ! r)) (level c (objs c ! r)))
    \<and> (action \<noteq> InsertAction \<and> action \<noteq> DeleteAction \<longrightarrow> l2_get c' = l2_get c
         \<and> side_list c' (ord_Side (objs c ! r)) = side_list c (ord_Side (objs c ! r)))
    \<and> (quote_ok c \<longrightarrow> quote_ok c')"
proof -
  let ?o = "objs c ! r"
  have vs: "valid_side (ord_Side ?o)" using row by (simp add: row_ok_def)
  consider (ins) "action = InsertAction" | (del) "action = DeleteAction"
    | (upd) "action \<noteq> InsertAction" "action \<noteq> DeleteAction" by blast
  then show ?thesis
  proof cases
    case ins
    then have "l2_book c (ord_Price ?o) = None" using row by (simp add: row_ok_def)
    from handleInsert_ok [OF ok r refl vs this] obtain c' where
      "handleInsert c (Some r) = Ret (c', int (level c ?o), None)" "book_ok c'"
      "l2_book c' = (l2_book c)(ord_Price ?o \<mapsto> ?o)" "objs c' = objs c"
      "other_side_kept c c' (ord_Side ?o)"
      "level_put (side_list c (ord_Side ?o)) (side_list c' (ord_Side ?o)) (ord_Price ?o) (level c ?o)"
      "quote_ok c \<longrightarrow> quote_ok c'"
      unfolding level_def by blast
    then show ?thesis
      using ins by (intro exI [of _ c']) (simp add: handler_def row_effect_def uncached_kept_def)
  next
    case del
    then obtain x where x: "l2_book c (ord_Price ?o) = Some x" "ord_Side x = ord_Side ?o"
      "book_prices (l2_book c) (ord_Side ?o) \<noteq> {ord_Price ?o}"
      using row by (auto simp: row_ok_def split: option.splits)
    have "side_list c (ord_Side ?o) \<noteq> [ord_Price ?o]"
    proof
      assume "side_list c (ord_Side ?o) = [ord_Price ?o]"
      then have "set (side_list c (ord_Side ?o)) = {ord_Price ?o}" by simp
      with x(3) book_ok_set [OF ok vs] show False by simp
    qed
    from handleDelete_ok [OF ok r refl vs x(1,2) this] obtain c' where
      "handleDelete c (Some r) = Ret (c', int (level c ?o), None)" "book_ok c'"
      "l2_book c' = (l2_book c)(ord_Price ?o := None)" "objs c' = objs c"
      "other_side_kept c c' (ord_Side ?o)"
      "level_put (side_list c' (ord_Side ?o)) (side_list c (ord_Side ?o)) (ord_Price ?o) (level c ?o)"
      "quote_ok c \<longrightarrow> quote_ok c'"
      unfolding level_def by blast
    then show ?thesis
      using del by (intro exI [of _ c']) (simp add: handler_def row_effect_def uncached_kept_def)
  next
    case upd
    then obtain x where x: "l2_book c (ord_Price ?o) = Some x" "ord_Side x = ord_Side ?o"
      using row by (auto simp: row_ok_def split: option.splits)
    from handleUpdate_ok [OF ok r refl vs x] obtain c' where
      "handleUpdate c (Some r) = Ret (c', int (level c ?o), None)" "book_ok c'"
      "l2_book c' = (l2_book c)(ord_Price ?o \<mapsto> x\<lparr>ord_Size := ord_Size ?o\<rparr>)"
      "other_side_kept c c' (ord_Side ?o)" "l2_get c' = l2_get c"
      "\<And>k. l2_get c (ord_Price ?o) \<noteq> Some k \<Longrightarrow> objs c' ! k = objs c ! k"
      "side_list c' (ord_Side ?o) = side_list c (ord_Side ?o)" "quote_ok c \<longrightarrow> quote_ok c'"
      unfolding level_def by blast
    then show ?thesis
      using upd x by (intro exI [of _ c']) (simp add: handler_def row_effect_def uncached_kept_def)
  qed
qed

end
