(* ===== verification/GoSets.thy ===== *)
theory GoSets
  imports Prelude
begin

text \<open>
  \<open>utils/set.go\<close>, \<open>utils/set_float.go\<close> and \<open>utils/set_string.go\<close>: the \<open>Set\<close> interface and
  its two implementations. A \<open>map[T]exist\<close> carries no values, so it is the list of its keys,
  without duplicates; only \<open>Values\<close> shows an order, which the language leaves open and the
  model takes as the argument \<open>rng\<close>. The two source files are the same text at two types,
  and so are their models.

  The interface promises union, intersection, difference and subset. \<open>Add\<close>, \<open>Sub\<close> and
  \<open>Contain\<close> keep the promise; \<open>Join\<close> deletes from its copy only keys that are not in it
  and returns its receiver unchanged.
\<close>

section \<open>Maps without values\<close>

definition map_put :: "'a \<Rightarrow> 'a list \<Rightarrow> 'a list" where
  "map_put k m = (if k \<in> set m then m else m @ [k])"

definition map_del :: "'a \<Rightarrow> 'a list \<Rightarrow> 'a list" where
  "map_del k m = filter (\<lambda>x. x \<noteq> k) m"

text \<open>A value of the \<open>Set\<close> interface: the dynamic type and the map inside.\<close>

datatype go_set = Float64SetV "float64 list" | StringSetV "string list"

definition Set_Len :: "go_set \<Rightarrow> int" where
  "Set_Len b = (case b of Float64SetV m \<Rightarrow> int (length m) | StringSetV m \<Rightarrow> int (length m))"

section \<open>Sets of prices\<close>

definition float64Set_Append :: "float64 list \<Rightarrow> float64 list \<Rightarrow> float64 list" where
  "float64Set_Append values elements = fold map_put elements values"

definition float64Set_Values :: "(float64 list \<Rightarrow> float64 list) \<Rightarrow> float64 list \<Rightarrow> float64 list" where
  "float64Set_Values rng values = rng values"

definition float64Set_Exist :: "float64 list \<Rightarrow> float64 \<Rightarrow> bool" where
  "float64Set_Exist values v = (v \<in> set values)"

definition float64Set_Len :: "float64 list \<Rightarrow> int" where
  "float64Set_Len values = int (length values)"

definition float64Set_copy :: "float64 list \<Rightarrow> float64 list" where
  "float64Set_copy values = float64Set_Append [] values"

definition checkFloat64Set :: "go_set \<Rightarrow> float64 list option go" where
  "checkFloat64Set b =
     (if Set_Len b < 1 then Ret None
      else (case b of
        Float64SetV m \<Rightarrow> Ret (Some m)
      | _ \<Rightarrow> Panic (LogPanic ''invalid type for StringSet'')))"

definition float64Set_Add :: "float64 list \<Rightarrow> go_set \<Rightarrow> float64 list go" where
  "float64Set_Add values b =
     go_bind (checkFloat64Set b) (\<lambda>other. Ret (case other of
         None \<Rightarrow> float64Set_copy values
       | Some m \<Rightarrow> fold map_put m (float64Set_copy values)))"

definition float64Set_Join :: "float64 list \<Rightarrow> go_set \<Rightarrow> float64 list go" where
  "float64Set_Join values b =
     go_bind (checkFloat64Set b) (\<lambda>other. Ret (case other of
         None \<Rightarrow> float64Set_copy values
       | Some m \<Rightarrow>
           fold (\<lambda>k new. if \<not> float64Set_Exist values k then map_del k new else new) m
             (float64Set_copy values)))"

definition float64Set_Sub :: "float64 list \<Rightarrow> go_set \<Rightarrow> float64 list go" where
  "float64Set_Sub values b =
     go_bind (checkFloat64Set b) (\<lambda>other. Ret (case other of
         None \<Rightarrow> float64Set_copy values
       | Some m \<Rightarrow>
           fold (\<lambda>k new. if float64Set_Exist values k then map_del k new else new) m
             (float64Set_copy values)))"

fun float64Set_Contain_loop :: "float64 list \<Rightarrow> float64 list \<Rightarrow> bool" where
  "float64Set_Contain_loop values [] = True"
| "float64Set_Contain_loop values (k # ks) =
     (if \<not> float64Set_Exist values k then False else float64Set_Contain_loop values ks)"

definition float64Set_Contain :: "float64 list \<Rightarrow> go_set \<Rightarrow> bool go" where
  "float64Set_Contain values b =
     go_bind (checkFloat64Set b) (\<lambda>other. Ret (case other of
         None \<Rightarrow> True
       | Some m \<Rightarrow> float64Set_Contain_loop values m))"

definition NewFloat64Set :: "float64 list option \<Rightarrow> float64 list" where
  "NewFloat64Set ele = (case ele of None \<Rightarrow> [] | Some es \<Rightarrow> float64Set_Append [] es)"

section \<open>Sets of strings\<close>

definition stringSet_Append :: "string list \<Rightarrow> string list \<Rightarrow> string list" where
  "stringSet_Append values elements = fold map_put elements values"

definition stringSet_Values :: "(string list \<Rightarrow> string list) \<Rightarrow> string list \<Rightarrow> string list" where
  "stringSet_Values rng values = rng values"

definition stringSet_Exist :: "string list \<Rightarrow> string \<Rightarrow> bool" where
  "stringSet_Exist values v = (v \<in> set values)"

definition stringSet_Len :: "string list \<Rightarrow> int" where
  "stringSet_Len values = int (length values)"

definition stringSet_copy :: "string list \<Rightarrow> string list" where
  "stringSet_copy values = stringSet_Append [] values"

definition checkStringSet :: "go_set \<Rightarrow> string list option go" where
  "checkStringSet b =
     (if Set_Len b < 1 then Ret None
      else (case b of
        StringSetV m \<Rightarrow> Ret (Some m)
      | _ \<Rightarrow> Panic (LogPanic ''invalid type for StringSet'')))"

definition stringSet_Add :: "string list \<Rightarrow> go_set \<Rightarrow> string list go" where
  "stringSet_Add values b =
     go_bind (checkStringSet b) (\<lambda>other. Ret (case other of
         None \<Rightarrow> stringSet_copy values
       | Some m \<Rightarrow> fold map_put m (stringSet_copy values)))"

definition stringSet_Join :: "string list \<Rightarrow> go_set \<Rightarrow> string list go" where
  "stringSet_Join values b =
     go_bind (checkStringSet b) (\<lambda>other. Ret (case other of
         None \<Rightarrow> stringSet_copy values
       | Some m \<Rightarrow>
           fold (\<lambda>k new. if \<not> stringSet_Exist values k then map_del k new else new) m
             (stringSet_copy values)))"

definition stringSet_Sub :: "string list \<Rightarrow> go_set \<Rightarrow> string list go" where
  "stringSet_Sub values b =
     go_bind (checkStringSet b) (\<lambda>other. Ret (case other of
         None \<Rightarrow> stringSet_copy values
       | Some m \<Rightarrow>
           fold (\<lambda>k new. if stringSet_Exist values k then map_del k new else new) m
             (stringSet_copy values)))"

fun stringSet_Contain_loop :: "string list \<Rightarrow> string list \<Rightarrow> bool" where
  "stringSet_Contain_loop values [] = True"
| "stringSet_Contain_loop values (k # ks) =
     (if \<not> stringSet_Exist values k then False else stringSet_Contain_loop values ks)"

definition stringSet_Contain :: "string list \<Rightarrow> go_set \<Rightarrow> bool go" where
  "stringSet_Contain values b =
     go_bind (checkStringSet b) (\<lambda>other. Ret (case other of
         None \<Rightarrow> True
       | Some m \<Rightarrow> stringSet_Contain_loop values m))"

definition NewStringSet :: "string list option \<Rightarrow> string list" where
  "NewStringSet ele = (case ele of None \<Rightarrow> [] | Some es \<Rightarrow> stringSet_Append [] es)"

section \<open>Facts on the loops\<close>

lemma set_put_all: "set (fold map_put ks m) = set m \<union> set ks"
  by (induction ks arbitrary: m) (auto simp: map_put_def)

lemma distinct_put_all: "distinct m \<Longrightarrow> distinct (fold map_put ks m)"
  by (induction ks arbitrary: m) (auto simp: map_put_def)

lemma set_del_if: "set (fold (\<lambda>k new. if P k then map_del k new else new) ks m) = set m - {k \<in> set ks. P k}"
  by (induction ks arbitrary: m) (auto simp: map_del_def)

lemma distinct_del_if:
  "distinct m \<Longrightarrow> distinct (fold (\<lambda>k new. if P k then map_del k new else new) ks m)"
  by (induction ks arbitrary: m) (auto simp: map_del_def)

section \<open>The interface\<close>

text \<open>
  What the callers of a \<open>Set\<close> rely on: the results are sets again, \<open>Add\<close> is the union,
  \<open>Sub\<close> the difference and \<open>Contain\<close> the subset test, for two sets of one dynamic type.
  \<open>wrap\<close> is the conversion to the interface.
\<close>

locale set_iface =
  fixes wrap :: "'a list \<Rightarrow> go_set"
    and copy_set :: "'a list \<Rightarrow> 'a list"
    and add :: "'a list \<Rightarrow> go_set \<Rightarrow> 'a list go"
    and sub :: "'a list \<Rightarrow> go_set \<Rightarrow> 'a list go"
    and contain :: "'a list \<Rightarrow> go_set \<Rightarrow> bool go"
  assumes copy_ok: "set (copy_set a) = set a \<and> distinct (copy_set a)"
    and add_ok: "\<exists>c. add a (wrap b) = Ret c \<and> distinct c \<and> set c = set a \<union> set b"
    and sub_ok: "\<exists>c. sub a (wrap b) = Ret c \<and> distinct c \<and> set c = set a - set b"
    and contain_ok: "contain a (wrap b) = Ret (set b \<subseteq> set a)"
begin

text \<open>Old and new keys split into what was dropped, what is new and what stays.\<close>

lemma sub_both_ways:
  obtains gone fresh where "sub old (wrap new) = Ret gone" and "sub new (wrap old) = Ret fresh"
    and "distinct gone" and "distinct fresh"
    and "set gone = set old - set new" and "set fresh = set new - set old"
  using sub_ok by meson

lemma sub_then_contain: "sub a (wrap b) = Ret c \<Longrightarrow> contain c (wrap b) = Ret (b = [])"
  using sub_ok [of a b] contain_ok [of c b] by (cases b) auto

lemma add_contains: "add a (wrap b) = Ret c \<Longrightarrow> contain c (wrap b) = Ret True"
  using add_ok [of a b] contain_ok [of c b] by auto

end

lemma float64Set_copy_ok: "set (float64Set_copy a) = set a \<and> distinct (float64Set_copy a)"
  by (simp add: float64Set_copy_def float64Set_Append_def set_put_all distinct_put_all)

lemma checkFloat64Set_same: "checkFloat64Set (Float64SetV b) = Ret (if b = [] then None else Some b)"
  by (simp add: checkFloat64Set_def Set_Len_def Suc_le_eq)

lemma float64Set_Contain_loop_subset: "float64Set_Contain_loop a ks \<longleftrightarrow> set ks \<subseteq> set a"
  by (induction ks) (auto simp: float64Set_Exist_def)

lemma float64Set_Add_ok: "\<exists>c. float64Set_Add a (Float64SetV b) = Ret c \<and> distinct c \<and> set c = set a \<union> set b"
  using float64Set_copy_ok [of a]
  by (auto simp: float64Set_Add_def checkFloat64Set_same set_put_all distinct_put_all)

lemma float64Set_Sub_ok: "\<exists>c. float64Set_Sub a (Float64SetV b) = Ret c \<and> distinct c \<and> set c = set a - set b"
  using float64Set_copy_ok [of a]
  by (auto simp: float64Set_Sub_def checkFloat64Set_same set_del_if distinct_del_if float64Set_Exist_def)

lemma float64Set_Join_receiver: "\<exists>c. float64Set_Join a (Float64SetV b) = Ret c \<and> distinct c \<and> set c = set a"
  using float64Set_copy_ok [of a]
  by (auto simp: float64Set_Join_def checkFloat64Set_same set_del_if distinct_del_if float64Set_Exist_def)

interpretation fset: set_iface Float64SetV float64Set_copy float64Set_Add float64Set_Sub float64Set_Contain
  by unfold_locales
    (auto simp: float64Set_copy_ok float64Set_Add_ok float64Set_Sub_ok float64Set_Contain_def checkFloat64Set_same
      float64Set_Contain_loop_subset)

lemma NewFloat64Set_set: "set (NewFloat64Set e) = (case e of None \<Rightarrow> {} | Some es \<Rightarrow> set es)"
  by (simp add: NewFloat64Set_def float64Set_Append_def set_put_all split: option.split)

lemma NewFloat64Set_distinct: "distinct (NewFloat64Set e)"
  by (simp add: NewFloat64Set_def float64Set_Append_def distinct_put_all split: option.split)

lemma stringSet_copy_ok: "set (stringSet_copy a) = set a \<and> distinct (stringSet_copy a)"
  by (simp add: stringSet_copy_def stringSet_Append_def set_put_all distinct_put_all)

lemma checkStringSet_same: "checkStringSet (StringSetV b) = Ret (if b = [] then None else Some b)"
  by (simp add: checkStringSet_def Set_Len_def Suc_le_eq)

lemma stringSet_Contain_loop_subset: "stringSet_Contain_loop a ks \<longleftrightarrow> set ks \<subseteq> set a"
  by (induction ks) (auto simp: stringSet_Exist_def)

lemma stringSet_Add_ok: "\<exists>c. stringSet_Add a (StringSetV b) = Ret c \<and> distinct c \<and> set c = set a \<union> set b"
  using stringSet_copy_ok [of a]
  by (auto simp: stringSet_Add_def checkStringSet_same set_put_all distinct_put_all)

lemma stringSet_Sub_ok: "\<exists>c. stringSet_Sub a (StringSetV b) = Ret c \<and> distinct c \<and> set c = set a - set b"
  using stringSet_copy_ok [of a]
  by (auto simp: stringSet_Sub_def checkStringSet_same set_del_if distinct_del_if stringSet_Exist_def)

lemma stringSet_Join_receiver: "\<exists>c. stringSet_Join a (StringSetV b) = Ret c \<and> distinct c \<and> set c = set a"
  using stringSet_copy_ok [of a]
  by (auto simp: stringSet_Join_def checkStringSet_same set_del_if distinct_del_if stringSet_Exist_def)

interpretation sset: set_iface StringSetV stringSet_copy stringSet_Add stringSet_Sub stringSet_Contain
  by unfold_locales
    (auto simp: stringSet_copy_ok stringSet_Add_ok stringSet_Sub_ok stringSet_Contain_def checkStringSet_same
      stringSet_Contain_loop_subset)

lemma NewStringSet_set: "set (NewStringSet e) = (case e of None \<Rightarrow> {} | Some es \<Rightarrow> set es)"
  by (simp add: NewStringSet_def stringSet_Append_def set_put_all split: option.split)

lemma NewStringSet_distinct: "distinct (NewStringSet e)"
  by (simp add: NewStringSet_def stringSet_Append_def distinct_put_all split: option.split)

end
