(* ===== verification/Channels.thy ===== *)
theory Channels
  imports Messages
begin

text \<open>
  \<open>utils/channel.go\<close>: the message channel \<open>rspChannel\<close>. A channel has a queue of inputs
  (\<open>source\<close>), the destinations that receive its messages and the child channels they are
  passed on to. Every operation of the API puts an input into the queue; one goroutine
  takes them out one by one. A breakpoint input is a closure; the four closures the code
  makes are the constructors \<open>Register\<close>, \<open>Shutdown\<close>, \<open>Attach\<close> and \<open>Detach\<close>.

  Channels and the Go channels of the destinations are shared by pointer, so they live in a
  store, the \<open>world\<close>, and are named by numbers. A Go channel is a \<open>stream\<close>: what was sent
  to it so far, and whether it is closed. The queue is not bounded in the model: a send to
  a full queue waits until there is room, and the model takes it when it succeeds. A send
  to a nil queue waits for ever (\<open>Blocked\<close>).

  The session ids (version 4 UUIDs) and the addresses of new Go channels are arguments.
  Time appears in one place: \<open>room r\<close> says that the stream \<open>r\<close> has or gets buffer space
  before the write timer fires (or, when the timer is not armed, ever).
\<close>

section \<open>State\<close>

datatype 'm channel_input =
    Register string nat
  | Shutdown string
  | Attach string nat
  | Detach string
  | DataIn string string 'm

record 'm stream =
  sent :: "'m list"
  closed :: bool

record 'm rspChannel =
  source :: "'m channel_input list option"
  sourceClosed :: bool
  destinations :: "(string, nat option) gomap"
  childChannels :: "(string, nat) gomap"
  IsReady :: bool
  IsClosed :: bool

record 'm world =
  chans :: "nat \<Rightarrow> 'm rspChannel"
  streams :: "nat \<Rightarrow> 'm stream"

text \<open>The composite literal of the cache constructors.\<close>

definition newRspChannel :: "'m rspChannel" where
  "newRspChannel = \<lparr>source = None, sourceClosed = False, destinations = [], childChannels = [],
     IsReady = False, IsClosed = False\<rparr>"

definition put_chan :: "nat \<Rightarrow> 'm rspChannel \<Rightarrow> 'm world \<Rightarrow> 'm world" where
  "put_chan n c w = w\<lparr>chans := (chans w)(n := c)\<rparr>"

lemma put_chan_same [simp]: "put_chan n (chans w n) w = w"
  by (simp add: put_chan_def)

definition errClosed :: error where "errClosed = ''channel is already closed''"

definition IsBreakpoint :: "'m channel_input \<Rightarrow> bool" where
  "IsBreakpoint i = (case i of DataIn _ _ _ \<Rightarrow> False | _ \<Rightarrow> True)"

definition NewChannelInput :: "'m \<Rightarrow> 'm channel_input" where
  "NewChannelInput rsp = DataIn [] [] rsp"

section \<open>Operations of the API\<close>

text \<open>\<open>c.source <- input\<close>\<close>

definition send_source :: "'m channel_input \<Rightarrow> 'm rspChannel \<Rightarrow> 'm rspChannel go" where
  "send_source i c =
     (case source c of
        None \<Rightarrow> Blocked
      | Some q \<Rightarrow> if sourceClosed c then Panic SendOnClosed else Ret (c\<lparr>source := Some (q @ [i])\<rparr>))"

definition PublishData :: "'m \<Rightarrow> 'm rspChannel \<Rightarrow> ('m rspChannel \<times> error option) go" where
  "PublishData data c =
     (if IsClosed c then Ret (c, Some errClosed)
      else go_bind (send_source (DataIn [] [] data) c) (\<lambda>c'. Ret (c', None)))"

definition PublishDataToDestination :: "'m \<Rightarrow> string \<Rightarrow> 'm rspChannel \<Rightarrow> ('m rspChannel \<times> error option) go" where
  "PublishDataToDestination data session c =
     (if IsClosed c then Ret (c, Some errClosed)
      else go_bind (send_source (DataIn session [] data) c) (\<lambda>c'. Ret (c', None)))"

definition PublishDataToSubChan :: "'m \<Rightarrow> string \<Rightarrow> 'm rspChannel \<Rightarrow> ('m rspChannel \<times> error option) go" where
  "PublishDataToSubChan data session c =
     (if IsClosed c then Ret (c, Some errClosed)
      else go_bind (send_source (DataIn [] session data) c) (\<lambda>c'. Ret (c', None)))"

text \<open>\<open>RetriveData\<close> returns the session and the new Go channel, nil on a closed channel.\<close>

definition RetriveData :: "string \<Rightarrow> nat \<Rightarrow> 'm rspChannel \<Rightarrow> ('m rspChannel \<times> string \<times> nat option) go" where
  "RetriveData session r c =
     (if IsClosed c then Ret (c, [], None)
      else go_bind (send_source (Register session r) c) (\<lambda>c'. Ret (c', session, Some r)))"

text \<open>
  \<open>ShutdownRetrive\<close> and \<open>Disconnect\<close> put their closure into the queue and wait for its
  answer: the result says whether there is an answer to wait for. The answer itself is the
  reply of \<open>handle_input\<close> below.
\<close>

definition ShutdownRetrive :: "string \<Rightarrow> 'm rspChannel \<Rightarrow> ('m rspChannel \<times> bool) go" where
  "ShutdownRetrive session c =
     (if IsClosed c then Ret (c, False)
      else go_bind (send_source (Shutdown session) c) (\<lambda>c'. Ret (c', True)))"

definition Disconnect :: "string \<Rightarrow> 'm rspChannel \<Rightarrow> ('m rspChannel \<times> bool) go" where
  "Disconnect session c =
     (if IsClosed c then Ret (c, False)
      else go_bind (send_source (Detach session) c) (\<lambda>c'. Ret (c', True)))"

definition Start :: "'m rspChannel \<Rightarrow> 'm rspChannel \<times> error option" where
  "Start c =
     (if IsReady c then (c, Some ''channel is already started'')
      else if IsClosed c then (c, Some errClosed)
      else
        (let c1 = (if source c = None then c\<lparr>source := Some []\<rparr> else c);
             c2 = c1\<lparr>IsClosed := False\<rparr>
         in (c2\<lparr>IsReady := True\<rparr>, None)))"

definition Connect :: "string \<Rightarrow> nat \<Rightarrow> 'm rspChannel \<Rightarrow> ('m rspChannel \<times> string \<times> error option) go" where
  "Connect session child c =
     (if IsClosed c then Ret (c, [], Some errClosed)
      else
        (let c1 = (if \<not> IsReady c then fst (Start c) else c)
         in go_bind (send_source (Attach session child) c1) (\<lambda>c2. Ret (c2, session, None))))"

text \<open>Closing a Go channel: a second close and a close of nil are run-time panics.\<close>

definition close_stream :: "nat option \<Rightarrow> (nat \<Rightarrow> 'm stream) \<Rightarrow> (nat \<Rightarrow> 'm stream) go" where
  "close_stream d st =
     (case d of
        None \<Rightarrow> Panic CloseOfNil
      | Some r \<Rightarrow> if closed (st r) then Panic CloseOfClosed else Ret (st(r := (st r)\<lparr>closed := True\<rparr>)))"

definition Close :: "nat \<Rightarrow> 'm world \<Rightarrow> ('m world \<times> error option) go" where
  "Close n w =
     (let c = chans w n in
      if \<not> IsReady c then Ret (w, Some ''channel is not started'')
      else if IsClosed c then Ret (w, Some errClosed)
      else
        (case source c of
           None \<Rightarrow> Panic CloseOfNil
         | Some q \<Rightarrow>
             if sourceClosed c then Panic CloseOfClosed
             else
               (let c' = c\<lparr>IsReady := False, sourceClosed := True, IsClosed := True\<rparr>
                in go_bind (go_fold (\<lambda>st d. close_stream (snd d) st) (streams w) (destinations c))
                     (\<lambda>st. Ret (put_chan n c' w\<lparr>streams := st\<rparr>, None)))))"

section \<open>Dispatch\<close>

text \<open>
  The closure \<open>handleInput\<close> of \<open>dispatchDistinations\<close>, for one destination. The state of
  the loop: the streams, whether the write timer is armed, and the sessions to delete. A
  successful send resets the timer. When the timer fires, its channel is drained, and the
  new timer is assigned to the parameter of the closure only: the loop goes on with the
  drained one.
\<close>

record 'm dispatch =
  d_streams :: "nat \<Rightarrow> 'm stream"
  d_armed :: bool
  d_invalid :: "string list"

definition handle_dest :: "(nat \<Rightarrow> bool) \<Rightarrow> 'm \<Rightarrow> 'm dispatch \<Rightarrow> string \<times> nat option \<Rightarrow> 'm dispatch go" where
  "handle_dest room msg s sd =
     (case sd of (session, dest) \<Rightarrow>
        case dest of
          None \<Rightarrow> Ret (s\<lparr>d_invalid := d_invalid s @ [session]\<rparr>)
        | Some r \<Rightarrow>
            if closed (d_streams s r) then Panic SendOnClosed
            else if room r then
              Ret (s\<lparr>d_streams := (d_streams s)(r := (d_streams s r)\<lparr>sent := sent (d_streams s r) @ [msg]\<rparr>),
                     d_armed := True\<rparr>)
            else if d_armed s then
              go_bind (close_stream (Some r) (d_streams s)) (\<lambda>st.
                Ret (s\<lparr>d_streams := st, d_invalid := d_invalid s @ [session], d_armed := False\<rparr>))
            else Blocked)"

definition dispatchDistinations ::
  "(nat \<Rightarrow> bool) \<Rightarrow> string \<Rightarrow> 'm \<Rightarrow> nat \<Rightarrow> 'm world \<Rightarrow> 'm world go" where
  "dispatchDistinations room dstSession msg n w =
     (let c = chans w n;
          s0 = \<lparr>d_streams = streams w, d_armed = True, d_invalid = []\<rparr>;
          run = (if dstSession = [] then go_fold (handle_dest room msg) s0 (destinations c)
                 else (case map_of (destinations c) dstSession of
                         Some dst \<Rightarrow> handle_dest room msg s0 (dstSession, dst)
                       | None \<Rightarrow> Ret s0))
      in go_bind run (\<lambda>s.
           Ret (put_chan n (c\<lparr>destinations := fold AList.delete (d_invalid s) (destinations c)\<rparr>)
                  (w\<lparr>streams := d_streams s\<rparr>))))"

text \<open>The closure \<open>handleInput\<close> of \<open>dispatchSubChannels\<close>: a child that refuses the message is
  closed and dropped.\<close>

definition handle_sub :: "'m \<Rightarrow> 'm world \<times> string list \<Rightarrow> string \<times> nat \<Rightarrow> ('m world \<times> string list) go" where
  "handle_sub msg s ss =
     (case s of (w, invalid) \<Rightarrow> case ss of (session, sub) \<Rightarrow>
        go_bind (PublishData msg (chans w sub)) (\<lambda>(c', err).
          case err of
            None \<Rightarrow> Ret (put_chan sub c' w, invalid)
          | Some _ \<Rightarrow> go_bind (Close sub w) (\<lambda>(w', _). Ret (w', invalid @ [session]))))"

definition dispatchSubChannels :: "string \<Rightarrow> 'm \<Rightarrow> nat \<Rightarrow> 'm world \<Rightarrow> 'm world go" where
  "dispatchSubChannels subChanSession msg n w =
     (let c = chans w n;
          run = (if subChanSession = [] then go_fold (handle_sub msg) (w, []) (childChannels c)
                 else (case map_of (childChannels c) subChanSession of
                         Some sub \<Rightarrow> handle_sub msg (w, []) (subChanSession, sub)
                       | None \<Rightarrow> Ret (w, [])))
      in go_bind run (\<lambda>(w', invalid).
           let c' = chans w' n
           in Ret (put_chan n (c'\<lparr>childChannels := fold AList.delete invalid (childChannels c')\<rparr>) w')))"

text \<open>What the goroutine does with one input. The reply is the value a waiting
  \<open>ShutdownRetrive\<close> or \<open>Disconnect\<close> receives.\<close>

definition handle_input ::
  "(nat \<Rightarrow> bool) \<Rightarrow> nat \<Rightarrow> 'm channel_input \<Rightarrow> 'm world \<Rightarrow> ('m world \<times> error option option) go" where
  "handle_input room n i w =
     (let c = chans w n in
      case i of
        Register session r \<Rightarrow>
          Ret (put_chan n (c\<lparr>destinations := AList.update session (Some r) (destinations c)\<rparr>) w, None)
      | Shutdown session \<Rightarrow>
          (case map_of (destinations c) session of
             Some dst \<Rightarrow>
               go_bind (close_stream dst (streams w)) (\<lambda>st.
                 Ret (put_chan n (c\<lparr>destinations := AList.delete session (destinations c)\<rparr>)
                        (w\<lparr>streams := st\<rparr>), Some None))
           | None \<Rightarrow> Ret (w, Some (Some (''destination session['' @ session @ ''] not exists''))))
      | Attach session child \<Rightarrow>
          Ret (put_chan n (c\<lparr>childChannels := AList.update session child (childChannels c)\<rparr>) w, None)
      | Detach session \<Rightarrow>
          (case map_of (childChannels c) session of
             Some _ \<Rightarrow>
               Ret (put_chan n (c\<lparr>childChannels := AList.delete session (childChannels c)\<rparr>) w, Some None)
           | None \<Rightarrow> Ret (w, Some (Some (''invalid sub channel session['' @ session @ '']''))))
      | DataIn dstSession subChanSession msg \<Rightarrow>
          go_bind (dispatchDistinations room dstSession msg n w) (\<lambda>w1.
            go_bind (dispatchSubChannels subChanSession msg n w1) (\<lambda>w2. Ret (w2, None))))"

text \<open>
  One turn of the goroutine of \<open>Start\<close>: it takes the next input, or, when the queue is
  closed and empty, returns through its deferred \<open>Close\<close>. With nothing to do it waits.
\<close>

datatype 'm turn = Turn "'m world" "error option option" | Exit "'m world"

definition loop_turn :: "(nat \<Rightarrow> bool) \<Rightarrow> nat \<Rightarrow> 'm world \<Rightarrow> 'm turn go" where
  "loop_turn room n w =
     (case source (chans w n) of
        None \<Rightarrow> Blocked
      | Some [] \<Rightarrow>
          if sourceClosed (chans w n) then go_bind (Close n w) (\<lambda>(w', _). Ret (Exit w')) else Blocked
      | Some (i # q) \<Rightarrow>
          go_bind (handle_input room n i (put_chan n ((chans w n)\<lparr>source := Some q\<rparr>) w))
            (\<lambda>(w', reply). Ret (Turn w' reply)))"

text \<open>\<open>ctx.Done()\<close> is ready: the goroutine returns through its deferred \<open>Close\<close>.\<close>

definition loop_cancel :: "nat \<Rightarrow> 'm world \<Rightarrow> 'm turn go" where
  "loop_cancel n w = go_bind (Close n w) (\<lambda>(w', _). Ret (Exit w'))"

section \<open>Life cycle\<close>

text \<open>A channel is new, open or done; the two flags, the queue and its close go together.\<close>

definition chan_new :: "'m rspChannel \<Rightarrow> bool" where
  "chan_new c \<longleftrightarrow> \<not> IsReady c \<and> \<not> IsClosed c \<and> source c = None \<and> \<not> sourceClosed c"

definition chan_open :: "'m rspChannel \<Rightarrow> bool" where
  "chan_open c \<longleftrightarrow> IsReady c \<and> \<not> IsClosed c \<and> source c \<noteq> None \<and> \<not> sourceClosed c"

definition chan_done :: "'m rspChannel \<Rightarrow> bool" where
  "chan_done c \<longleftrightarrow> \<not> IsReady c \<and> IsClosed c \<and> source c \<noteq> None \<and> sourceClosed c"

definition chan_wf :: "'m rspChannel \<Rightarrow> bool" where
  "chan_wf c \<longleftrightarrow> chan_new c \<or> chan_open c \<or> chan_done c"

lemmas chan_phase_defs = chan_wf_def chan_new_def chan_open_def chan_done_def

lemma chan_wf_new [intro, simp]: "chan_wf newRspChannel"
  by (simp add: chan_phase_defs newRspChannel_def)

lemma Start_wf: "chan_wf c \<Longrightarrow> chan_wf (fst (Start c))"
  by (auto simp: chan_phase_defs Start_def Let_def)

lemma Start_new: "chan_new c \<Longrightarrow> Start c = (c\<lparr>source := Some [], IsReady := True\<rparr>, None)"
  by (auto simp: chan_new_def Start_def)

lemma Start_open_after: "chan_new c \<Longrightarrow> chan_open (fst (Start c))"
  by (auto simp: chan_phase_defs Start_def)

lemma Start_refused: "chan_wf c \<Longrightarrow> \<not> chan_new c \<Longrightarrow> \<exists>e. Start c = (c, Some e)"
  by (auto simp: chan_phase_defs Start_def)

text \<open>A publish is refused on a done channel, waits for ever on a new one and is queued last
  on an open one.\<close>

lemma send_open: "chan_open c \<Longrightarrow> send_source i c = Ret (c\<lparr>source := Some (the (source c) @ [i])\<rparr>)"
  by (auto simp: chan_open_def send_source_def)

lemma PublishData_open [chan_simps]:
  "chan_open c \<Longrightarrow> PublishData m c = Ret (c\<lparr>source := Some (the (source c) @ [DataIn [] [] m])\<rparr>, None)"
  by (simp add: PublishData_def send_open) (simp add: chan_open_def)

lemma PublishData_done [chan_simps]: "chan_done c \<Longrightarrow> PublishData m c = Ret (c, Some errClosed)"
  by (simp add: PublishData_def chan_done_def)

lemma PublishData_new [chan_simps]: "chan_new c \<Longrightarrow> PublishData m c = Blocked"
  by (simp add: PublishData_def chan_new_def send_source_def)

lemma chan_open_queue [chan_simps]: "chan_open c \<Longrightarrow> chan_open (c\<lparr>source := Some q\<rparr>)"
  by (simp add: chan_open_def)

section \<open>The store\<close>

text \<open>The destinations of a channel and the ones registered in its queue.\<close>

fun pending :: "'m channel_input list \<Rightarrow> (string, nat option) gomap" where
  "pending [] = []"
| "pending (Register s r # q) = (s, Some r) # pending q"
| "pending (_ # q) = pending q"

definition all_dests :: "'m rspChannel \<Rightarrow> (string, nat option) gomap" where
  "all_dests c = destinations c @ (case source c of None \<Rightarrow> [] | Some q \<Rightarrow> pending q)"

definition refs_of :: "(string, nat option) gomap \<Rightarrow> nat set" where
  "refs_of ds = {r. Some r \<in> snd ` set ds}"

definition chan_refs :: "'m rspChannel \<Rightarrow> nat set" where
  "chan_refs c = refs_of (all_dests c)"

text \<open>
  The invariant of the store: every channel is in one of its phases, its sessions are
  distinct, every destination is a real Go channel that belongs to one session of one
  channel, and the destinations of a channel that is not done are not closed.
\<close>

definition dests_ok :: "(string, nat option) gomap \<Rightarrow> bool" where
  "dests_ok ds \<longleftrightarrow> distinct (map fst ds) \<and> (\<forall>d\<in>set ds. snd d \<noteq> None) \<and> distinct (map snd ds)"

definition chan_ok :: "'m world \<Rightarrow> nat \<Rightarrow> bool" where
  "chan_ok w n \<longleftrightarrow> chan_wf (chans w n) \<and> dests_ok (all_dests (chans w n))
     \<and> (\<not> IsClosed (chans w n) \<longrightarrow> (\<forall>r\<in>chan_refs (chans w n). \<not> closed (streams w r)))"

definition world_ok :: "'m world \<Rightarrow> bool" where
  "world_ok w \<longleftrightarrow> (\<forall>n. chan_ok w n)
     \<and> (\<forall>n m. n \<noteq> m \<longrightarrow> chan_refs (chans w n) \<inter> chan_refs (chans w m) = {})"

text \<open>Dispatch to a list of destinations: it stalls at a stuck destination exactly when the
  timer has fired before and no send has reset it since.\<close>

fun stall_free :: "(nat \<Rightarrow> bool) \<Rightarrow> bool \<Rightarrow> (string, nat option) gomap \<Rightarrow> bool" where
  "stall_free room armed [] = True"
| "stall_free room armed ((s, None) # ds) = stall_free room armed ds"
| "stall_free room armed ((s, Some r) # ds) =
     (if room r then stall_free room True ds else armed \<and> stall_free room False ds)"

definition stuck :: "(nat \<Rightarrow> bool) \<Rightarrow> (string, nat option) gomap \<Rightarrow> string list" where
  "stuck room ds = map fst (filter (\<lambda>d. case snd d of None \<Rightarrow> True | Some r \<Rightarrow> \<not> room r) ds)"

definition deliver ::
  "(nat \<Rightarrow> bool) \<Rightarrow> 'm \<Rightarrow> (string, nat option) gomap \<Rightarrow> (nat \<Rightarrow> 'm stream) \<Rightarrow> nat \<Rightarrow> 'm stream" where
  "deliver room msg ds st r =
     (if r \<in> refs_of ds
      then (if room r then (st r)\<lparr>sent := sent (st r) @ [msg]\<rparr> else (st r)\<lparr>closed := True\<rparr>)
      else st r)"

lemma deliver_Cons:
  assumes "r \<notin> refs_of ds"
  shows "deliver room msg ((s, Some r) # ds) st =
    deliver room msg ds (st(r := if room r then (st r)\<lparr>sent := sent (st r) @ [msg]\<rparr>
                                  else (st r)\<lparr>closed := True\<rparr>))"
  using assms by (auto simp: deliver_def fun_eq_iff refs_of_def)

lemma dispatch_fold:
  assumes "dests_ok ds" and "\<And>r. r \<in> refs_of ds \<Longrightarrow> \<not> closed (d_streams s r)"
  shows "if stall_free room (d_armed s) ds
    then \<exists>a. go_fold (handle_dest room msg) s ds =
      Ret \<lparr>d_streams = deliver room msg ds (d_streams s), d_armed = a,
           d_invalid = d_invalid s @ stuck room ds\<rparr>
    else go_fold (handle_dest room msg) s ds = Blocked"
  using assms
proof (induction ds arbitrary: s)
  case Nil
  have "deliver room msg [] (d_streams s) = d_streams s" by (simp add: deliver_def fun_eq_iff refs_of_def)
  then show ?case by (auto simp: stuck_def intro!: exI [of _ "d_armed s"])
next
  case (Cons d ds)
  obtain x r where d: "d = (x, Some r)" using Cons.prems(1) by (cases d) (auto simp: dests_ok_def)
  have ds: "dests_ok ds" and fresh: "r \<notin> refs_of ds"
    using Cons.prems(1) by (auto simp: dests_ok_def d image_iff refs_of_def)
  have opn: "\<not> closed (d_streams s r)" using Cons.prems(2) by (simp add: d refs_of_def)
  let ?sent = "s\<lparr>d_streams := (d_streams s)(r := (d_streams s r)\<lparr>sent := sent (d_streams s r) @ [msg]\<rparr>), d_armed := True\<rparr>"
  let ?cut = "s\<lparr>d_streams := (d_streams s)(r := (d_streams s r)\<lparr>closed := True\<rparr>),
    d_invalid := d_invalid s @ [x], d_armed := False\<rparr>"
  have other: "\<not> closed (d_streams t q)"
    if "q \<in> refs_of ds" "t = ?sent \<or> t = ?cut" for q t
  proof -
    have "q \<noteq> r" using that(1) fresh by auto
    moreover have "\<not> closed (d_streams s q)" using that(1) Cons.prems(2) [of q] by (auto simp: d refs_of_def)
    ultimately show ?thesis using that(2) by auto
  qed
  consider (send) "room r" | (cut) "\<not> room r" "d_armed s" | (stall) "\<not> room r" "\<not> d_armed s" by blast
  then show ?case
  proof cases
    case send
    define t where "t = ?sent"
    have "go_fold (handle_dest room msg) s (d # ds) = go_fold (handle_dest room msg) t ds"
      using send opn by (simp add: d handle_dest_def t_def)
    moreover have "deliver room msg ds (d_streams t) = deliver room msg (d # ds) (d_streams s)"
      using send fresh by (simp add: d deliver_Cons t_def)
    moreover have "stuck room (d # ds) = stuck room ds" using send by (simp add: d stuck_def)
    moreover have "d_armed t" "d_invalid t = d_invalid s" by (simp_all add: t_def)
    moreover have "\<not> closed (d_streams t q)" if "q \<in> refs_of ds" for q
      using that by (rule other) (simp add: t_def)
    ultimately show ?thesis using Cons.IH [OF ds, of t] send d by (simp split: if_splits)
  next
    case cut
    define t where "t = ?cut"
    have "go_fold (handle_dest room msg) s (d # ds) = go_fold (handle_dest room msg) t ds"
      using cut opn by (simp add: d handle_dest_def close_stream_def t_def)
    moreover have "deliver room msg ds (d_streams t) = deliver room msg (d # ds) (d_streams s)"
      using cut fresh by (simp add: d deliver_Cons t_def)
    moreover have "stuck room (d # ds) = x # stuck room ds" using cut by (simp add: d stuck_def)
    moreover have "\<not> d_armed t" "d_invalid t = d_invalid s @ [x]" by (simp_all add: t_def)
    moreover have "\<not> closed (d_streams t q)" if "q \<in> refs_of ds" for q
      using that by (rule other) (simp add: t_def)
    ultimately show ?thesis using Cons.IH [OF ds, of t] cut d by (simp split: if_splits)
  next
    case stall
    then show ?thesis using opn by (simp add: d handle_dest_def)
  qed
qed

lemma stall_free_room: "(\<And>r. r \<in> refs_of ds \<Longrightarrow> room r) \<Longrightarrow> stall_free room a ds"
  by (induction room a ds rule: stall_free.induct) (auto simp: refs_of_def)

lemma stuck_room: "dests_ok ds \<Longrightarrow> (\<And>r. r \<in> refs_of ds \<Longrightarrow> room r) \<Longrightarrow> stuck room ds = []"
  by (force simp: stuck_def dests_ok_def filter_empty_conv refs_of_def split: option.splits)

text \<open>The destinations a message is for.\<close>

definition targets :: "string \<Rightarrow> (string, nat option) gomap \<Rightarrow> (string, nat option) gomap" where
  "targets dst ds =
     (if dst = [] then ds else (case map_of ds dst of Some d \<Rightarrow> [(dst, d)] | None \<Rightarrow> []))"

lemma targets_subset: "set (targets dst ds) \<subseteq> set ds"
proof (cases "map_of ds dst")
  case (Some d)
  then have "(dst, d) \<in> set ds" by (rule map_of_SomeD)
  then show ?thesis using Some by (simp add: targets_def)
qed (simp add: targets_def)

lemma refs_of_targets: "refs_of (targets dst ds) \<subseteq> refs_of ds"
  using targets_subset [of dst ds] by (auto simp: refs_of_def)

lemma dests_ok_targets: "dests_ok ds \<Longrightarrow> dests_ok (targets dst ds)"
  using targets_subset [of dst ds]
  by (auto simp: dests_ok_def targets_def split: option.splits)

lemma dests_ok_appendD: "dests_ok (xs @ ys) \<Longrightarrow> dests_ok xs"
  by (auto simp: dests_ok_def)

lemma fold_delete: "fold AList.delete ks ds = filter (\<lambda>d. fst d \<notin> set ks) ds"
  by (induction ks arbitrary: ds) (auto simp: AList.delete_eq split_beta intro!: filter_cong)

lemma dispatchDistinations_spec:
  assumes "dests_ok (destinations (chans w n))"
    and "\<And>r. r \<in> refs_of (destinations (chans w n)) \<Longrightarrow> \<not> closed (streams w r)"
  shows "dispatchDistinations room dst msg n w =
    (let c = chans w n; T = targets dst (destinations c) in
     if stall_free room True T
     then Ret (put_chan n (c\<lparr>destinations := filter (\<lambda>d. fst d \<notin> set (stuck room T)) (destinations c)\<rparr>)
                 (w\<lparr>streams := deliver room msg T (streams w)\<rparr>))
     else Blocked)"
proof -
  let ?c = "chans w n"
  let ?T = "targets dst (destinations ?c)"
  let ?s0 = "\<lparr>d_streams = streams w, d_armed = True, d_invalid = []\<rparr>"
  have run: "(if dst = [] then go_fold (handle_dest room msg) ?s0 (destinations ?c)
      else (case map_of (destinations ?c) dst of
              Some d \<Rightarrow> handle_dest room msg ?s0 (dst, d) | None \<Rightarrow> Ret ?s0))
    = go_fold (handle_dest room msg) ?s0 ?T"
  proof -
    have single: "go_bind m Ret = m" for m :: "'a dispatch go" by (cases m) auto
    show ?thesis by (auto simp: targets_def single split: option.split)
  qed
  have ok: "dests_ok ?T" using assms(1) by (rule dests_ok_targets)
  have "\<not> closed (d_streams ?s0 r)" if "r \<in> refs_of ?T" for r
    using that assms(2) refs_of_targets by auto
  from dispatch_fold [OF ok this, of room msg] show ?thesis
    unfolding dispatchDistinations_def Let_def run by (auto simp: fold_delete split: if_splits)
qed

text \<open>The plain case: every destination takes the message.\<close>

lemma dispatch_all_room:
  assumes "dests_ok (destinations (chans w n))"
    and "\<And>r. r \<in> refs_of (destinations (chans w n)) \<Longrightarrow> \<not> closed (streams w r) \<and> room r"
  shows "dispatchDistinations room dst msg n w =
    Ret (put_chan n (chans w n)
          (w\<lparr>streams := deliver room msg (targets dst (destinations (chans w n))) (streams w)\<rparr>))"
proof -
  let ?T = "targets dst (destinations (chans w n))"
  have "room r" if "r \<in> refs_of ?T" for r using that assms(2) refs_of_targets by auto
  then have "stall_free room True ?T" "stuck room ?T = []"
    using stall_free_room stuck_room [OF dests_ok_targets [OF assms(1)]] by blast+
  then show ?thesis using assms by (subst dispatchDistinations_spec) (auto simp: Let_def)
qed

section \<open>Children\<close>

lemma Close_done: "chan_done (chans w n) \<Longrightarrow> Close n w = Ret (w, Some ''channel is not started'')"
  by (simp add: Close_def chan_done_def Let_def)

text \<open>A child that is open gets the message into its queue; a done one is dropped; one that was
  never started blocks the parent for ever.\<close>

lemma handle_sub_cases:
  assumes "chan_wf (chans w sub)"
  shows "handle_sub msg (w, bad) (s, sub) =
    (if chan_new (chans w sub) then Blocked
     else if chan_open (chans w sub)
     then Ret (put_chan sub ((chans w sub)\<lparr>source := Some (the (source (chans w sub)) @ [DataIn [] [] msg])\<rparr>) w, bad)
     else Ret (w, bad @ [s]))"
proof -
  from assms consider "chan_new (chans w sub)" | "chan_open (chans w sub)" | "chan_done (chans w sub)"
    by (auto simp: chan_wf_def)
  then show ?thesis
  proof cases
    case 2
    then have "\<not> chan_new (chans w sub)" by (auto simp: chan_phase_defs)
    with 2 show ?thesis by (simp add: handle_sub_def chan_simps)
  next
    case 3
    then have "\<not> chan_new (chans w sub)" "\<not> chan_open (chans w sub)" by (auto simp: chan_phase_defs)
    with 3 show ?thesis by (simp add: handle_sub_def chan_simps Close_done)
  qed (simp add: handle_sub_def chan_simps)
qed

text \<open>Appending data to queues, as the children get it, keeps everything the invariant says.\<close>

definition queue_ext :: "'m rspChannel \<Rightarrow> 'm rspChannel \<Rightarrow> bool" where
  "queue_ext c c' \<longleftrightarrow> c' = c \<or>
     (chan_open c \<and> (\<exists>ms. c' = c\<lparr>source := Some (the (source c) @ map (DataIn [] []) ms)\<rparr>))"

lemma queue_ext_trans: "queue_ext a b \<Longrightarrow> queue_ext b c \<Longrightarrow> queue_ext a c"
  unfolding queue_ext_def by (auto simp flip: map_append)

lemma pending_append: "pending (xs @ ys) = pending xs @ pending ys"
  by (induction xs rule: pending.induct) auto

lemma pending_data: "pending (map (DataIn a b) ms) = []"
  by (induction ms) auto

lemma queue_ext_keeps:
  assumes "queue_ext c c'"
  shows "all_dests c' = all_dests c" "IsClosed c' = IsClosed c" "chan_wf c \<Longrightarrow> chan_wf c'"
    "destinations c' = destinations c" "childChannels c' = childChannels c" "chan_open c \<Longrightarrow> chan_open c'"
    "chan_new c' = chan_new c" "chan_done c' = chan_done c"
  using assms
  by (auto simp: queue_ext_def all_dests_def pending_append pending_data chan_phase_defs)

definition queued_more :: "'m world \<Rightarrow> 'm world \<Rightarrow> bool" where
  "queued_more w w' \<longleftrightarrow> streams w' = streams w \<and> (\<forall>n. queue_ext (chans w n) (chans w' n))"

lemma queued_more_refl: "queued_more w w"
  by (simp add: queued_more_def queue_ext_def)

lemma queued_more_trans: "queued_more u v \<Longrightarrow> queued_more v w \<Longrightarrow> queued_more u w"
  by (auto simp: queued_more_def intro: queue_ext_trans)

lemma queued_more_ok: "queued_more w w' \<Longrightarrow> world_ok w \<Longrightarrow> world_ok w'"
proof -
  assume q: "queued_more w w'" and ok: "world_ok w"
  have e: "queue_ext (chans w n) (chans w' n)" for n using q by (simp add: queued_more_def)
  note keep = queue_ext_keeps [OF e]
  show "world_ok w'"
    using ok q keep(3) unfolding world_ok_def chan_ok_def chan_refs_def queued_more_def keep(1,2) by auto
qed

lemma handle_sub_queued:
  assumes "\<And>n. chan_wf (chans w n)"
  shows "handle_sub msg (w, bad) ss = Blocked
    \<or> (\<exists>w' bad'. handle_sub msg (w, bad) ss = Ret (w', bad') \<and> queued_more w w')"
proof -
  obtain s sub where ss: "ss = (s, sub)" by (cases ss)
  have "queued_more w (put_chan sub ((chans w sub)\<lparr>source := Some (the (source (chans w sub)) @ [DataIn [] [] msg])\<rparr>) w)"
    if "chan_open (chans w sub)"
    using that by (auto simp: queued_more_def queue_ext_def put_chan_def intro!: exI [of _ "[msg]"])
  then show ?thesis using handle_sub_cases [OF assms [of sub], of msg bad s] queued_more_refl
    by (auto simp: ss)
qed

lemma handle_sub_fold_queued:
  assumes "\<And>n. chan_wf (chans w n)"
  shows "go_fold (handle_sub msg) (w, bad) sss = Blocked
    \<or> (\<exists>w' bad'. go_fold (handle_sub msg) (w, bad) sss = Ret (w', bad') \<and> queued_more w w')"
  using assms
proof (induction sss arbitrary: w bad)
  case Nil
  then show ?case by (simp add: queued_more_refl)
next
  case (Cons ss sss)
  from handle_sub_queued [of w msg bad ss, OF Cons.prems] show ?case
  proof (elim disjE exE conjE)
    fix w' bad' assume r: "handle_sub msg (w, bad) ss = Ret (w', bad')" and q: "queued_more w w'"
    have "chan_wf (chans w' n)" for n
      using q Cons.prems [of n] queue_ext_keeps(3) by (auto simp: queued_more_def)
    from Cons.IH [OF this, of bad'] r show ?case using queued_more_trans [OF q] by auto
  qed simp
qed

text \<open>The whole of \<open>dispatchSubChannels\<close>: the streams stay, queues of open channels grow, and
  only the parent's own list of children may lose entries.\<close>

lemma dispatchSubChannels_cases:
  assumes "\<And>n. chan_wf (chans w n)"
  shows "dispatchSubChannels sub msg n w = Blocked
    \<or> (\<exists>w1 cs. queued_more w w1
        \<and> dispatchSubChannels sub msg n w = Ret (put_chan n ((chans w1 n)\<lparr>childChannels := cs\<rparr>) w1))"
proof -
  define run where "run = (if sub = [] then go_fold (handle_sub msg) (w, []) (childChannels (chans w n))
     else (case map_of (childChannels (chans w n)) sub of
             Some s \<Rightarrow> handle_sub msg (w, []) (sub, s) | None \<Rightarrow> Ret (w, [])))"
  have "run = Blocked \<or> (\<exists>w' bad. run = Ret (w', bad) \<and> queued_more w w')"
    using handle_sub_fold_queued [OF assms, of msg "[]" "childChannels (chans w n)"]
      handle_sub_queued [OF assms, of msg "[]"] queued_more_refl
    by (auto simp: run_def split: option.split)
  then show ?thesis
    unfolding dispatchSubChannels_def Let_def run_def [symmetric] by fastforce
qed

section \<open>Safety of the goroutine\<close>

lemma world_okI_update:
  assumes ok: "world_ok w" and n: "chan_ok w' n"
    and others: "\<And>m. m \<noteq> n \<Longrightarrow> chans w' m = chans w m"
    and refs: "chan_refs (chans w' n) \<subseteq> chan_refs (chans w n)"
    and str: "\<And>r. r \<notin> chan_refs (chans w n) \<Longrightarrow> streams w' r = streams w r"
  shows "world_ok w'"
proof -
  have dis: "chan_refs (chans w a) \<inter> chan_refs (chans w b) = {}" if "a \<noteq> b" for a b
    using ok that by (auto simp: world_ok_def)
  have "chan_ok w' m" for m
  proof (cases "m = n")
    case False
    then have "chan_ok w m" using ok by (simp add: world_ok_def)
    moreover have "streams w' r = streams w r" if "r \<in> chan_refs (chans w m)" for r
      using str dis [OF False] that by blast
    ultimately show ?thesis using others [OF False] by (simp add: chan_ok_def)
  qed (use n in simp)
  moreover have "chan_refs (chans w' a) \<subseteq> chan_refs (chans w a)" for a
    using refs others by (cases "a = n") auto
  then have "chan_refs (chans w' a) \<inter> chan_refs (chans w' b) = {}" if "a \<noteq> b" for a b
    using dis [OF that] by blast
  ultimately show ?thesis by (simp add: world_ok_def)
qed

lemma dests_ok_sub:
  "dests_ok (xs @ ys) \<Longrightarrow> dests_ok (filter P xs @ ys)"
  by (auto simp: dests_ok_def distinct_map_filter)

lemma dests_ok_disjoint: "dests_ok (xs @ ys) \<Longrightarrow> refs_of xs \<inter> refs_of ys = {}"
  by (auto simp: dests_ok_def refs_of_def)

lemma refs_of_append: "refs_of (xs @ ys) = refs_of xs \<union> refs_of ys"
  by (auto simp: refs_of_def)

lemma deliver_closed:
  "\<not> closed (st r) \<Longrightarrow> closed (deliver room msg T st r) \<longleftrightarrow> r \<in> refs_of T \<and> \<not> room r"
  by (simp add: deliver_def)

lemma stuck_refs:
  assumes "dests_ok ds" and "r \<in> refs_of (targets dst ds)" and "\<not> room r"
    and "(s, Some r) \<in> set ds"
  shows "s \<in> set (stuck room (targets dst ds))"
proof -
  obtain s' where s': "(s', Some r) \<in> set (targets dst ds)"
    using assms(2) by (auto simp: refs_of_def)
  then have "(s', Some r) \<in> set ds" using targets_subset [of dst ds] by blast
  with assms(1,4) have "s' = s"
    unfolding dests_ok_def distinct_map inj_on_def by (metis fst_conv snd_conv)
  with s' assms(3) show ?thesis by (force simp: stuck_def)
qed

text \<open>One message: the goroutine never panics on a channel that is open, and keeps the
  invariant, whoever is stuck.\<close>

lemma dispatch_safe:
  assumes ok: "world_ok w" and opn: "chan_open (chans w n)"
  shows "dispatchDistinations room dst msg n w = Blocked
    \<or> (\<exists>w'. dispatchDistinations room dst msg n w = Ret w' \<and> world_ok w' \<and> chan_open (chans w' n))"
proof (cases "dispatchDistinations room dst msg n w = Blocked")
  case False
  let ?c = "chans w n"
  let ?T = "targets dst (destinations ?c)"
  let ?c' = "?c\<lparr>destinations := filter (\<lambda>d. fst d \<notin> set (stuck room ?T)) (destinations ?c)\<rparr>"
  let ?w' = "put_chan n ?c' (w\<lparr>streams := deliver room msg ?T (streams w)\<rparr>)"
  let ?p = "case source ?c of None \<Rightarrow> [] | Some q \<Rightarrow> pending q"
  have cok: "chan_ok w n" using ok by (simp add: world_ok_def)
  have all: "dests_ok (destinations ?c @ ?p)" using cok by (simp add: chan_ok_def all_dests_def)
  have opens: "\<not> closed (streams w r)" if "r \<in> refs_of (destinations ?c @ ?p)" for r
    using cok opn that by (simp add: chan_ok_def chan_refs_def all_dests_def chan_open_def)
  have dd: "dests_ok (destinations ?c)" using all by (rule dests_ok_appendD)
  have opens': "\<And>r. r \<in> refs_of (destinations ?c) \<Longrightarrow> \<not> closed (streams w r)"
    using opens by (simp add: refs_of_append)
  have spec: "dispatchDistinations room dst msg n w = (if stall_free room True ?T then Ret ?w' else Blocked)"
    using dispatchDistinations_spec [OF dd opens', where room = room and dst = dst and msg = msg]
    by (simp add: Let_def)
  from False have eq: "dispatchDistinations room dst msg n w = Ret ?w'"
    unfolding spec by (simp split: if_splits)
  have dests': "all_dests ?c' = filter (\<lambda>d. fst d \<notin> set (stuck room ?T)) (destinations ?c) @ ?p"
    by (simp add: all_dests_def)
  have "\<not> closed (deliver room msg ?T (streams w) r)" if "r \<in> refs_of (all_dests ?c')" for r
  proof -
    have "r \<in> refs_of (destinations ?c @ ?p)" using that by (auto simp: dests' refs_of_def)
    then have "\<not> closed (streams w r)" by (rule opens)
    moreover have "\<not> (r \<in> refs_of ?T \<and> \<not> room r)"
    proof
      assume r: "r \<in> refs_of ?T \<and> \<not> room r"
      then have "r \<notin> refs_of ?p" using dests_ok_disjoint [OF all] refs_of_targets by blast
      with that obtain s where "(s, Some r) \<in> set (destinations ?c)" "s \<notin> set (stuck room ?T)"
        by (auto simp: dests' refs_of_def)
      with stuck_refs [OF dd] r show False by blast
    qed
    ultimately show ?thesis by (simp add: deliver_closed)
  qed
  then have "chan_ok ?w' n"
    using cok opn dests_ok_sub [OF all]
    by (auto simp: chan_ok_def put_chan_def chan_refs_def dests') (auto simp: chan_phase_defs)
  moreover have "world_ok ?w'"
  proof (rule world_okI_update [OF ok, of ?w' n])
    show "chan_ok ?w' n" by fact
    show "chan_refs (chans ?w' n) \<subseteq> chan_refs ?c"
      by (auto simp: put_chan_def chan_refs_def dests' refs_of_def all_dests_def)
    show "streams ?w' r = streams w r" if "r \<notin> chan_refs ?c" for r
      using that refs_of_targets [of dst "destinations ?c"]
      by (auto simp: put_chan_def deliver_def chan_refs_def all_dests_def refs_of_append)
  qed (simp add: put_chan_def)
  moreover have "chan_open (chans ?w' n)" using opn by (simp add: put_chan_def chan_open_def)
  ultimately show ?thesis using eq by blast
qed simp

lemma world_ok_put:
  assumes ok: "world_ok w" and "chan_wf c'" and "IsClosed c' = IsClosed (chans w n)"
    and "all_dests c' = all_dests (chans w n)"
  shows "world_ok (put_chan n c' w)"
proof (rule world_okI_update [OF ok, of _ n])
  have "chan_ok w n" using ok by (simp add: world_ok_def)
  then show "chan_ok (put_chan n c' w) n"
    using assms(2-4) by (simp add: chan_ok_def put_chan_def chan_refs_def)
qed (use assms(4) in \<open>auto simp: put_chan_def chan_refs_def\<close>)

lemma update_fresh: "k \<notin> fst ` set m \<Longrightarrow> AList.update k v m = m @ [(k, v)]"
  by (induction m) auto

lemma chan_ok_open:
  assumes "chan_ok w n" and "chan_open (chans w n)" and "source (chans w n) = Some q"
  shows "dests_ok (destinations (chans w n) @ pending q)"
    and "r \<in> refs_of (destinations (chans w n)) \<Longrightarrow> \<not> closed (streams w r)"
  using assms by (auto simp: chan_ok_def all_dests_def chan_refs_def refs_of_append chan_open_def)

text \<open>The breakpoint of \<open>ShutdownRetrive\<close> closes a Go channel that is still open.\<close>

lemma shutdown_safe:
  assumes ok: "world_ok w" and opn: "chan_open (chans w n)"
    and d: "map_of (destinations (chans w n)) s = Some dst"
  shows "\<exists>r. dst = Some r \<and> \<not> closed (streams w r)
    \<and> world_ok (put_chan n ((chans w n)\<lparr>destinations := AList.delete s (destinations (chans w n))\<rparr>)
                  (w\<lparr>streams := (streams w)(r := (streams w r)\<lparr>closed := True\<rparr>)\<rparr>))"
proof -
  let ?c = "chans w n"
  obtain q where q: "source ?c = Some q" using opn by (auto simp: chan_open_def)
  have cok: "chan_ok w n" using ok by (simp add: world_ok_def)
  note dok = chan_ok_open [OF cok opn q]
  have mem: "(s, dst) \<in> set (destinations ?c)" using d by (rule map_of_SomeD)
  moreover have "\<forall>d\<in>set (destinations ?c). snd d \<noteq> None" using dok(1) by (simp add: dests_ok_def)
  ultimately obtain r where r: "dst = Some r" by force
  have rr: "r \<in> refs_of (destinations ?c)" using mem r by (force simp: refs_of_def)
  let ?c' = "?c\<lparr>destinations := AList.delete s (destinations ?c)\<rparr>"
  let ?w' = "put_chan n ?c' (w\<lparr>streams := (streams w)(r := (streams w r)\<lparr>closed := True\<rparr>)\<rparr>)"
  have dests': "all_dests ?c' = filter (\<lambda>d. fst d \<noteq> s) (destinations ?c) @ pending q"
    using q by (simp add: all_dests_def fold_delete [of "[s]", simplified])
  have gone: "r \<notin> refs_of (all_dests ?c')"
  proof
    assume "r \<in> refs_of (all_dests ?c')"
    moreover have "r \<notin> refs_of (pending q)" using dests_ok_disjoint [OF dok(1)] rr by blast
    ultimately obtain s' where s': "s' \<noteq> s" "(s', Some r) \<in> set (destinations ?c)"
      by (auto simp: dests' refs_of_append) (auto simp: refs_of_def)
    have "distinct (map snd (destinations ?c))" using dok(1) by (simp add: dests_ok_def)
    with s' mem r show False unfolding distinct_map inj_on_def by (metis fst_conv snd_conv)
  qed
  have sub: "chan_refs ?c' \<subseteq> chan_refs ?c"
    unfolding chan_refs_def dests' using q by (auto simp: refs_of_def all_dests_def)
  have "chan_ok ?w' n"
    using cok opn gone sub dests_ok_sub [OF dok(1)]
    by (auto simp: chan_ok_def put_chan_def chan_refs_def dests' chan_phase_defs)
  then have "world_ok ?w'"
  proof (rule world_okI_update [OF ok])
    show "chan_refs (chans ?w' n) \<subseteq> chan_refs ?c" using sub by (simp add: put_chan_def)
    show "streams ?w' x = streams w x" if "x \<notin> chan_refs ?c" for x
      using that rr by (auto simp: put_chan_def chan_refs_def all_dests_def refs_of_append)
  qed (simp add: put_chan_def)
  with r dok(2) [OF rr] show ?thesis by blast
qed

lemma loop_turn_safe:
  assumes ok: "world_ok w" and opn: "chan_open (chans w n)"
  shows "loop_turn room n w = Blocked
    \<or> (\<exists>w' rep. loop_turn room n w = Ret (Turn w' rep) \<and> world_ok w' \<and> chan_open (chans w' n))"
proof -
  let ?c = "chans w n"
  obtain q where q: "source ?c = Some q" using opn by (auto simp: chan_open_def)
  have cok: "chan_ok w n" using ok by (simp add: world_ok_def)
  show ?thesis
  proof (cases q)
    case Nil
    then show ?thesis using q opn by (simp add: loop_turn_def chan_open_def)
  next
    case (Cons i q')
    let ?cp = "?c\<lparr>source := Some q'\<rparr>"
    let ?wp = "put_chan n ?cp w"
    have turn: "loop_turn room n w = go_bind (handle_input room n i ?wp) (\<lambda>(w', rep). Ret (Turn w' rep))"
      using q Cons by (simp add: loop_turn_def)
    have c0: "chan_open ?cp" "chans ?wp n = ?cp" using opn by (simp_all add: put_chan_def chan_open_queue)
    have wf0: "chan_wf ?cp" using c0(1) by (simp add: chan_wf_def)
    show ?thesis
    proof (cases "\<exists>s r. i = Register s r")
      case True
      then obtain s r where i: "i = Register s r" by blast
      have fresh: "s \<notin> fst ` set (destinations ?c)"
        using cok q Cons i by (auto simp: chan_ok_def all_dests_def dests_ok_def)
      let ?cr = "?cp\<lparr>destinations := AList.update s (Some r) (destinations ?cp)\<rparr>"
      have "destinations ?cr = destinations ?c @ [(s, Some r)]" "source ?cr = Some q'"
        using update_fresh [OF fresh, of "Some r"] by simp_all
      moreover have src: "source ?c = Some (Register s r # q')" unfolding q Cons i by (rule refl)
      ultimately have "all_dests ?cr = all_dests ?c" unfolding all_dests_def by simp
      moreover have "chan_open ?cr" using c0(1) by (simp add: chan_open_def)
      ultimately have "world_ok (put_chan n ?cr w)"
        using world_ok_put [OF ok, of ?cr n] by (simp add: chan_wf_def)
      moreover have "put_chan n ?cr ?wp = put_chan n ?cr w" by (simp add: put_chan_def)
      ultimately show ?thesis using \<open>chan_open ?cr\<close>
        by (simp add: turn handle_input_def i c0(2) Let_def) (simp add: put_chan_def)
    next
      case False
      then have "all_dests ?cp = all_dests ?c"
        using q Cons by (cases i) (auto simp: all_dests_def)
      then have ok0: "world_ok ?wp" by (intro world_ok_put [OF ok wf0]) simp_all
      have opn0: "chan_open (chans ?wp n)" using c0 by simp
      show ?thesis
      proof (cases i)
        case (Shutdown s)
        show ?thesis
        proof (cases "map_of (destinations ?cp) s")
          case None
          then show ?thesis using ok0 opn0
            by (simp add: turn handle_input_def Shutdown c0(2) Let_def)
        next
          case (Some dst)
          obtain r where r: "dst = Some r" "\<not> closed (streams ?wp r)"
            and ok1: "world_ok (put_chan n (?cp\<lparr>destinations := AList.delete s (destinations ?cp)\<rparr>)
                  (?wp\<lparr>streams := (streams ?wp)(r := (streams ?wp r)\<lparr>closed := True\<rparr>)\<rparr>))"
            using shutdown_safe [OF ok0 opn0] Some c0(2) by auto
          show ?thesis using ok1 r Some c0
            by (simp add: turn handle_input_def Shutdown Let_def close_stream_def)
              (simp add: put_chan_def chan_open_def)
        qed
      next
        case (Attach s child)
        have "world_ok (put_chan n (?cp\<lparr>childChannels := AList.update s child (childChannels ?cp)\<rparr>) ?wp)"
          by (rule world_ok_put [OF ok0]) (use c0 wf0 in \<open>auto simp: all_dests_def chan_phase_defs\<close>)
        then show ?thesis using c0
          by (simp add: turn handle_input_def Attach Let_def) (simp add: put_chan_def chan_open_def)
      next
        case (Detach s)
        have "world_ok (put_chan n (?cp\<lparr>childChannels := AList.delete s (childChannels ?cp)\<rparr>) ?wp)"
          by (rule world_ok_put [OF ok0]) (use c0 wf0 in \<open>auto simp: all_dests_def chan_phase_defs\<close>)
        then show ?thesis using c0 ok0
          by (auto simp: turn handle_input_def Detach Let_def split: option.split)
            (simp_all add: put_chan_def chan_open_def)
      next
        case (DataIn dst sub msg)
        from dispatch_safe [OF ok0 opn0, of room dst msg] show ?thesis
        proof (elim disjE exE conjE)
          fix w1 assume d: "dispatchDistinations room dst msg n ?wp = Ret w1"
            and w1: "world_ok w1" "chan_open (chans w1 n)"
          have "chan_wf (chans w1 m)" for m using w1(1) by (simp add: world_ok_def chan_ok_def)
          from dispatchSubChannels_cases [OF this, of sub msg n] show ?thesis
          proof (elim disjE exE conjE)
            fix w2 cs assume qm: "queued_more w1 w2"
              and e: "dispatchSubChannels sub msg n w1 = Ret (put_chan n ((chans w2 n)\<lparr>childChannels := cs\<rparr>) w2)"
            have ok2: "world_ok w2" using queued_more_ok [OF qm w1(1)] .
            have "chan_open (chans w2 n)" using qm w1(2) queue_ext_keeps(6) by (auto simp: queued_more_def)
            then have o2: "chan_open ((chans w2 n)\<lparr>childChannels := cs\<rparr>)" by (simp add: chan_open_def)
            have "world_ok (put_chan n ((chans w2 n)\<lparr>childChannels := cs\<rparr>) w2)"
              by (rule world_ok_put [OF ok2]) (use o2 in \<open>auto simp: all_dests_def chan_wf_def\<close>)
            with o2 show ?thesis
              by (simp add: turn handle_input_def DataIn d e) (simp add: put_chan_def)
          qed (simp add: turn handle_input_def DataIn d)
        qed (simp add: turn handle_input_def DataIn)
      qed (use False in simp)
    qed
  qed
qed

section \<open>Reachable stores\<close>

text \<open>A session id and a Go channel nobody uses yet.\<close>

definition fresh_for :: "string \<Rightarrow> nat \<Rightarrow> nat \<Rightarrow> 'm world \<Rightarrow> bool" where
  "fresh_for session r n w \<longleftrightarrow> session \<notin> fst ` set (all_dests (chans w n))
     \<and> (\<forall>m. r \<notin> chan_refs (chans w m)) \<and> \<not> closed (streams w r)"

text \<open>
  The steps: calls of the API on any channel, with the arguments any caller may give, and
  turns of the goroutine of an open channel, with any behaviour of the consumers.
\<close>

inductive chan_step :: "'m world \<Rightarrow> 'm world \<Rightarrow> bool" where
  start: "chan_step w (put_chan n (fst (Start (chans w n))) w)"
| publish: "PublishData m (chans w n) = Ret (c, e) \<Longrightarrow> chan_step w (put_chan n c w)"
| publish_dest: "PublishDataToDestination m s (chans w n) = Ret (c, e) \<Longrightarrow> chan_step w (put_chan n c w)"
| publish_sub: "PublishDataToSubChan m s (chans w n) = Ret (c, e) \<Longrightarrow> chan_step w (put_chan n c w)"
| retrive: "fresh_for s r n w \<Longrightarrow> RetriveData s r (chans w n) = Ret (c, x) \<Longrightarrow> chan_step w (put_chan n c w)"
| shutdown: "ShutdownRetrive s (chans w n) = Ret (c, b) \<Longrightarrow> chan_step w (put_chan n c w)"
| connect: "Connect s child (chans w n) = Ret (c, x) \<Longrightarrow> chan_step w (put_chan n c w)"
| disconnect: "Disconnect s (chans w n) = Ret (c, b) \<Longrightarrow> chan_step w (put_chan n c w)"
| close: "Close n w = Ret (w', e) \<Longrightarrow> chan_step w w'"
| turn: "chan_open (chans w n) \<Longrightarrow> loop_turn room n w = Ret (Turn w' rep) \<Longrightarrow> chan_step w w'"

inductive reachable_world :: "'m world \<Rightarrow> bool" where
  init: "(\<And>n. chans w n = newRspChannel) \<Longrightarrow> reachable_world w"
| step: "reachable_world w \<Longrightarrow> chan_step w w' \<Longrightarrow> reachable_world w'"

lemma send_keeps_ok:
  assumes ok: "world_ok w" and s: "send_source i (chans w n) = Ret c" and nr: "pending [i] = []"
  shows "world_ok (put_chan n c w)"
proof -
  have wf: "chan_wf (chans w n)" using ok by (simp add: world_ok_def chan_ok_def)
  from s have "all_dests c = all_dests (chans w n)" "IsClosed c = IsClosed (chans w n)" "chan_wf c"
    using wf nr
    by (auto simp: send_source_def all_dests_def pending_append chan_phase_defs
        split: option.splits if_splits)
  with ok show ?thesis by (intro world_ok_put)
qed

lemma start_keeps_ok: "world_ok w \<Longrightarrow> world_ok (put_chan n (fst (Start (chans w n))) w)"
proof (rule world_ok_put)
  assume "world_ok w"
  then have wf: "chan_wf (chans w n)" by (simp add: world_ok_def chan_ok_def)
  then show "chan_wf (fst (Start (chans w n)))" by (rule Start_wf)
  show "all_dests (fst (Start (chans w n))) = all_dests (chans w n)"
    using wf by (auto simp: Start_def all_dests_def chan_phase_defs Let_def)
qed (auto simp: Start_def Let_def)

lemma register_keeps_ok:
  assumes ok: "world_ok w" and opn: "chan_open (chans w n)" and f: "fresh_for s r n w"
  shows "world_ok (put_chan n ((chans w n)\<lparr>source := Some (the (source (chans w n)) @ [Register s r])\<rparr>) w)"
    (is "world_ok ?w'")
proof -
  let ?c = "(chans w n)\<lparr>source := Some (the (source (chans w n)) @ [Register s r])\<rparr>"
  have cok: "chan_ok w n" using ok by (simp add: world_ok_def)
  have dests': "all_dests ?c = all_dests (chans w n) @ [(s, Some r)]"
    using opn by (auto simp: all_dests_def chan_open_def pending_append)
  have r: "r \<notin> chan_refs (chans w m)" for m using f by (simp add: fresh_for_def)
  have sets: "(s, Some r) \<notin> set (all_dests (chans w n))" "s \<notin> fst ` set (all_dests (chans w n))"
    "Some r \<notin> snd ` set (all_dests (chans w n))"
    using f by (force simp: fresh_for_def chan_refs_def refs_of_def)+
  have refs': "chan_refs ?c = insert r (chan_refs (chans w n))"
    unfolding chan_refs_def dests' by (auto simp: refs_of_def)
  have "dests_ok (all_dests (chans w n) @ [(s, Some r)])"
    using cok sets by (auto simp: chan_ok_def dests_ok_def)
  then have n: "chan_ok ?w' n"
    using cok opn f unfolding chan_ok_def put_chan_def
    by (simp add: dests' refs' chan_wf_def chan_open_queue fresh_for_def)
  have "chan_ok ?w' m" for m
    using n ok by (cases "m = n") (auto simp: world_ok_def chan_ok_def put_chan_def)
  moreover have "chan_refs (chans ?w' a) \<inter> chan_refs (chans ?w' b) = {}" if "a \<noteq> b" for a b
    using ok that r by (auto simp: world_ok_def put_chan_def refs')
  ultimately show ?thesis by (simp add: world_ok_def)
qed

lemma close_fold_streams:
  "go_fold (\<lambda>st d. close_stream (snd d) st) st ds = Ret st' \<Longrightarrow> r \<notin> refs_of ds \<Longrightarrow> st' r = st r"
proof (induction ds arbitrary: st)
  case (Cons d ds)
  then obtain st1 where "close_stream (snd d) st = Ret st1"
    and rest: "go_fold (\<lambda>st d. close_stream (snd d) st) st1 ds = Ret st'"
    by (auto simp: go_bind_Ret_iff)
  then have "st1 r = st r" using Cons.prems(2)
    by (auto simp: close_stream_def refs_of_def split: option.splits if_splits)
  moreover have "st' r = st1 r" using Cons.IH [OF rest] Cons.prems(2) by (simp add: refs_of_def)
  ultimately show ?case by simp
qed simp

lemma close_keeps_ok:
  assumes ok: "world_ok w" and cl: "Close n w = Ret (w', e)"
  shows "world_ok w'"
proof (cases "chan_open (chans w n)")
  case False
  have "chan_wf (chans w n)" using ok by (simp add: world_ok_def chan_ok_def)
  with False have "w' = w" using cl by (auto simp: Close_def Let_def chan_phase_defs)
  with ok show ?thesis by simp
next
  case True
  let ?c = "chans w n"
  let ?c' = "?c\<lparr>IsReady := False, sourceClosed := True, IsClosed := True\<rparr>"
  from True cl obtain st where
    st: "go_fold (\<lambda>st d. close_stream (snd d) st) (streams w) (destinations ?c) = Ret st"
    and w': "w' = put_chan n ?c' w\<lparr>streams := st\<rparr>"
    by (auto simp: Close_def Let_def chan_open_def go_bind_Ret_iff)
  have cok: "chan_ok w n" using ok by (simp add: world_ok_def)
  have all: "all_dests ?c' = all_dests ?c" by (simp add: all_dests_def)
  show ?thesis
  proof (rule world_okI_update [OF ok, of w' n])
    show "chan_ok w' n" using cok True
      by (auto simp: w' chan_ok_def put_chan_def all chan_phase_defs)
    show "streams w' r = streams w r" if "r \<notin> chan_refs ?c" for r
    proof -
      have "r \<notin> refs_of (destinations ?c)" using that by (auto simp: chan_refs_def all_dests_def refs_of_def)
      then show ?thesis using close_fold_streams [OF st] by (simp add: w' put_chan_def)
    qed
  qed (auto simp: w' put_chan_def chan_refs_def all)
qed

lemma chan_step_ok: "chan_step w w' \<Longrightarrow> world_ok w \<Longrightarrow> world_ok w'"
proof (induction rule: chan_step.induct)
  case (start w n)
  then show ?case by (rule start_keeps_ok)
next
  case (publish m w n c e)
  then show ?case
    by (auto simp: PublishData_def go_bind_Ret_iff intro: send_keeps_ok split: if_splits)
next
  case (publish_dest m s w n c e)
  then show ?case
    by (auto simp: PublishDataToDestination_def go_bind_Ret_iff intro: send_keeps_ok split: if_splits)
next
  case (publish_sub m s w n c e)
  then show ?case
    by (auto simp: PublishDataToSubChan_def go_bind_Ret_iff intro: send_keeps_ok split: if_splits)
next
  case (retrive s r n w c x)
  have wf: "chan_wf (chans w n)" using retrive.prems by (simp add: world_ok_def chan_ok_def)
  show ?case
  proof (cases "chan_open (chans w n)")
    case True
    then have "\<not> IsClosed (chans w n)" by (simp add: chan_open_def)
    then have "c = (chans w n)\<lparr>source := Some (the (source (chans w n)) @ [Register s r])\<rparr>"
      using retrive.hyps(2) send_open [OF True] by (simp add: RetriveData_def)
    then show ?thesis using register_keeps_ok [OF retrive.prems True retrive.hyps(1)] by simp
  next
    case False
    then have "c = chans w n" using retrive.hyps(2) wf
      by (auto simp: RetriveData_def send_source_def chan_phase_defs)
    then show ?thesis using retrive.prems by (simp add: put_chan_def)
  qed
next
  case (shutdown s w n c b)
  then show ?case
    by (auto simp: ShutdownRetrive_def go_bind_Ret_iff intro: send_keeps_ok split: if_splits)
next
  case (connect s child w n c x)
  show ?case
  proof (cases "IsClosed (chans w n)")
    case True
    then have "c = chans w n" using connect.hyps by (simp add: Connect_def)
    then show ?thesis using connect.prems by simp
  next
    case False
    let ?cs = "if \<not> IsReady (chans w n) then fst (Start (chans w n)) else chans w n"
    let ?w1 = "put_chan n ?cs w"
    have ok1: "world_ok ?w1" using start_keeps_ok [OF connect.prems] connect.prems
      by (cases "IsReady (chans w n)") (simp_all add: put_chan_def)
    have "send_source (Attach s child) (chans ?w1 n) = Ret c"
      using connect.hyps False by (auto simp: Connect_def Let_def go_bind_Ret_iff put_chan_def split: if_splits)
    from send_keeps_ok [OF ok1 this] show ?thesis by (simp add: put_chan_def)
  qed
next
  case (disconnect s w n c b)
  then show ?case
    by (auto simp: Disconnect_def go_bind_Ret_iff intro: send_keeps_ok split: if_splits)
next
  case (close n w w' e)
  show ?case by (rule close_keeps_ok [OF close.prems close.hyps])
next
  case (turn w n room w' rep)
  then show ?case using loop_turn_safe [of w n room] by auto
qed

lemma reachable_world_ok: "reachable_world w \<Longrightarrow> world_ok w"
proof (induction rule: reachable_world.induct)
  case (init w)
  have "all_dests (newRspChannel :: 'a rspChannel) = []" by (simp add: all_dests_def newRspChannel_def)
  then show ?case using init
    by (simp add: world_ok_def chan_ok_def chan_refs_def refs_of_def dests_ok_def)
next
  case (step w w')
  then show ?case by (blast intro: chan_step_ok)
qed

section \<open>What a session receives\<close>

text \<open>
  The specification of delivery: the messages of a queue that a session \<open>s\<close> with the Go
  channel \<open>r\<close> is sent, \<open>reg\<close> telling whether it is registered when the queue starts.
\<close>

fun delivered :: "string \<Rightarrow> nat \<Rightarrow> bool \<Rightarrow> 'm channel_input list \<Rightarrow> 'm list" where
  "delivered s r reg [] = []"
| "delivered s r reg (Register s' r' # q) = delivered s r (if s' = s then r' = r else reg) q"
| "delivered s r reg (Shutdown s' # q) = delivered s r (reg \<and> s' \<noteq> s) q"
| "delivered s r reg (Attach s' n # q) = delivered s r reg q"
| "delivered s r reg (Detach s' # q) = delivered s r reg q"
| "delivered s r reg (DataIn dst sub m # q) =
     (if reg \<and> (dst = [] \<or> dst = s) then [m] else []) @ delivered s r reg q"

fun loop_turns :: "(nat \<Rightarrow> bool) \<Rightarrow> nat \<Rightarrow> nat \<Rightarrow> 'm world \<Rightarrow> 'm world go" where
  "loop_turns room n 0 w = Ret w"
| "loop_turns room n (Suc k) w =
     go_bind (loop_turn room n w) (\<lambda>t. case t of Turn w' _ \<Rightarrow> loop_turns room n k w' | Exit w' \<Rightarrow> Ret w')"

definition no_children :: "'m rspChannel \<Rightarrow> bool" where
  "no_children c \<longleftrightarrow> childChannels c = [] \<and>
     (\<forall>i\<in>set (the (source c)). case i of Attach _ _ \<Rightarrow> False | _ \<Rightarrow> True)"

lemma dispatchSubChannels_none:
  "childChannels (chans w n) = [] \<Longrightarrow> dispatchSubChannels sub msg n w = Ret w"
proof -
  assume e: "childChannels (chans w n) = []"
  then have "(chans w n)\<lparr>childChannels := []\<rparr> = chans w n" by (cases "chans w n") simp
  then have "put_chan n ((chans w n)\<lparr>childChannels := []\<rparr>) w = w" by (metis put_chan_same)
  with e show ?thesis by (simp add: dispatchSubChannels_def Let_def)
qed

lemma refs_of_session:
  "dests_ok ds \<Longrightarrow> (s, Some r) \<in> set ds \<Longrightarrow> (s', Some r) \<in> set ds \<longleftrightarrow> s' = s"
  unfolding dests_ok_def distinct_map inj_on_def by (metis fst_conv snd_conv)

lemma targets_member:
  assumes "dests_ok ds" and "(s, Some r) \<in> set ds"
  shows "r \<in> refs_of (targets dst ds) \<longleftrightarrow> dst = [] \<or> dst = s"
proof (cases "dst = []")
  case True
  then show ?thesis using assms(2) by (force simp: targets_def refs_of_def)
next
  case False
  have "map_of ds s = Some (Some r)" using assms by (simp add: dests_ok_def)
  show ?thesis
  proof (cases "map_of ds dst")
    case None
    then show ?thesis using False \<open>map_of ds s = _\<close> by (auto simp: targets_def refs_of_def)
  next
    case (Some d)
    then have "(dst, d) \<in> set ds" by (rule map_of_SomeD)
    then have "d = Some r \<longleftrightarrow> dst = s"
      using refs_of_session [OF assms, of dst] Some \<open>map_of ds s = _\<close> by auto
    then show ?thesis using False Some by (auto simp: targets_def refs_of_def)
  qed
qed

text \<open>One turn when everybody has room: the exact effect on the queue, on what stays
  registered and on the stream of a session.\<close>

lemma turn_delivers:
  assumes ok: "world_ok w" and opn: "chan_open (chans w n)" and q: "source (chans w n) = Some (i # q)"
    and nc: "no_children (chans w n)" and s: "(s, Some r) \<in> set (all_dests (chans w n))"
    and room: "\<And>r. room r"
  shows "\<exists>w' rep. loop_turn room n w = Ret (Turn w' rep) \<and> source (chans w' n) = Some q
    \<and> no_children (chans w' n)
    \<and> ((s, Some r) \<in> set (all_dests (chans w' n)) \<or> i = Shutdown s)
    \<and> (\<forall>q'. sent (streams w' r) @ delivered s r ((s, Some r) \<in> set (destinations (chans w' n))) q'
         = sent (streams w r) @ delivered s r ((s, Some r) \<in> set (destinations (chans w n))) (i # q'))"
proof -
  let ?c = "chans w n"
  let ?cp = "?c\<lparr>source := Some q\<rparr>"
  let ?wp = "put_chan n ?cp w"
  have turn: "loop_turn room n w = go_bind (handle_input room n i ?wp) (\<lambda>(w', rep). Ret (Turn w' rep))"
    using q by (simp add: loop_turn_def)
  have cp: "chans ?wp n = ?cp" by (simp add: put_chan_def)
  have cok: "chan_ok w n" using ok by (simp add: world_ok_def)
  have dok: "dests_ok (destinations ?c @ pending (i # q))"
    "\<And>x. x \<in> refs_of (destinations ?c) \<Longrightarrow> \<not> closed (streams w x)"
    using chan_ok_open [OF cok opn q] by blast+
  have mem: "(s, Some r) \<in> set (destinations ?c) \<or> (s, Some r) \<in> set (pending (i # q))"
    using s q by (auto simp: all_dests_def)
  have ncp: "no_children ?cp" "childChannels ?c = []" "\<And>a b. i \<noteq> Attach a b"
    using nc q by (auto simp: no_children_def)
  show ?thesis
  proof (cases i)
    case (Register s' r')
    have fresh: "s' \<notin> fst ` set (destinations ?c)"
      using dok(1) Register by (auto simp: dests_ok_def)
    have same: "s' = s \<longleftrightarrow> r' = r" if "(s, Some r) \<notin> set (destinations ?c)"
      using mem that dok(1) Register unfolding dests_ok_def by (auto simp: image_iff)
    let ?w' = "put_chan n (?cp\<lparr>destinations := destinations ?c @ [(s', Some r')]\<rparr>) ?wp"
    have "loop_turn room n w = Ret (Turn ?w' None)"
      using update_fresh [OF fresh, of "Some r'"] by (simp add: turn handle_input_def Register cp Let_def)
    moreover have "source (chans ?w' n) = Some q" "no_children (chans ?w' n)"
      "destinations (chans ?w' n) = destinations ?c @ [(s', Some r')]" "streams ?w' = streams w"
      using ncp by (auto simp: put_chan_def no_children_def)
    moreover have "(s, Some r) \<in> set (all_dests (chans ?w' n))"
      using mem Register by (auto simp: all_dests_def put_chan_def)
    moreover have "(if s' = s then r' = r else (s, Some r) \<in> set (destinations ?c))
        = ((s, Some r) \<in> set (destinations ?c @ [(s', Some r')]))"
      using same fresh by force
    ultimately show ?thesis by (auto simp: Register)
  next
    case (Shutdown s')
    show ?thesis
    proof (cases "map_of (destinations ?c) s'")
      case None
      then have "s' \<noteq> s" if "(s, Some r) \<in> set (destinations ?c)"
        using that by (auto simp: map_of_eq_None_iff image_iff)
      then have "((s, Some r) \<in> set (destinations ?c) \<and> s' \<noteq> s) = ((s, Some r) \<in> set (destinations ?c))"
        by blast
      then show ?thesis using None mem ncp
        by (auto simp: turn handle_input_def Shutdown cp Let_def) (auto simp: put_chan_def all_dests_def)
    next
      case (Some d)
      have okp: "world_ok ?wp"
        by (rule world_ok_put [OF ok]) (use opn q Shutdown in \<open>auto simp: all_dests_def chan_phase_defs\<close>)
      have opnp: "chan_open (chans ?wp n)" using opn by (simp add: put_chan_def chan_open_queue)
      obtain x where x: "d = Some x" "\<not> closed (streams ?wp x)"
        using shutdown_safe [OF okp opnp, of s' d] Some by (auto simp: put_chan_def)
      define v where "v = put_chan n (?cp\<lparr>destinations := AList.delete s' (destinations ?c)\<rparr>)
        (?wp\<lparr>streams := (streams w)(x := (streams w x)\<lparr>closed := True\<rparr>)\<rparr>)"
      have "loop_turn room n w = Ret (Turn v (Some None))"
        using Some x by (simp add: turn handle_input_def Shutdown cp Let_def close_stream_def v_def)
          (simp add: put_chan_def)
      moreover have dst': "destinations (chans v n) = filter (\<lambda>d. fst d \<noteq> s') (destinations ?c)"
        using fold_delete [of "[s']"] by (simp add: put_chan_def v_def)
      moreover have src': "source (chans v n) = Some q" by (simp add: put_chan_def v_def)
      moreover have "no_children (chans v n)" "sent (streams v r) = sent (streams w r)"
        using ncp by (auto simp: put_chan_def no_children_def v_def)
      moreover have "(s, Some r) \<in> set (all_dests (chans v n)) \<or> s' = s"
        using mem Shutdown dst' src' by (auto simp: all_dests_def)
      moreover have "((s, Some r) \<in> set (destinations (chans v n)))
          = ((s, Some r) \<in> set (destinations ?c) \<and> s' \<noteq> s)"
        unfolding dst' by auto
      ultimately show ?thesis by (auto simp: Shutdown)
    qed
  next
    case (Attach a b)
    then show ?thesis using ncp(3) by simp
  next
    case (Detach a)
    then show ?thesis using mem ncp
      by (auto simp: turn handle_input_def cp Let_def) (auto simp: put_chan_def all_dests_def)
  next
    case (DataIn dst sub m)
    let ?T = "targets dst (destinations ?c)"
    let ?w' = "?wp\<lparr>streams := deliver room m ?T (streams w)\<rparr>"
    have "dispatchDistinations room dst m n ?wp = Ret ?w'"
      using dispatch_all_room [of ?wp n room dst m] dests_ok_appendD [OF dok(1)] dok(2) room
      by (simp add: put_chan_def)
    moreover have "dispatchSubChannels sub m n ?w' = Ret ?w'"
      using ncp by (intro dispatchSubChannels_none) (simp add: put_chan_def)
    ultimately have t: "loop_turn room n w = Ret (Turn ?w' None)"
      by (simp add: turn handle_input_def DataIn)
    have reg: "r \<in> refs_of ?T \<longleftrightarrow> (s, Some r) \<in> set (destinations ?c) \<and> (dst = [] \<or> dst = s)"
    proof (cases "(s, Some r) \<in> set (destinations ?c)")
      case True
      then show ?thesis using targets_member [OF dests_ok_appendD [OF dok(1)]] by blast
    next
      case False
      then have "r \<in> refs_of (pending (i # q))" using mem by (force simp: refs_of_def)
      then have "r \<notin> refs_of (destinations ?c)" using dests_ok_disjoint [OF dok(1)] by blast
      then show ?thesis using False refs_of_targets by blast
    qed
    have "sent (streams ?w' r) = sent (streams w r) @ (if r \<in> refs_of ?T then [m] else [])"
      using room by (simp add: deliver_def)
    then show ?thesis using t mem ncp
      by (intro exI [of _ ?w'] exI [of _ None]) (auto simp: DataIn put_chan_def all_dests_def reg)
  qed
qed

text \<open>A whole queue: the goroutine empties it and the session gets exactly its messages, in
  the order of the queue.\<close>

lemma loop_turns_deliver:
  assumes "world_ok w" and "chan_open (chans w n)" and "source (chans w n) = Some q"
    and "no_children (chans w n)" and "(s, Some r) \<in> set (all_dests (chans w n))"
    and "Shutdown s \<notin> set q" and room: "\<And>r. room r"
  shows "\<exists>w'. loop_turns room n (length q) w = Ret w' \<and> source (chans w' n) = Some []
    \<and> sent (streams w' r) = sent (streams w r) @ delivered s r ((s, Some r) \<in> set (destinations (chans w n))) q"
  using assms(1-6)
proof (induction q arbitrary: w)
  case Nil
  then show ?case by simp
next
  case (Cons i q)
  obtain w' rep where t: "loop_turn room n w = Ret (Turn w' rep)" and q': "source (chans w' n) = Some q"
    and nc: "no_children (chans w' n)"
    and s': "(s, Some r) \<in> set (all_dests (chans w' n))"
    and del: "\<And>q'. sent (streams w' r) @ delivered s r ((s, Some r) \<in> set (destinations (chans w' n))) q'
         = sent (streams w r) @ delivered s r ((s, Some r) \<in> set (destinations (chans w n))) (i # q')"
    using turn_delivers [OF Cons.prems(1-5), of room, OF room] Cons.prems(6) by auto
  have "world_ok w'" "chan_open (chans w' n)"
    using loop_turn_safe [OF Cons.prems(1,2), of room] t by auto
  from Cons.IH [OF this q' nc s'] Cons.prems(6) obtain w'' where
    "loop_turns room n (length q) w' = Ret w''" "source (chans w'' n) = Some []"
    "sent (streams w'' r) = sent (streams w' r) @ delivered s r ((s, Some r) \<in> set (destinations (chans w' n))) q"
    by auto
  then show ?case using t del [of q] by simp
qed

text \<open>After \<open>Close\<close> the inputs that are still queued are dispatched to closed Go channels.\<close>

lemma backlog_panics:
  assumes opn: "chan_open (chans w n)" and q: "source (chans w n) = Some (DataIn [] sub m # q)"
    and d: "destinations (chans w n) = (s, Some r) # ds"
    and cl: "Close n w = Ret (w', e)"
  shows "loop_turn room n w' = Panic SendOnClosed"
proof -
  let ?c = "chans w n"
  have fold: "closed (st' r)" if "closed (st r)" "go_fold (\<lambda>st d. close_stream (snd d) st) st ds = Ret st'" for st st'
    using that(2,1) by (rule go_fold_invariant [where P = "\<lambda>st. closed (st r)"])
      (auto simp: close_stream_def split: option.splits if_splits)
  have cl': "go_bind (go_fold (\<lambda>st d. close_stream (snd d) st) (streams w) (destinations ?c))
      (\<lambda>st. Ret (put_chan n (?c\<lparr>IsReady := False, sourceClosed := True, IsClosed := True\<rparr>) w\<lparr>streams := st\<rparr>, None))
      = Ret (w', e)"
    using cl opn q by (simp add: Close_def Let_def chan_open_def)
  then obtain st where st: "go_fold (\<lambda>st d. close_stream (snd d) st) (streams w) (destinations ?c) = Ret st"
    and w': "w' = put_chan n (?c\<lparr>IsReady := False, sourceClosed := True, IsClosed := True\<rparr>) w\<lparr>streams := st\<rparr>"
    by (auto simp: go_bind_Ret_iff)
  have "closed (st r)"
  proof -
    obtain st1 where "close_stream (Some r) (streams w) = Ret st1"
      "go_fold (\<lambda>st d. close_stream (snd d) st) st1 ds = Ret st"
      using st by (auto simp: d go_bind_Ret_iff)
    moreover from this(1) have "closed (st1 r)" by (auto simp: close_stream_def split: if_splits)
    ultimately show ?thesis using fold by blast
  qed
  then show ?thesis using q d
    by (simp add: loop_turn_def w' put_chan_def handle_input_def dispatchDistinations_def
        handle_dest_def Let_def)
qed

end
