(* ===== verification/MBLCache.thy ===== *)
theory MBLCache
  imports OrderBook GoSets Channels
begin

text \<open>
  \<open>MBLCache\<close> (\<open>utils/cache_mbl.go\<close>): a market-by-level message is applied to the book and
  turned into the messages of the full and of the limited-depth channels.

  What the cache hands to its channels is a list of publications, a depth and a message each,
  in the order of the calls of \<open>PublishData\<close>; \<open>emit\<close> of the pipeline runs them on the channels. The order in
  which the code ranges over \<open>channelGroup[Realtime]\<close> is the order of the list \<open>realtime\<close>,
  and the order of \<open>Values\<close> is the argument \<open>rng\<close>; the facts hold for every order.
\<close>

section \<open>Applying a message\<close>

type_synonym mbl_msg = "order_ref dataResponse"
type_synonym limit_rsp = "(int, mbl_msg \<times> mbl_msg option) gomap"

definition makeup_of :: "mbl_msg \<Rightarrow> mbl_msg option" where
  "makeup_of data =
     (if Action data = ''delete'' then Some (emptyResponse\<lparr>Action := ''insert'', Table := Table data\<rparr>)
      else if Action data = ''insert'' then Some (emptyResponse\<lparr>Action := ''delete'', Table := Table data\<rparr>)
      else None)"

definition limit_responses :: "mbl \<Rightarrow> mbl_msg \<Rightarrow> limit_rsp" where
  "limit_responses c data =
     map (\<lambda>depth. (depth, (emptyResponse\<lparr>Table := Table data, Action := Action data\<rparr>, makeup_of data)))
       (filter (\<lambda>depth. depth \<noteq> 0) (gokeys (realtime c)))"

definition add_row :: "order_ref \<Rightarrow> mbl_msg \<Rightarrow> mbl_msg" where
  "add_row ord m = m\<lparr>Data := Data m @ [ord]\<rparr>"

text \<open>The order that takes the place left at, or pushed out of, the limit.\<close>

definition limit_makeup :: "int \<Rightarrow> mbl \<Rightarrow> order_ref \<Rightarrow> int \<times> mbl_msg \<times> mbl_msg option
    \<Rightarrow> (int \<times> mbl_msg \<times> mbl_msg option) go" where
  "limit_makeup ofs c ord e =
     (case e of (limit, rsp, makeup) \<Rightarrow>
        go_bind (load c ord) (\<lambda>o'.
        go_bind (GetOrderOnDepth c (ord_Side o') (limit + ofs)) (\<lambda>makeupOrd.
          case makeupOrd of
            None \<Rightarrow> Ret (limit, add_row ord rsp, makeup)
          | Some m \<Rightarrow> go_bind (go_deref makeup) (\<lambda>mk.
              Ret (limit, add_row ord rsp, Some (add_row makeupOrd mk))))))"

definition limit_plain :: "mbl \<Rightarrow> order_ref \<Rightarrow> int \<times> mbl_msg \<times> mbl_msg option
    \<Rightarrow> (int \<times> mbl_msg \<times> mbl_msg option) go" where
  "limit_plain c ord e = (case e of (limit, rsp, makeup) \<Rightarrow> Ret (limit, add_row ord rsp, makeup))"

text \<open>The loop over the rows of a message, with one of the three handlers.\<close>

fun apply_rows ::
  "(mbl \<Rightarrow> order_ref \<Rightarrow> (mbl \<times> int \<times> book_error option) go) \<Rightarrow>
   (mbl \<Rightarrow> order_ref \<Rightarrow> int \<times> mbl_msg \<times> mbl_msg option \<Rightarrow> (int \<times> mbl_msg \<times> mbl_msg option) go) \<Rightarrow>
   mbl \<Rightarrow> limit_rsp \<Rightarrow> order_ref list \<Rightarrow> (mbl \<times> limit_rsp option \<times> book_error option) go" where
  "apply_rows handle limited c limits [] = Ret (c, Some limits, None)"
| "apply_rows handle limited c limits (ord # rows) =
     go_bind (handle c ord) (\<lambda>(c', depth, err).
       case err of
         Some e \<Rightarrow> Ret (c', None, Some e)
       | None \<Rightarrow>
           go_bind (go_map (\<lambda>e. if depth \<le> fst e then limited c' ord e else Ret e) limits)
             (\<lambda>limits'. apply_rows handle limited c' limits' rows))"

definition applyChange :: "mbl \<Rightarrow> mbl_msg \<Rightarrow> (mbl \<times> limit_rsp option \<times> book_error option) go" where
  "applyChange c data =
     (let limits = limit_responses c data in
      if Action data = DeleteAction then apply_rows handleDelete (limit_makeup 0) c limits (Data data)
      else if Action data = InsertAction then apply_rows handleInsert (limit_makeup 1) c limits (Data data)
      else if Action data = UpdateAction then apply_rows handleUpdate limit_plain c limits (Data data)
      else Ret (c, None, Some (InvalidAction (Action data))))"

section \<open>Publications\<close>

type_synonym pubs = "(int \<times> mbl_msg) list"

definition publish_limited :: "int \<Rightarrow> mbl_msg \<times> mbl_msg option \<Rightarrow> pubs" where
  "publish_limited depth rspList =
     (case rspList of (rsp, makeup) \<Rightarrow>
        map (\<lambda>r. (depth, r\<lparr>Table := depth_table (Table r) depth\<rparr>))
          (filter (\<lambda>r. Data r \<noteq> []) (rsp # (case makeup of None \<Rightarrow> [] | Some m \<Rightarrow> [m]))))"

definition dispatchRsp :: "mbl \<Rightarrow> mbl_msg \<Rightarrow> limit_rsp option \<Rightarrow> mbl \<times> pubs" where
  "dispatchRsp c data limitRsp =
     (let c1 = fst (IsQuoteChange c) in
      case limitRsp of
        None \<Rightarrow> (c1, [])
      | Some limits \<Rightarrow>
          (c1, concat (map (\<lambda>depth.
             if depth = 0 then [(0, data)]
             else (case map_of limits depth of None \<Rightarrow> [] | Some rspList \<Rightarrow> publish_limited depth rspList))
             (gokeys (realtime c)))))"

section \<open>Partials\<close>

definition partial_row :: "mbl \<Rightarrow> order_ref \<Rightarrow> mbl go" where
  "partial_row c ref =
     go_bind (load c ref) (\<lambda>ord.
       if ord_Side ord = ''Buy'' then
         Ret (c\<lparr>bidPrices := bidPrices c @ [ord_Price ord],
                l2Cache := map_option (AList.update (ord_Price ord) (the ref)) (l2Cache c)\<rparr>)
       else if ord_Side ord = ''Sell'' then
         Ret (c\<lparr>askPrices := askPrices c @ [ord_Price ord],
                l2Cache := map_option (AList.update (ord_Price ord) (the ref)) (l2Cache c)\<rparr>)
       else Ret c)"

definition partial_first :: "mbl \<Rightarrow> order_ref list \<Rightarrow> (mbl \<times> pubs) go" where
  "partial_first c data =
     go_bind (go_fold partial_row (initCache c) data) (\<lambda>c1.
       let c2 = c1\<lparr>bidPrices := ReverseFloat64Slice (bidPrices c1)\<rparr> in
       go_bind (best_of c2 (bidPrices c2)) (\<lambda>(bp, bs).
         let c3 = c2\<lparr>bidQuote := (bidQuote c2)\<lparr>bestPrice := bp, bestSize := bs\<rparr>\<rparr> in
         go_bind (best_of c3 (askPrices c3)) (\<lambda>(ap, as).
           let c4 = c3\<lparr>askQuote := (askQuote c3)\<lparr>bestPrice := ap, bestSize := as\<rparr>\<rparr>
           in Ret (c4, [(0, snapshot c4 0)]))))"

definition side_prices_of :: "mbl \<Rightarrow> string \<Rightarrow> order_ref list \<Rightarrow> float64 list go" where
  "side_prices_of c side data =
     go_fold (\<lambda>acc ref. go_bind (load c ref) (\<lambda>ord.
         Ret (if ord_Side ord = side then float64Set_Append acc [ord_Price ord] else acc)))
       (NewFloat64Set None) data"

text \<open>The test whether a row changes the size of a level that was there before.\<close>

definition size_differs :: "mbl \<Rightarrow> orderL2 \<Rightarrow> bool go" where
  "size_differs c ord =
     go_bind (load c (l2_get c (ord_Price ord))) (\<lambda>o'. Ret (ord_Size o' \<noteq> ord_Size ord))"

definition merge_row ::
  "mbl \<Rightarrow> float64 list \<Rightarrow> float64 list \<Rightarrow> float64 list \<Rightarrow> float64 list \<Rightarrow>
   order_ref list \<times> order_ref list \<Rightarrow> order_ref \<Rightarrow> (order_ref list \<times> order_ref list) go" where
  "merge_row c sellAdd buyAdd sellUpd buyUpd acc ref =
     (case acc of (ins, upd) \<Rightarrow>
        go_bind (load c ref) (\<lambda>ord.
          let ins' = (if float64Set_Exist sellAdd (ord_Price ord) \<or> float64Set_Exist buyAdd (ord_Price ord)
                      then ins @ [ref] else ins) in
          go_bind (if float64Set_Exist sellUpd (ord_Price ord) then size_differs c ord else Ret False) (\<lambda>u1.
          go_bind (if \<not> u1 \<and> float64Set_Exist buyUpd (ord_Price ord) then size_differs c ord else Ret u1) (\<lambda>u.
            Ret (ins', if u then upd @ [ref] else upd)))))"

text \<open>One of the three messages a later partial is turned into; an error is only logged.\<close>

definition merge_apply :: "mbl \<Rightarrow> string \<Rightarrow> order_ref list \<Rightarrow> (mbl \<times> pubs) go" where
  "merge_apply c action rows =
     (if rows = [] then Ret (c, [])
      else
        (let rsp = emptyResponse\<lparr>Table := ''orderBookL2'', Action := action, Data := rows\<rparr> in
         go_bind (applyChange c rsp) (\<lambda>(c', limitRsp, err).
           case err of Some _ \<Rightarrow> Ret (c', []) | None \<Rightarrow> Ret (dispatchRsp c' rsp limitRsp))))"

definition partial_merge :: "(float64 list \<Rightarrow> float64 list) \<Rightarrow> mbl \<Rightarrow> order_ref list \<Rightarrow> (mbl \<times> pubs) go" where
  "partial_merge rng c data =
     go_bind (side_prices_of c ''Sell'' data) (\<lambda>newSell.
     go_bind (side_prices_of c ''Buy'' data) (\<lambda>newBuy.
     let originSell = NewFloat64Set (Some (askPrices c)); originBuy = NewFloat64Set (Some (bidPrices c)) in
     go_bind (float64Set_Sub newSell (Float64SetV originSell)) (\<lambda>sellAdd.
     go_bind (float64Set_Sub newBuy (Float64SetV originBuy)) (\<lambda>buyAdd.
     go_bind (float64Set_Sub originSell (Float64SetV newSell)) (\<lambda>sellDel.
     go_bind (float64Set_Sub originBuy (Float64SetV newBuy)) (\<lambda>buyDel.
     go_bind (float64Set_Join originSell (Float64SetV newSell)) (\<lambda>sellUpd.
     go_bind (float64Set_Join originBuy (Float64SetV newBuy)) (\<lambda>buyUpd.
     go_bind (float64Set_Add sellDel (Float64SetV buyDel)) (\<lambda>del.
     go_bind (merge_apply c DeleteAction (map (l2_get c) (float64Set_Values rng del))) (\<lambda>(c1, p1).
     go_bind (go_fold (merge_row c1 sellAdd buyAdd sellUpd buyUpd) ([], []) data) (\<lambda>(ins, upd).
     go_bind (merge_apply c1 InsertAction ins) (\<lambda>(c2, p2).
     go_bind (merge_apply c2 UpdateAction upd) (\<lambda>(c3, p3).
       Ret (c3, p1 @ p2 @ p3))))))))))))))"

definition handlePartial :: "(float64 list \<Rightarrow> float64 list) \<Rightarrow> mbl \<Rightarrow> order_ref list \<Rightarrow> (mbl \<times> pubs) go" where
  "handlePartial rng c data =
     (if (case l2Cache c of None \<Rightarrow> 0 | Some m \<Rightarrow> length m) < 1 then partial_first c data
      else partial_merge rng c data)"

section \<open>Input\<close>

definition applyData :: "(float64 list \<Rightarrow> float64 list) \<Rightarrow> mbl \<Rightarrow> mbl_msg
    \<Rightarrow> (mbl \<times> pubs \<times> limit_rsp option \<times> book_error option) go" where
  "applyData rng c data =
     (if Action data = PartialAction then
        go_bind (handlePartial rng c (Data data)) (\<lambda>(c', ps). Ret (c', ps, None, None))
      else go_bind (applyChange c data) (\<lambda>(c', limits, err). Ret (c', [], limits, err)))"

definition mbl_message :: "(float64 list \<Rightarrow> float64 list) \<Rightarrow> mbl \<Rightarrow> mbl_msg \<Rightarrow> (mbl \<times> pubs) go" where
  "mbl_message rng c data =
     (let c0 = c\<lparr>historyCount := wrap64 (historyCount c + int (length (Data data)))\<rparr> in
      go_bind (applyData rng c0 data) (\<lambda>(c1, ps, limitRsp, err).
        case err of
          Some _ \<Rightarrow> Ret (c1, ps)
        | None \<Rightarrow> (let (c2, qs) = dispatchRsp c1 data limitRsp in Ret (c2, ps @ qs))))"

text \<open>\<open>handleInput\<close> for an input that is no breakpoint; \<open>None\<close> is a nil message.\<close>

definition mbl_handleInput :: "(float64 list \<Rightarrow> float64 list) \<Rightarrow> mbl \<Rightarrow> 'o table_msg option \<Rightarrow> (mbl \<times> pubs) go" where
  "mbl_handleInput rng c msg =
     (case msg of
        None \<Rightarrow> Ret (c, [])
      | Some (MBLResponse data) \<Rightarrow> mbl_message rng c data
      | Some _ \<Rightarrow> Ret (c, []))"

section \<open>Channels of the cache\<close>

text \<open>\<open>NewDepthChannel\<close> adds a channel, then starts the one of depth 25, whatever the depth.\<close>

definition NewDepthChannel :: "int \<Rightarrow> nat \<Rightarrow> mbl \<times> 'm world \<Rightarrow> ((mbl \<times> 'm world) \<times> error option) go" where
  "NewDepthChannel depth n s =
     (case s of (c, w) \<Rightarrow>
        let c1 = c\<lparr>realtime := AList.update depth n (realtime c)\<rparr>; w1 = put_chan n newRspChannel w in
        (case map_of (realtime c1) 25 of
           None \<Rightarrow> Panic NilDereference
         | Some k \<Rightarrow> (let (ch, err) = Start (chans w1 k) in Ret ((c1, put_chan k ch w1), err))))"

end
