(* ===== verification/DepthStreams.thy ===== *)
theory DepthStreams
  imports MBLCache
begin

text \<open>
  What a subscriber of \<open>MBLCache\<close> sees. A reader of a channel of depth \<open>n\<close> who holds the \<open>n\<close>
  best levels of each side and applies the published messages in their order holds the \<open>n\<close>
  best levels of the new book; a reader of the full channel holds the book. Insertions and
  updates are followed for whole messages; for deletions the reader is right as long as no
  order that moved up is deleted by a later row of the same message.
\<close>

section \<open>Reading a level\<close>

lemma GetOrderOnDepth_level:
  assumes "valid_side s" "0 < n"
  shows "GetOrderOnDepth c s (int n) =
    Ret (if n \<le> length (side_list c s) then l2_get c (side_list c s ! (length (side_list c s) - n)) else None)"
proof -
  have idx: "go_nth xs (int (length xs) - int n) = Ret (xs ! (length xs - n))"
    if "n \<le> length xs" for xs :: "float64 list"
  proof -
    have "nat (int (length xs) - int n) = length xs - n" by (simp add: nat_diff_distrib')
    then show ?thesis using that assms(2) by (simp add: go_nth_def)
  qed
  show ?thesis using assms by (auto simp: GetOrderOnDepth_def valid_side_def Let_def idx)
qed

section \<open>The best levels\<close>

text \<open>The levels a limited-depth channel shows: the \<open>n\<close> best of each side.\<close>

definition view_prices :: "nat \<Rightarrow> mbl \<Rightarrow> float64 set" where
  "view_prices n c = set (topn n (bidPrices c)) \<union> set (topn n (askPrices c))"

definition view :: "nat \<Rightarrow> mbl \<Rightarrow> book" where
  "view n c p = (if p \<in> view_prices n c then l2_book c p else None)"

lemma view_all: "book_ok c \<Longrightarrow> length (bidPrices c) \<le> n \<Longrightarrow> length (askPrices c) \<le> n \<Longrightarrow> view n c = l2_book c"
proof (rule ext)
  fix p assume a: "book_ok c" "length (bidPrices c) \<le> n" "length (askPrices c) \<le> n"
  have "p \<in> view_prices n c" if "l2_book c p = Some x" for x
  proof -
    have "valid_side (ord_Side x)" by (rule l2_book_objs [OF a(1) that])
    then show ?thesis using a that
      by (auto simp: view_prices_def topn_all book_okD book_prices_def valid_side_def)
  qed
  then show "view n c p = l2_book c p" by (cases "l2_book c p") (auto simp: view_def)
qed

lemma view_prices_sides:
  "valid_side s \<Longrightarrow> view_prices n c =
     set (topn n (side_list c s)) \<union> set (topn n (side_list c (if s = ''Buy'' then ''Sell'' else ''Buy'')))"
  by (auto simp: view_prices_def valid_side_def)

lemma side_topn:
  assumes "book_ok c" "valid_side s" "p \<in> set (topn n (side_list c s))"
  shows "p \<in> set (side_list c s)" "\<exists>x. l2_book c p = Some x \<and> ord_Side x = s"
  using assms set_topn_subset [of n "side_list c s"] book_ok_set [OF assms(1,2)]
  by (auto simp: book_prices_def)

lemma other_side:
  assumes "other_side_kept c c' s" "valid_side s"
  shows "side_list c' (if s = ''Buy'' then ''Sell'' else ''Buy'') = side_list c (if s = ''Buy'' then ''Sell'' else ''Buy'')"
  using assms by (auto simp: other_side_kept_def valid_side_def)

lemma side_distinct: "book_ok c \<Longrightarrow> valid_side s \<Longrightarrow> distinct (side_list c s)"
  by (rule price_order.sorted_distinct [OF price_side.axioms(1) [OF price_side_of] book_ok_sorted])

text \<open>A level put in beyond the limit does not show.\<close>

lemma view_far:
  assumes "book_ok c" "book_ok c'" "valid_side s" "other_side_kept c c' s"
    and tops: "topn n (side_list c' s) = topn n (side_list c s)"
    and same: "\<And>q. q \<noteq> p \<Longrightarrow> l2_book c' q = l2_book c q"
    and absent: "l2_book c p = None \<or> l2_book c' p = None"
  shows "view n c' = view n c"
proof (rule ext)
  fix q
  let ?t = "if s = ''Buy'' then ''Sell'' else ''Buy''"
  have vt: "valid_side ?t" by (simp add: valid_side_def)
  have vp: "view_prices n c' = view_prices n c"
    using view_prices_sides [OF assms(3)] tops other_side [OF assms(4,3)] by metis
  have held: "l2_book c x \<noteq> None \<and> l2_book c' x \<noteq> None" if x: "x \<in> view_prices n c" for x
  proof -
    have "l2_book c x \<noteq> None" if "book_ok c" "x \<in> view_prices n c" for c
      using that side_topn(2) [of c "''Buy''" x n] side_topn(2) [of c "''Sell''" x n]
      by (auto simp: view_prices_def)
    then show ?thesis using x vp assms(1,2) by metis
  qed
  then have "q \<noteq> p" if "q \<in> view_prices n c" using that absent by metis
  then show "view n c' q = view n c q" using same by (auto simp: view_def vp)
qed

text \<open>The level behind the limit, and what the limit shows without it.\<close>

lemma topn_split:
  assumes "distinct xs"
  shows "n < length xs \<Longrightarrow> set (topn (Suc n) xs) = insert (xs ! (length xs - Suc n)) (set (topn n xs))"
    "n < length xs \<Longrightarrow> xs ! (length xs - Suc n) \<notin> set (topn n xs)"
    "length xs \<le> n \<Longrightarrow> topn (Suc n) xs = topn n xs"
proof -
  have "distinct (topn (Suc n) xs)" using assms by (simp add: topn_def)
  then show "n < length xs \<Longrightarrow> xs ! (length xs - Suc n) \<notin> set (topn n xs)"
    by (simp add: topn_Suc)
qed (simp_all add: topn_Suc topn_all)

lemma in_view_split:
  "valid_side s \<Longrightarrow> p \<in> view_prices n c \<longleftrightarrow> p \<in> set (topn n (side_list c s))
     \<or> p \<in> set (topn n (side_list c (if s = ''Buy'' then ''Sell'' else ''Buy'')))"
  by (simp add: view_prices_sides)

text \<open>
  A level put in within the limit, and the level it pushes out. \<open>xs\<close> and \<open>ys\<close> are the side
  before and after.
\<close>

lemma view_near:
  assumes ok: "book_ok c" "book_ok c'" and s: "valid_side s" "other_side_kept c c' s"
    and put: "level_put (side_list c s) (side_list c' s) p d" "d \<le> n"
    and book: "l2_book c' = (l2_book c)(p \<mapsto> o')" and new: "l2_book c p = None"
  defines "ys \<equiv> side_list c' s"
  shows "view n c' = (if n < length ys then ((view n c)(p \<mapsto> o'))(ys ! (length ys - Suc n) := None)
    else (view n c)(p \<mapsto> o'))"
    and "n < length ys \<Longrightarrow> ys ! (length ys - Suc n) \<noteq> p \<and> ys ! (length ys - Suc n) \<in> set ys"
proof -
  let ?xs = "side_list c s" and ?t = "if s = ''Buy'' then ''Sell'' else ''Buy''"
  let ?out = "ys ! (length ys - Suc n)"
  have dy: "distinct ys" unfolding ys_def by (rule side_distinct [OF ok(2) s(1)])
  have near: "set (topn (Suc n) ys) = insert p (set (topn n ?xs))"
    unfolding ys_def by (rule level_put_near [OF put(1)]) (use put(2) in simp)
  have d: "0 < d" "d \<le> length ys" using level_put_length [OF put(1)] by (auto simp: ys_def)
  have ptop: "p \<in> set (topn n ys)"
  proof -
    have "set (topn (Suc (n - 1)) ys) = insert p (set (topn (n - 1) ?xs))"
      unfolding ys_def by (rule level_put_near [OF put(1)]) (use put(2) in simp)
    moreover have "Suc (n - 1) = n" using d put(2) by simp
    ultimately show ?thesis by simp
  qed
  have other: "side_list c' ?t = side_list c ?t" by (rule other_side [OF s(2,1)])
  have ot: "?out \<notin> set (side_list c' ?t)" if "n < length ys"
  proof
    assume a: "?out \<in> set (side_list c' ?t)"
    have "?out \<in> set ys" using that by simp
    then show False using a side_disjoint [OF ok(2), of ?out] s(1)
      by (auto simp: ys_def valid_side_def)
  qed
  have pt: "p \<notin> set (side_list c ?t)"
    using not_in_side [OF ok(1) new] s(1) by (auto simp: valid_side_def)
  show out: "?out \<noteq> p \<and> ?out \<in> set ys" if n: "n < length ys"
    using ptop topn_split(2) [OF dy n] n by auto
  have vp: "x \<in> view_prices n c' \<longleftrightarrow> (x = p \<or> x \<in> view_prices n c) \<and> \<not> (n < length ys \<and> x = ?out)" for x
  proof -
    have "x \<in> set (topn n ys) \<longleftrightarrow> (x = p \<or> x \<in> set (topn n ?xs)) \<and> \<not> (n < length ys \<and> x = ?out)"
    proof (cases "n < length ys")
      case True
      then show ?thesis using near topn_split(1,2) [OF dy True] by auto
    next
      case False
      then show ?thesis using near topn_split(3) [OF dy, of n] by auto
    qed
    moreover have "x \<in> set (topn n (side_list c ?t)) \<Longrightarrow> \<not> (n < length ys \<and> x = ?out)"
      using ot set_topn_subset [of n "side_list c ?t"] other by auto
    ultimately show ?thesis
      using in_view_split [OF s(1), of x n c] in_view_split [OF s(1), of x n c'] other
      unfolding ys_def by auto
  qed
  show "view n c' = (if n < length ys then ((view n c)(p \<mapsto> o'))(?out := None) else (view n c)(p \<mapsto> o'))"
    by (rule ext) (use out vp in \<open>auto simp: view_def book\<close>)
qed

text \<open>A level taken out within the limit, and the level that moves up.\<close>

lemma view_gone:
  assumes ok: "book_ok c" "book_ok c'" and s: "valid_side s" "other_side_kept c c' s"
    and put: "level_put (side_list c' s) (side_list c s) p d" "d \<le> n"
    and book: "l2_book c' = (l2_book c)(p := None)"
  defines "ys \<equiv> side_list c' s"
  shows "view n c' = (if n \<le> length ys
      then ((view n c)(p := None))(ys ! (length ys - n) := l2_book c' (ys ! (length ys - n)))
      else (view n c)(p := None))"
proof -
  let ?xs = "side_list c s" and ?t = "if s = ''Buy'' then ''Sell'' else ''Buy''"
  let ?in = "ys ! (length ys - n)"
  have dy: "distinct ys" unfolding ys_def by (rule side_distinct [OF ok(2) s(1)])
  have "0 < n" using level_put_length [OF put(1)] put(2) by simp
  then obtain k where k: "n = Suc k" by (cases n) auto
  have near: "set (topn n ?xs) = insert p (set (topn k ys))"
    unfolding ys_def k by (rule level_put_near [OF put(1)]) (use put(2) k in simp)
  have other: "side_list c' ?t = side_list c ?t" by (rule other_side [OF s(2,1)])
  have vt: "valid_side ?t" by (simp add: valid_side_def)
  have gone: "l2_book c' p = None" by (simp add: book)
  have pt: "p \<notin> set (side_list c ?t)" "p \<notin> set ys"
    using not_in_side [OF ok(2) gone] s(1) other by (auto simp: valid_side_def ys_def)
  have pk: "p \<notin> set (topn m ys)" "p \<notin> set (topn m (side_list c ?t))" for m
    using pt set_topn_subset [of m ys] set_topn_subset [of m "side_list c ?t"] by auto
  have vp: "x \<in> view_prices n c' \<longleftrightarrow> (x \<noteq> p \<and> x \<in> view_prices n c) \<or> (n \<le> length ys \<and> x = ?in)" for x
  proof -
    have "x \<in> set (topn n ys) \<longleftrightarrow> (x \<noteq> p \<and> x \<in> set (topn n ?xs)) \<or> (n \<le> length ys \<and> x = ?in)"
    proof (cases "k < length ys")
      case True
      then show ?thesis using near topn_split(1) [OF dy True] pk(1) [of k] pk(1) [of n] by (auto simp: k)
    next
      case False
      then show ?thesis using near topn_split(3) [OF dy, of k] pk(1) [of k] by (auto simp: k)
    qed
    then show ?thesis
      using in_view_split [OF s(1), of x n c] in_view_split [OF s(1), of x n c'] other pk(2) [of n]
      unfolding ys_def by auto
  qed
  show ?thesis by (rule ext) (use vp gone in \<open>auto simp: view_def book\<close>)
qed

section \<open>The loop over the rows\<close>

text \<open>An invariant of the cache and one of each limited response, kept row by row.\<close>

lemma apply_rows_inv:
  assumes "I c rows" "\<And>e. e \<in> set limits \<Longrightarrow> E c e"
    and step: "\<And>c r rest. I c (r # rest) \<Longrightarrow> \<exists>c' d. handle c r = Ret (c', d, None) \<and> I c' rest
      \<and> (\<forall>e. E c e \<longrightarrow> (\<exists>e'. (if d \<le> fst e then limited c' r e else Ret e) = Ret e' \<and> fst e' = fst e \<and> E c' e'))"
  shows "\<exists>c' limits'. apply_rows handle limited c limits rows = Ret (c', Some limits', None)
    \<and> I c' [] \<and> map fst limits' = map fst limits \<and> (\<forall>e\<in>set limits'. E c' e)"
  using assms(1,2)
proof (induction rows arbitrary: c limits)
  case Nil
  then show ?case by simp
next
  case (Cons r rest)
  from step [OF Cons.prems(1)] obtain c' d where
    c': "handle c r = Ret (c', d, None)" "I c' rest" and
    ent: "\<And>e. E c e \<Longrightarrow> \<exists>e'. (if d \<le> fst e then limited c' r e else Ret e) = Ret e' \<and> fst e' = fst e \<and> E c' e'"
    by blast
  define g where "g e = (SOME e'. (if d \<le> fst e then limited c' r e else Ret e) = Ret e' \<and> fst e' = fst e \<and> E c' e')" for e
  have g: "(if d \<le> fst e then limited c' r e else Ret e) = Ret (g e) \<and> fst (g e) = fst e \<and> E c' (g e)"
    if "e \<in> set limits" for e
    unfolding g_def by (rule someI_ex) (rule ent [OF Cons.prems(2) [OF that]])
  have "go_map (\<lambda>e. if d \<le> fst e then limited c' r e else Ret e) limits = Ret (map g limits)"
    using g by (intro go_map_Ret) blast
  moreover have "\<exists>c'' limits'. apply_rows handle limited c' (map g limits) rest = Ret (c'', Some limits', None)
      \<and> I c'' [] \<and> map fst limits' = map fst (map g limits) \<and> (\<forall>e\<in>set limits'. E c'' e)"
    using g by (intro Cons.IH [OF c'(2)]) auto
  then obtain c'' limits' where "apply_rows handle limited c' (map g limits) rest = Ret (c'', Some limits', None)"
      "I c'' []" "map fst limits' = map fst (map g limits)" "\<forall>e\<in>set limits'. E c'' e" by blast
  moreover have "map fst (map g limits) = map fst limits" using g by simp
  ultimately show ?case using c'(1) by (intro exI [of _ c''] exI [of _ limits']) simp
qed

text \<open>The invariant of the cache: the rows still to come fit the book, and lead to \<open>goal\<close>.\<close>

definition rows_inv :: "string \<Rightarrow> (int, nat) gomap \<Rightarrow> bool \<Rightarrow> book \<Rightarrow> mbl \<Rightarrow> order_ref list \<Rightarrow> bool" where
  "rows_inv action rt q goal c rows \<longleftrightarrow> (\<exists>rs. rows = map Some rs \<and> book_ok c \<and> (q \<longrightarrow> quote_ok c)
     \<and> realtime c = rt \<and> (\<forall>r\<in>set rs. r < length (objs c))
     \<and> rows_ok action (l2_book c) (map (\<lambda>r. objs c ! r) rs)
     \<and> fold (row_effect action) (map (\<lambda>r. objs c ! r) rs) (l2_book c) = goal
     \<and> (action = UpdateAction \<longrightarrow> (\<forall>r\<in>set rs. \<forall>p. l2_get c p \<noteq> Some r)))"

lemma rows_inv_step:
  assumes inv: "rows_inv action rt q goal c (ref # rest)"
    and action: "action = DeleteAction \<or> action = InsertAction \<or> action = UpdateAction"
  shows "\<exists>c' r. ref = Some r \<and> r < length (objs c) \<and> book_ok c \<and> row_ok action (l2_book c) (objs c ! r)
    \<and> handler action c ref = Ret (c', int (level c (objs c ! r)), None) \<and> rows_inv action rt q goal c' rest
    \<and> book_ok c' \<and> l2_book c' = row_effect action (objs c ! r) (l2_book c)
    \<and> other_side_kept c c' (ord_Side (objs c ! r)) \<and> uncached_kept c c'
    \<and> (action \<noteq> UpdateAction \<longrightarrow> objs c' = objs c)
    \<and> (action = InsertAction \<longrightarrow> level_put (side_list c (ord_Side (objs c ! r)))
         (side_list c' (ord_Side (objs c ! r))) (ord_Price (objs c ! r)) (level c (objs c ! r)))
    \<and> (action = DeleteAction \<longrightarrow> level_put (side_list c' (ord_Side (objs c ! r)))
         (side_list c (ord_Side (objs c ! r))) (ord_Price (objs c ! r)) (level c (objs c ! r)))
    \<and> (action = UpdateAction \<longrightarrow> l2_get c' = l2_get c \<and> objs c' ! r = objs c ! r
         \<and> side_list c' (ord_Side (objs c ! r)) = side_list c (ord_Side (objs c ! r)))"
proof -
  from inv obtain r rs where rs: "ref = Some r" "rest = map Some rs" "book_ok c" "q \<longrightarrow> quote_ok c"
    "realtime c = rt" "r < length (objs c)" "\<forall>x\<in>set rs. x < length (objs c)"
    "row_ok action (l2_book c) (objs c ! r)"
    "rows_ok action (row_effect action (objs c ! r) (l2_book c)) (map (\<lambda>r. objs c ! r) rs)"
    "fold (row_effect action) (map (\<lambda>r. objs c ! r) rs) (row_effect action (objs c ! r) (l2_book c)) = goal"
    "action = UpdateAction \<longrightarrow> (\<forall>p. l2_get c p \<noteq> Some r) \<and> (\<forall>r\<in>set rs. \<forall>p. l2_get c p \<noteq> Some r)"
    by (auto simp: rows_inv_def Cons_eq_map_conv)
  from handler_ok [OF rs(3,6,8)] obtain c' where c':
    "handler action c (Some r) = Ret (c', int (level c (objs c ! r)), None)" "book_ok c'"
    "l2_book c' = row_effect action (objs c ! r) (l2_book c)"
    "other_side_kept c c' (ord_Side (objs c ! r))" "uncached_kept c c'"
    "action \<noteq> UpdateAction \<Longrightarrow> objs c' = objs c"
    "action = InsertAction \<Longrightarrow> level_put (side_list c (ord_Side (objs c ! r)))
         (side_list c' (ord_Side (objs c ! r))) (ord_Price (objs c ! r)) (level c (objs c ! r))"
    "action = DeleteAction \<Longrightarrow> level_put (side_list c' (ord_Side (objs c ! r)))
         (side_list c (ord_Side (objs c ! r))) (ord_Price (objs c ! r)) (level c (objs c ! r))"
    "action = UpdateAction \<Longrightarrow> l2_get c' = l2_get c
         \<and> side_list c' (ord_Side (objs c ! r)) = side_list c (ord_Side (objs c ! r))"
    "quote_ok c \<longrightarrow> quote_ok c'"
    using action by fastforce
  have same: "objs c' ! x = objs c ! x" if "x \<in> insert r (set rs)" for x
    using c'(5,6) rs(11) that by (cases "action = UpdateAction") (auto simp: uncached_kept_def)
  have same': "map (\<lambda>r. objs c' ! r) rs = map (\<lambda>r. objs c ! r) rs" using same by simp
  have len: "length (objs c') = length (objs c)" "realtime c' = realtime c"
    using c'(4) by (auto simp: other_side_kept_def)
  have "rows_ok action (l2_book c') (map (\<lambda>r. objs c' ! r) rs)"
    "fold (row_effect action) (map (\<lambda>r. objs c' ! r) rs) (l2_book c') = goal"
    unfolding same' c'(3) by (rule rs(9), rule rs(10))
  then have "rows_inv action rt q goal c' rest"
    unfolding rows_inv_def
    using rs(2,4,5,7,11) c'(2,9,10) len by (intro exI [of _ rs]) auto
  then show ?thesis
    using rs(1,3,6,8) c' same [of r] by (intro exI [of _ c'] exI [of _ r]) auto
qed

section \<open>A reader of the published messages\<close>

definition rows_of :: "mbl \<Rightarrow> mbl_msg \<Rightarrow> orderL2 list" where
  "rows_of c m = map (\<lambda>ref. objs c ! the ref) (Data m)"

definition read_msg :: "mbl \<Rightarrow> mbl_msg \<Rightarrow> book \<Rightarrow> book" where
  "read_msg c m b = fold (row_effect (Action m)) (rows_of c m) b"

definition read_pubs :: "mbl \<Rightarrow> int \<Rightarrow> pubs \<Rightarrow> book \<Rightarrow> book" where
  "read_pubs c depth ps b = fold (read_msg c) (map snd (filter (\<lambda>p. fst p = depth) ps)) b"

lemma rows_of_add [simp]: "rows_of c (add_row ref m) = rows_of c m @ [objs c ! the ref]"
  by (simp add: rows_of_def add_row_def)

lemma add_row_simps [simp]: "Action (add_row ref m) = Action m" "Table (add_row ref m) = Table m"
  "Data (add_row ref m) = Data m @ [ref]"
  by (simp_all add: add_row_def)

lemma rows_of_objs: "objs c' = objs c \<Longrightarrow> rows_of c' m = rows_of c m"
  by (simp add: rows_of_def)

lemma read_add [simp]: "read_msg c (add_row ref m) b = row_effect (Action m) (objs c ! the ref) (read_msg c m b)"
  by (simp add: read_msg_def)

lemma read_deletes:
  "Action m = DeleteAction \<Longrightarrow> read_msg c m b = (\<lambda>x. if x \<in> ord_Price ` set (rows_of c m) then None else b x)"
proof -
  have "fold (row_effect DeleteAction) os b = (\<lambda>x. if x \<in> ord_Price ` set os then None else b x)" for os b
    by (induction os arbitrary: b) (auto simp: row_effect_def fun_eq_iff)
  then show "Action m = DeleteAction \<Longrightarrow> ?thesis" by (simp add: read_msg_def)
qed

lemma read_empty [simp]: "Data m = [] \<Longrightarrow> read_msg c m b = b"
  by (simp add: read_msg_def rows_of_def)

lemma emptyResponse_simps [simp]:
  "Data emptyResponse = []" "Table emptyResponse = []" "Action emptyResponse = []"
  by (simp_all add: emptyResponse_def emptyTable_def tableResponse.defs dataResponse.defs)

section \<open>Inserted rows in a limited channel\<close>

definition inserted_entry :: "(nat \<Rightarrow> book) \<Rightarrow> mbl \<Rightarrow> int \<times> mbl_msg \<times> mbl_msg option \<Rightarrow> bool" where
  "inserted_entry old c e = (case e of (limit, rsp, makeup) \<Rightarrow> 0 < limit \<longrightarrow>
     Action rsp = InsertAction \<and> (\<exists>m. makeup = Some m \<and> Action m = DeleteAction
       \<and> (\<forall>o'\<in>set (rows_of c m). l2_book c (ord_Price o') \<noteq> None)
       \<and> read_msg c m (read_msg c rsp (old (nat limit))) = view (nat limit) c))"

lemma inserted_entry_step:
  assumes ent: "inserted_entry old c e" and ok: "book_ok c" "book_ok c'"
    and r: "r < length (objs c)" "o' = objs c ! r" and objs: "objs c' = objs c"
    and book: "l2_book c' = (l2_book c)(ord_Price o' \<mapsto> o')" and new: "l2_book c (ord_Price o') = None"
    and s: "valid_side (ord_Side o')" and other: "other_side_kept c c' (ord_Side o')"
    and put: "level_put (side_list c (ord_Side o')) (side_list c' (ord_Side o')) (ord_Price o') d"
  shows "\<exists>e'. (if int d \<le> fst e then limit_makeup 1 c' (Some r) e else Ret e) = Ret e'
    \<and> fst e' = fst e \<and> inserted_entry old c' e'"
proof -
  obtain limit rsp makeup where e: "e = (limit, rsp, makeup)" by (cases e)
  define n where "n = nat limit"
  define ys where "ys = side_list c' (ord_Side o')"
  have d: "0 < d" using level_put_length [OF put] by simp
  show ?thesis
  proof (cases "int d \<le> limit")
    case False
    have "view n c' = view n c" if "0 < limit"
    proof (rule view_far [OF ok s other, where p = "ord_Price o'"])
      show "topn n (side_list c' (ord_Side o')) = topn n (side_list c (ord_Side o'))"
        by (rule level_put_far [OF put]) (use False that in \<open>simp add: n_def\<close>)
    qed (simp_all add: book new)
    then have "inserted_entry old c' e"
      using ent by (auto simp: inserted_entry_def e n_def read_msg_def rows_of_objs [OF objs] book)
    then show ?thesis using False by (simp add: e)
  next
    case True
    then have n: "limit = int n" "d \<le> n" "0 < n" using d by (simp_all add: n_def)
    have "Action rsp = InsertAction \<and> (\<exists>m. makeup = Some m \<and> Action m = DeleteAction
       \<and> (\<forall>o'\<in>set (rows_of c m). l2_book c (ord_Price o') \<noteq> None)
       \<and> read_msg c m (read_msg c rsp (old n)) = view n c)"
      using ent n(1,3) by (simp add: inserted_entry_def e)
    then obtain m where m: "makeup = Some m" "Action m = DeleteAction" "Action rsp = InsertAction"
      "\<forall>o'\<in>set (rows_of c m). l2_book c (ord_Price o') \<noteq> None"
      "read_msg c m (read_msg c rsp (old n)) = view n c"
      by blast
    note vn = view_near [OF ok s other put n(2) book new]
    have fresh: "ord_Price o' \<notin> ord_Price ` set (rows_of c m)" using m(4) new by auto
    have rd: "read_msg c m ((read_msg c rsp (old n))(ord_Price o' \<mapsto> o')) = (view n c)(ord_Price o' \<mapsto> o')"
      using fresh by (simp add: m(5) [symmetric] read_deletes [OF m(2)] fun_eq_iff)
    have ld: "load c' (Some r) = Ret o'" using r objs by (simp add: load_def)
    have get: "GetOrderOnDepth c' (ord_Side o') (limit + 1) =
        Ret (if n < length ys then l2_get c' (ys ! (length ys - Suc n)) else None)"
      using GetOrderOnDepth_level [OF s, of "Suc n" c'] by (simp add: n ys_def Suc_le_eq add.commute)
    have rm: "read_msg c' x = read_msg c x" for x
      by (rule ext) (simp add: read_msg_def rows_of_objs [OF objs])
    have ins: "row_effect InsertAction (objs c ! r) b = b(ord_Price o' \<mapsto> o')" for b
      using r by (simp add: row_effect_def)
    show ?thesis
    proof (cases "n < length ys")
      case False
      have "inserted_entry old c' (limit, add_row (Some r) rsp, makeup)"
        using vn(1) rd False m n
        by (simp add: inserted_entry_def ys_def rm ins objs rows_of_objs [OF objs] book)
      then show ?thesis using False True by (simp add: e limit_makeup_def ld get)
    next
      case inside: True
      let ?out = "ys ! (length ys - Suc n)"
      have out: "?out \<noteq> ord_Price o'" "?out \<in> set ys" using vn(2) inside by (simp_all add: ys_def)
      then obtain x where x: "l2_book c' ?out = Some x"
        using book_ok_set [OF ok(2) s] by (auto simp: ys_def book_prices_def)
      from l2_book_objs [OF ok(2) x] obtain k where k: "l2_get c' ?out = Some k" "x = objs c' ! k" "ord_Price x = ?out"
        by blast
      have del: "row_effect DeleteAction (objs c ! k) b = b(?out := None)" for b
        using k objs by (simp add: row_effect_def)
      have "inserted_entry old c' (limit, add_row (Some r) rsp, Some (add_row (Some k) m))"
        using vn(1) [folded ys_def] rd inside m n k(3) x out(1)
        by (simp add: inserted_entry_def rm ins del objs k(2) rows_of_objs [OF objs] book)
      then show ?thesis using inside True by (simp add: e limit_makeup_def ld get k m(1))
    qed
  qed
qed

section \<open>The publications at one depth\<close>

lemma IsQuoteChange_keeps:
  "objs (fst (IsQuoteChange c)) = objs c" "l2_book (fst (IsQuoteChange c)) = l2_book c"
  "side_list (fst (IsQuoteChange c)) s = side_list c s" "l2_get (fst (IsQuoteChange c)) = l2_get c"
  "l2Cache (fst (IsQuoteChange c)) = l2Cache c" "realtime (fst (IsQuoteChange c)) = realtime c"
  "bestPrice (side_quote (fst (IsQuoteChange c)) s) = bestPrice (side_quote c s)"
  "bestSize (side_quote (fst (IsQuoteChange c)) s) = bestSize (side_quote c s)"
  by (auto simp: IsQuoteChange_def Let_def side_list_def side_quote_def l2_book_def l2_get_def fun_eq_iff)

lemma book_ok_cong:
  assumes "objs c' = objs c" "l2Cache c' = l2Cache c" "\<And>s. side_list c' s = side_list c s"
  shows "book_ok c' = book_ok c" "l2_book c' = l2_book c"
proof -
  have g: "l2_get c' = l2_get c" using assms(2) by (simp add: l2_get_def fun_eq_iff)
  then show "l2_book c' = l2_book c" using assms(1) by (simp add: l2_book_def fun_eq_iff)
  then show "book_ok c' = book_ok c" using assms g by (simp add: book_ok_def levels_ok_def)
qed

lemma view_cong:
  assumes "l2_book c' = l2_book c" "\<And>s. side_list c' s = side_list c s"
  shows "view n c' = view n c"
  using assms(2) [of "''Buy''"] assms(2) [of "''Sell''"]
  by (simp add: view_def view_prices_def assms(1) fun_eq_iff)

lemma filter_single_depth:
  assumes "distinct ds" "d \<in> set ds" "\<And>x. x \<in> set ds \<Longrightarrow> \<forall>p\<in>set (f x). fst p = x"
  shows "filter (\<lambda>p. fst p = d) (concat (map f ds)) = f d"
proof -
  have none: "filter (\<lambda>p. fst p = d) (f x) = []" if "x \<in> set ds" "x \<noteq> d" for x
    using assms(3) [OF that(1)] that(2) by (auto simp: filter_empty_conv)
  have all: "filter (\<lambda>p. fst p = d) (f d) = f d"
    using assms(2,3) by (auto simp: filter_id_conv)
  have nil: "filter (\<lambda>p. fst p = d) (concat (map f xs)) = []" if "set xs \<subseteq> set ds" "d \<notin> set xs" for xs
    using that none by (induction xs) auto
  from split_list [OF assms(2)] obtain xs ys where ds: "ds = xs @ d # ys" by blast
  with assms(1) have "d \<notin> set xs" "d \<notin> set ys" by auto
  then have "filter (\<lambda>p. fst p = d) (concat (map f xs)) = []" "filter (\<lambda>p. fst p = d) (concat (map f ys)) = []"
    by (auto intro!: nil simp: ds)
  then show ?thesis using all by (simp add: ds)
qed

lemma publish_limited_read:
  "fold (read_msg c) (map snd (publish_limited d (rsp, makeup))) b =
    (case makeup of None \<Rightarrow> read_msg c rsp b | Some m \<Rightarrow> read_msg c m (read_msg c rsp b))"
proof -
  have t: "read_msg c (r\<lparr>Table := t\<rparr>) b = read_msg c r b" for r t b
    by (simp add: read_msg_def rows_of_def)
  show ?thesis by (auto simp: publish_limited_def t split: option.splits)
qed

text \<open>What a reader of a limited channel sees of a dispatch, and a reader of the full one.\<close>

lemma dispatchRsp_limited:
  assumes "distinct (gokeys (realtime c))" "d \<in> set (gokeys (realtime c))" "d \<noteq> 0"
    "map_of limits d = Some (rsp, makeup)"
  shows "read_pubs c d (snd (dispatchRsp c data (Some limits))) b =
    (case makeup of None \<Rightarrow> read_msg c rsp b | Some m \<Rightarrow> read_msg c m (read_msg c rsp b))"
proof -
  let ?f = "\<lambda>depth. if depth = 0 then [(0, data)]
     else (case map_of limits depth of None \<Rightarrow> [] | Some rspList \<Rightarrow> publish_limited depth rspList)"
  have "filter (\<lambda>p. fst p = d) (concat (map ?f (gokeys (realtime c)))) = ?f d"
    by (rule filter_single_depth [OF assms(1,2)])
      (auto simp: publish_limited_def split: option.splits prod.splits)
  then show ?thesis using assms(3,4)
    by (simp add: read_pubs_def dispatchRsp_def publish_limited_read)
qed

lemma dispatchRsp_full:
  assumes "distinct (gokeys (realtime c))" "0 \<in> set (gokeys (realtime c))"
  shows "filter (\<lambda>p. fst p = 0) (snd (dispatchRsp c data (Some limits))) = [(0, data)]"
proof -
  let ?f = "\<lambda>depth. if depth = 0 then [(0, data)]
     else (case map_of limits depth of None \<Rightarrow> [] | Some rspList \<Rightarrow> publish_limited depth rspList)"
  have "filter (\<lambda>p. fst p = 0) (concat (map ?f (gokeys (realtime c)))) = ?f 0"
    by (rule filter_single_depth [OF assms])
      (auto simp: publish_limited_def split: option.splits prod.splits)
  then show ?thesis by (simp add: dispatchRsp_def)
qed

section \<open>Applying a change\<close>

lemma limit_responses_keys: "map fst (limit_responses c data) = filter (\<lambda>d. d \<noteq> 0) (gokeys (realtime c))"
  by (simp add: limit_responses_def comp_def)

lemma applyChange_loop:
  assumes "Action data = DeleteAction \<or> Action data = InsertAction \<or> Action data = UpdateAction"
  shows "applyChange c data = apply_rows (handler (Action data))
    (if Action data = DeleteAction then limit_makeup 0 else if Action data = InsertAction then limit_makeup 1
     else limit_plain) c (limit_responses c data) (Data data)"
  using assms by (auto simp: applyChange_def handler_def)

text \<open>The rows of a message that fit the book; the objects of an update are the message's own.\<close>

definition fits :: "mbl \<Rightarrow> mbl_msg \<Rightarrow> bool" where
  "fits c data \<longleftrightarrow> (Action data = DeleteAction \<or> Action data = InsertAction \<or> Action data = UpdateAction)
     \<and> (\<forall>ref\<in>set (Data data). \<exists>r<length (objs c). ref = Some r)
     \<and> rows_ok (Action data) (l2_book c) (rows_of c data)
     \<and> (Action data = UpdateAction \<longrightarrow> (\<forall>ref\<in>set (Data data). \<forall>p. l2_get c p \<noteq> ref))"

lemma fits_inv:
  assumes "fits c data" "book_ok c"
  shows "rows_inv (Action data) (realtime c) (quote_ok c) (read_msg c data (l2_book c)) c (Data data)"
proof -
  define rs where "rs = map the (Data data)"
  have ds: "Data data = map Some rs"
    using assms(1) by (auto simp: fits_def rs_def intro!: map_idI [symmetric])
  have "map (\<lambda>r. objs c ! r) rs = rows_of c data" by (simp add: rows_of_def rs_def)
  with assms ds show ?thesis
    by (auto simp: rows_inv_def fits_def read_msg_def intro!: exI [of _ rs])
qed

lemma rows_inv_done:
  "rows_inv action rt q goal c [] \<Longrightarrow> book_ok c \<and> (q \<longrightarrow> quote_ok c) \<and> l2_book c = goal \<and> realtime c = rt"
  by (auto simp: rows_inv_def)

lemma applyChange_insert:
  assumes "book_ok c" "fits c data" "Action data = InsertAction"
  shows "\<exists>c' limits. applyChange c data = Ret (c', Some limits, None) \<and> book_ok c'
    \<and> (quote_ok c \<longrightarrow> quote_ok c') \<and> l2_book c' = read_msg c data (l2_book c) \<and> realtime c' = realtime c
    \<and> map fst limits = filter (\<lambda>d. d \<noteq> 0) (gokeys (realtime c))
    \<and> (\<forall>e\<in>set limits. inserted_entry (\<lambda>n. view n c) c' e) \<and> objs c' = objs c"
proof -
  let ?I = "\<lambda>c' rows. rows_inv InsertAction (realtime c) (quote_ok c) (read_msg c data (l2_book c)) c' rows \<and> objs c' = objs c"
  let ?E = "inserted_entry (\<lambda>n. view n c)"
  have "\<exists>c' limits'. apply_rows handleInsert (limit_makeup 1) c (limit_responses c data) (Data data) = Ret (c', Some limits', None)
    \<and> ?I c' [] \<and> map fst limits' = map fst (limit_responses c data) \<and> (\<forall>e\<in>set limits'. ?E c' e)"
  proof (rule apply_rows_inv [where I = ?I])
    show "?I c (Data data)" using fits_inv [OF assms(2,1)] assms(3) by simp
    show "?E c e" if "e \<in> set (limit_responses c data)" for e
      using that assms(3)
      by (auto simp: limit_responses_def makeup_of_def inserted_entry_def action_defs rows_of_def)
    fix c1 ref rest assume inv: "?I c1 (ref # rest)"
    then have inv1: "rows_inv InsertAction (realtime c) (quote_ok c) (read_msg c data (l2_book c)) c1 (ref # rest)"
      and o1: "objs c1 = objs c" by simp_all
    from rows_inv_step [OF inv1] obtain c2 r where
      r: "ref = Some r" "r < length (objs c1)" "book_ok c1" "row_ok InsertAction (l2_book c1) (objs c1 ! r)"
      and h: "handleInsert c1 (Some r) = Ret (c2, int (level c1 (objs c1 ! r)), None)"
      and c2: "rows_inv InsertAction (realtime c) (quote_ok c) (read_msg c data (l2_book c)) c2 rest"
        "book_ok c2" "l2_book c2 = row_effect InsertAction (objs c1 ! r) (l2_book c1)"
        "other_side_kept c1 c2 (ord_Side (objs c1 ! r))" "objs c2 = objs c1"
        "level_put (side_list c1 (ord_Side (objs c1 ! r))) (side_list c2 (ord_Side (objs c1 ! r)))
           (ord_Price (objs c1 ! r)) (level c1 (objs c1 ! r))"
      by (auto simp: handler_def)
    have new: "l2_book c1 (ord_Price (objs c1 ! r)) = None" and vs: "valid_side (ord_Side (objs c1 ! r))"
      using r(4) by (auto simp: row_ok_def)
    have eff: "l2_book c2 = (l2_book c1)(ord_Price (objs c1 ! r) \<mapsto> objs c1 ! r)"
      using c2(3) by (simp add: row_effect_def)
    have "\<exists>e'. (if int (level c1 (objs c1 ! r)) \<le> fst e then limit_makeup 1 c2 (Some r) e else Ret e) = Ret e'
        \<and> fst e' = fst e \<and> ?E c2 e'" if "?E c1 e" for e
      by (rule inserted_entry_step [OF that r(3) c2(2) r(2) refl c2(5) eff new vs c2(4) c2(6)])
    then show "\<exists>c' d. handleInsert c1 ref = Ret (c', d, None) \<and> ?I c' rest
      \<and> (\<forall>e. ?E c1 e \<longrightarrow> (\<exists>e'. (if d \<le> fst e then limit_makeup 1 c' ref e else Ret e) = Ret e' \<and> fst e' = fst e \<and> ?E c' e'))"
      using h c2(1,5) o1 unfolding r(1) by (intro exI [of _ c2] exI [of _ "int (level c1 (objs c1 ! r))"]) simp
  qed
  then obtain c' limits where res:
    "apply_rows handleInsert (limit_makeup 1) c (limit_responses c data) (Data data) = Ret (c', Some limits, None)"
    "?I c' []" "map fst limits = map fst (limit_responses c data)" "\<forall>e\<in>set limits. ?E c' e" by blast
  moreover have "applyChange c data = Ret (c', Some limits, None)"
    using res(1) assms(3) by (simp add: applyChange_def)
  ultimately show ?thesis
    using rows_inv_done [of InsertAction "realtime c" "quote_ok c" "read_msg c data (l2_book c)" c']
    by (intro exI [of _ c'] exI [of _ limits]) (simp add: limit_responses_keys)
qed

text \<open>A reader of a limited channel who had the \<open>n\<close> best levels before has them after.\<close>

definition depths_ok :: "mbl \<Rightarrow> bool" where
  "depths_ok c \<longleftrightarrow> distinct (gokeys (realtime c)) \<and> 0 \<in> set (gokeys (realtime c))"

lemma limits_at:
  assumes "depths_ok c" "map fst limits = filter (\<lambda>d. d \<noteq> 0) (gokeys (realtime c))"
    "d \<in> set (gokeys (realtime c))" "d \<noteq> 0"
  shows "\<exists>rsp makeup. map_of limits d = Some (rsp, makeup) \<and> (d, rsp, makeup) \<in> set limits"
proof -
  have "d \<in> fst ` set limits" using assms(2,3,4) by (metis (mono_tags) list.set_map mem_Collect_eq set_filter)
  then obtain e where e: "map_of limits d = Some e" by (metis (no_types) map_of_eq_None_iff not_None_eq)
  then show ?thesis by (cases e) (auto dest: map_of_SomeD)
qed

lemma read_msg_objs: "objs c' = objs c \<Longrightarrow> read_msg c' = read_msg c"
  by (simp add: fun_eq_iff read_msg_def rows_of_def)

definition entry_reads :: "mbl \<Rightarrow> book \<Rightarrow> mbl_msg \<times> mbl_msg option \<Rightarrow> book" where
  "entry_reads c b e = (case e of (rsp, makeup) \<Rightarrow>
     (case makeup of None \<Rightarrow> read_msg c rsp b | Some m \<Rightarrow> read_msg c m (read_msg c rsp b)))"

lemma dispatch_reader:
  assumes "depths_ok c" "book_ok c" "map fst limits = filter (\<lambda>d. d \<noteq> 0) (gokeys (realtime c))"
    and n: "0 < n" "int n \<in> set (gokeys (realtime c))"
    and ent: "\<And>rl. (int n, rl) \<in> set limits \<Longrightarrow> entry_reads c b rl = view n c"
  shows "case dispatchRsp c data (Some limits) of (c', ps) \<Rightarrow>
    book_ok c' \<and> l2_book c' = l2_book c \<and> read_pubs c' (int n) ps b = view n c'
    \<and> filter (\<lambda>p. fst p = 0) ps = [(0, data)]"
proof -
  obtain c' ps where d: "dispatchRsp c data (Some limits) = (c', ps)" by fastforce
  have c': "c' = fst (IsQuoteChange c)" using d by (simp add: dispatchRsp_def)
  from limits_at [OF assms(1,3) n(2)] n(1) obtain rsp makeup where
    m: "map_of limits (int n) = Some (rsp, makeup)" "(int n, rsp, makeup) \<in> set limits" by auto
  have "read_pubs c (int n) ps b = entry_reads c b (rsp, makeup)"
    using dispatchRsp_limited [of c "int n" limits rsp makeup data b] assms(1) n m(1) d
    by (simp add: depths_ok_def entry_reads_def)
  then have "read_pubs c (int n) ps b = view n c" using ent [OF m(2)] by simp
  moreover have "view n c' = view n c"
    unfolding c' by (rule view_cong) (simp_all add: IsQuoteChange_keeps)
  moreover have "read_msg c' = read_msg c" unfolding c' by (rule read_msg_objs) (rule IsQuoteChange_keeps(1))
  then have "read_pubs c' (int n) ps b = read_pubs c (int n) ps b" by (simp add: read_pubs_def)
  moreover have "book_ok c'" "l2_book c' = l2_book c"
    unfolding c' using assms(2) book_ok_cong [of "fst (IsQuoteChange c)" c, OF IsQuoteChange_keeps(1,5,3)]
    by simp_all
  moreover have "filter (\<lambda>p. fst p = 0) ps = [(0, data)]"
    using dispatchRsp_full [of c data limits] assms(1) d by (simp add: depths_ok_def)
  ultimately show ?thesis using d by simp
qed

lemma view_after_insert:
  assumes ok: "book_ok c" "depths_ok c" "fits c data" "Action data = InsertAction"
    and n: "0 < n" "int n \<in> set (gokeys (realtime c))"
  shows "\<exists>c1 limits. applyChange c data = Ret (c1, Some limits, None)
    \<and> (case dispatchRsp c1 data (Some limits) of (c', ps) \<Rightarrow>
         book_ok c' \<and> l2_book c' = read_msg c data (l2_book c)
         \<and> read_pubs c' (int n) ps (view n c) = view n c' \<and> filter (\<lambda>p. fst p = 0) ps = [(0, data)])"
proof -
  from applyChange_insert [OF ok(1,3,4)] obtain c1 limits where a:
    "applyChange c data = Ret (c1, Some limits, None)" "book_ok c1" "realtime c1 = realtime c"
    "map fst limits = filter (\<lambda>d. d \<noteq> 0) (gokeys (realtime c))"
    "\<forall>e\<in>set limits. inserted_entry (\<lambda>n. view n c) c1 e" "l2_book c1 = read_msg c data (l2_book c)" by blast
  have "entry_reads c1 (view n c) rl = view n c1" if "(int n, rl) \<in> set limits" for rl
    using a(5) that n(1) by (cases rl) (auto simp: inserted_entry_def entry_reads_def dest: bspec)
  from dispatch_reader [OF _ a(2) _ n(1) _ this, where data = data] show ?thesis
    using a ok(2) n(2) by (intro exI [of _ c1] exI [of _ limits]) (simp add: depths_ok_def split: prod.splits)
qed

section \<open>Deleted rows in a limited channel\<close>

text \<open>
  The reader applies all deletions of a batch, then all insertions that fill the gaps. That
  is the new view as long as no order that moved up was itself deleted later in the batch.
\<close>

lemma read_inserts_other:
  assumes "Action m = InsertAction" "p \<notin> ord_Price ` set (rows_of c m)"
  shows "read_msg c m (b(p := v)) = (read_msg c m b)(p := v)"
proof -
  have "p \<notin> ord_Price ` set os \<Longrightarrow> fold (row_effect InsertAction) os (b(p := v)) = (fold (row_effect InsertAction) os b)(p := v)"
    for os b by (induction os arbitrary: b) (auto simp: row_effect_def fun_upd_twist [of p])
  then show ?thesis using assms by (simp add: read_msg_def)
qed

definition deleted_entry :: "(nat \<Rightarrow> book) \<Rightarrow> mbl \<Rightarrow> int \<times> mbl_msg \<times> mbl_msg option \<Rightarrow> bool" where
  "deleted_entry old c e = (case e of (limit, rsp, makeup) \<Rightarrow> 0 < limit \<longrightarrow>
     Action rsp = DeleteAction \<and> (\<exists>m. makeup = Some m \<and> Action m = InsertAction
       \<and> (ord_Price ` set (rows_of c m) \<inter> ord_Price ` set (rows_of c rsp) = {}
            \<longrightarrow> read_msg c m (read_msg c rsp (old (nat limit))) = view (nat limit) c)))"

lemma deleted_entry_step:
  assumes ent: "deleted_entry old c e" and ok: "book_ok c" "book_ok c'"
    and r: "r < length (objs c)" "o' = objs c ! r" and objs: "objs c' = objs c"
    and book: "l2_book c' = (l2_book c)(ord_Price o' := None)"
    and s: "valid_side (ord_Side o')" and other: "other_side_kept c c' (ord_Side o')"
    and put: "level_put (side_list c' (ord_Side o')) (side_list c (ord_Side o')) (ord_Price o') d"
  shows "\<exists>e'. (if int d \<le> fst e then limit_makeup 0 c' (Some r) e else Ret e) = Ret e'
    \<and> fst e' = fst e \<and> deleted_entry old c' e'"
proof -
  obtain limit rsp makeup where e: "e = (limit, rsp, makeup)" by (cases e)
  define n where "n = nat limit"
  define ys where "ys = side_list c' (ord_Side o')"
  have d: "0 < d" using level_put_length [OF put] by simp
  have rm: "read_msg c' = read_msg c" "rows_of c' = rows_of c"
    using read_msg_objs [OF objs] rows_of_objs [OF objs] by auto
  show ?thesis
  proof (cases "int d \<le> limit")
    case False
    have "view n c' = view n c" if "0 < limit"
    proof (rule view_far [OF ok s other, where p = "ord_Price o'"])
      show "topn n (side_list c' (ord_Side o')) = topn n (side_list c (ord_Side o'))"
        by (rule level_put_far [OF put, symmetric]) (use False that in \<open>simp add: n_def\<close>)
    qed (simp_all add: book)
    then have "deleted_entry old c' e"
      using ent by (auto simp: deleted_entry_def e n_def rm)
    then show ?thesis using False by (simp add: e)
  next
    case True
    then have n: "limit = int n" "d \<le> n" "0 < n" using d by (simp_all add: n_def)
    have "Action rsp = DeleteAction \<and> (\<exists>m. makeup = Some m \<and> Action m = InsertAction
       \<and> (ord_Price ` set (rows_of c m) \<inter> ord_Price ` set (rows_of c rsp) = {}
            \<longrightarrow> read_msg c m (read_msg c rsp (old n)) = view n c))"
      using ent n(1,3) by (simp add: deleted_entry_def e)
    then obtain m where m: "makeup = Some m" "Action m = InsertAction" "Action rsp = DeleteAction"
      "ord_Price ` set (rows_of c m) \<inter> ord_Price ` set (rows_of c rsp) = {}
        \<Longrightarrow> read_msg c m (read_msg c rsp (old n)) = view n c"
      by blast
    have vn: "view n c' = (if n \<le> length ys
        then ((view n c)(ord_Price o' := None))(ys ! (length ys - n) := l2_book c' (ys ! (length ys - n)))
        else (view n c)(ord_Price o' := None))"
      unfolding ys_def by (rule view_gone [OF ok s other put n(2) book])
    have ld: "load c' (Some r) = Ret o'" using r objs by (simp add: load_def)
    have get: "GetOrderOnDepth c' (ord_Side o') (limit + 0) =
        Ret (if n \<le> length ys then l2_get c' (ys ! (length ys - n)) else None)"
      using GetOrderOnDepth_level [OF s n(3), of c'] by (simp add: n(1) ys_def)
    have del: "row_effect DeleteAction (objs c ! r) b = b(ord_Price o' := None)" for b
      using r by (simp add: row_effect_def)
    have rd: "read_msg c m ((read_msg c rsp (old n))(ord_Price o' := None)) = (view n c)(ord_Price o' := None)"
      if "ord_Price ` set (rows_of c m) \<inter> insert (ord_Price o') (ord_Price ` set (rows_of c rsp)) = {}"
      using that m(4) by (subst read_inserts_other [OF m(2)]) auto
    show ?thesis
    proof (cases "n \<le> length ys")
      case False
      have "deleted_entry old c' (limit, add_row (Some r) rsp, makeup)"
        using vn rd False m(1,2,3) n r by (simp add: deleted_entry_def rm del objs)
      then show ?thesis using False True by (simp add: e limit_makeup_def ld get [simplified])
    next
      case inside: True
      let ?in = "ys ! (length ys - n)"
      have "?in \<in> set ys" using inside n(3) by simp
      then obtain x where x: "l2_book c' ?in = Some x"
        using book_ok_set [OF ok(2) s] by (auto simp: ys_def book_prices_def)
      from l2_book_objs [OF ok(2) x] obtain k where k: "l2_get c' ?in = Some k" "x = objs c' ! k" "ord_Price x = ?in"
        by blast
      have ins: "row_effect InsertAction (objs c ! k) b = b(?in \<mapsto> x)" for b
        using k objs by (simp add: row_effect_def)
      have px: "ord_Price (objs c ! k) = ?in" using k objs by simp
      have "deleted_entry old c' (limit, add_row (Some r) rsp, Some (add_row (Some k) m))"
        using vn rd inside m(1,2,3) n r x px by (simp add: deleted_entry_def rm ins del objs)
      then show ?thesis using inside True by (simp add: e limit_makeup_def ld get [simplified] k m(1))
    qed
  qed
qed

lemma applyChange_delete:
  assumes "book_ok c" "fits c data" "Action data = DeleteAction"
  shows "\<exists>c' limits. applyChange c data = Ret (c', Some limits, None) \<and> book_ok c'
    \<and> (quote_ok c \<longrightarrow> quote_ok c') \<and> l2_book c' = read_msg c data (l2_book c) \<and> realtime c' = realtime c
    \<and> map fst limits = filter (\<lambda>d. d \<noteq> 0) (gokeys (realtime c))
    \<and> (\<forall>e\<in>set limits. deleted_entry (\<lambda>n. view n c) c' e) \<and> objs c' = objs c"
proof -
  let ?I = "\<lambda>c' rows. rows_inv DeleteAction (realtime c) (quote_ok c) (read_msg c data (l2_book c)) c' rows \<and> objs c' = objs c"
  let ?E = "deleted_entry (\<lambda>n. view n c)"
  have "\<exists>c' limits'. apply_rows handleDelete (limit_makeup 0) c (limit_responses c data) (Data data) = Ret (c', Some limits', None)
    \<and> ?I c' [] \<and> map fst limits' = map fst (limit_responses c data) \<and> (\<forall>e\<in>set limits'. ?E c' e)"
  proof (rule apply_rows_inv [where I = ?I])
    show "?I c (Data data)" using fits_inv [OF assms(2,1)] assms(3) by simp
    show "?E c e" if "e \<in> set (limit_responses c data)" for e
      using that assms(3)
      by (auto simp: limit_responses_def makeup_of_def deleted_entry_def action_defs)
    fix c1 ref rest assume inv: "?I c1 (ref # rest)"
    then have inv1: "rows_inv DeleteAction (realtime c) (quote_ok c) (read_msg c data (l2_book c)) c1 (ref # rest)"
      and o1: "objs c1 = objs c" by simp_all
    from rows_inv_step [OF inv1] obtain c2 r where
      r: "ref = Some r" "r < length (objs c1)" "book_ok c1" "row_ok DeleteAction (l2_book c1) (objs c1 ! r)"
      and h: "handleDelete c1 (Some r) = Ret (c2, int (level c1 (objs c1 ! r)), None)"
      and c2: "rows_inv DeleteAction (realtime c) (quote_ok c) (read_msg c data (l2_book c)) c2 rest"
        "book_ok c2" "l2_book c2 = row_effect DeleteAction (objs c1 ! r) (l2_book c1)"
        "other_side_kept c1 c2 (ord_Side (objs c1 ! r))" "objs c2 = objs c1"
        "level_put (side_list c2 (ord_Side (objs c1 ! r))) (side_list c1 (ord_Side (objs c1 ! r)))
           (ord_Price (objs c1 ! r)) (level c1 (objs c1 ! r))"
      by (auto simp: handler_def)
    have vs: "valid_side (ord_Side (objs c1 ! r))" using r(4) by (simp add: row_ok_def)
    have eff: "l2_book c2 = (l2_book c1)(ord_Price (objs c1 ! r) := None)"
      using c2(3) by (simp add: row_effect_def)
    have "\<exists>e'. (if int (level c1 (objs c1 ! r)) \<le> fst e then limit_makeup 0 c2 (Some r) e else Ret e) = Ret e'
        \<and> fst e' = fst e \<and> ?E c2 e'" if "?E c1 e" for e
      by (rule deleted_entry_step [OF that r(3) c2(2) r(2) refl c2(5) eff vs c2(4) c2(6)])
    then show "\<exists>c' d. handleDelete c1 ref = Ret (c', d, None) \<and> ?I c' rest
      \<and> (\<forall>e. ?E c1 e \<longrightarrow> (\<exists>e'. (if d \<le> fst e then limit_makeup 0 c' ref e else Ret e) = Ret e' \<and> fst e' = fst e \<and> ?E c' e'))"
      using h c2(1,5) o1 unfolding r(1) by (intro exI [of _ c2] exI [of _ "int (level c1 (objs c1 ! r))"]) simp
  qed
  then obtain c' limits where res:
    "apply_rows handleDelete (limit_makeup 0) c (limit_responses c data) (Data data) = Ret (c', Some limits, None)"
    "?I c' []" "map fst limits = map fst (limit_responses c data)" "\<forall>e\<in>set limits. ?E c' e" by blast
  moreover have "applyChange c data = Ret (c', Some limits, None)"
    using res(1) assms(3) by (simp add: applyChange_def)
  ultimately show ?thesis
    using rows_inv_done [of DeleteAction "realtime c" "quote_ok c" "read_msg c data (l2_book c)" c']
    by (intro exI [of _ c'] exI [of _ limits]) (simp add: limit_responses_keys)
qed

section \<open>Updated rows in a limited channel\<close>

lemma in_topn_level:
  assumes "book_ok c" "valid_side s" "p \<in> set (side_list c s)"
  shows "p \<in> set (topn n (side_list c s)) \<longleftrightarrow> level_of s (set (side_list c s)) p \<le> n"
proof -
  let ?xs = "side_list c s"
  from side_search_level [OF assms(2) book_ok_sorted [OF assms(1,2)] assms(3)] obtain i where
    i: "i < length ?xs" "?xs ! i = p" "length ?xs - i = level_of s (set ?xs) p" by blast
  have "p \<in> set (drop k ?xs) \<longleftrightarrow> k \<le> i" for k
  proof
    assume "p \<in> set (drop k ?xs)"
    then obtain j where "j < length ?xs - k" "p = ?xs ! (k + j)" by (auto simp: in_set_conv_nth)
    then have "k + j = i" using i side_distinct [OF assms(1,2)] by (auto simp: nth_eq_iff_index_eq)
    then show "k \<le> i" by simp
  next
    assume "k \<le> i"
    then have "drop k ?xs ! (i - k) = p" "i - k < length (drop k ?xs)" using i(1,2) by simp_all
    then show "p \<in> set (drop k ?xs)" by (metis nth_mem)
  qed
  then have "p \<in> set (topn n ?xs) \<longleftrightarrow> length ?xs - n \<le> i" by (simp only: topn_def)
  also have "\<dots> \<longleftrightarrow> length ?xs - i \<le> n" by linarith
  finally show ?thesis by (simp only: i(3))
qed

definition updated_entry :: "(nat \<Rightarrow> book) \<Rightarrow> mbl \<Rightarrow> int \<times> mbl_msg \<times> mbl_msg option \<Rightarrow> bool" where
  "updated_entry old c e = (case e of (limit, rsp, makeup) \<Rightarrow> 0 < limit \<longrightarrow>
     Action rsp = UpdateAction \<and> makeup = None
       \<and> (\<forall>ref\<in>set (Data rsp). ref \<noteq> None \<and> (\<forall>p. l2_get c p \<noteq> ref))
       \<and> read_msg c rsp (old (nat limit)) = view (nat limit) c)"

lemma updated_entry_step:
  assumes ent: "updated_entry old c e" and ok: "book_ok c" "book_ok c'"
    and r: "r < length (objs c)" "o' = objs c ! r" "objs c' ! r = o'" "\<forall>p. l2_get c p \<noteq> Some r"
    and kept: "uncached_kept c c'" "l2_get c' = l2_get c"
    and there: "l2_book c (ord_Price o') = Some x" "ord_Side x = ord_Side o'"
    and book: "l2_book c' = (l2_book c)(ord_Price o' \<mapsto> x\<lparr>ord_Size := ord_Size o'\<rparr>)"
    and s: "valid_side (ord_Side o')" and other: "other_side_kept c c' (ord_Side o')"
    and same: "side_list c' (ord_Side o') = side_list c (ord_Side o')" and d: "d = level c o'"
  shows "\<exists>e'. (if int d \<le> fst e then limit_plain c' (Some r) e else Ret e) = Ret e'
    \<and> fst e' = fst e \<and> updated_entry old c' e'"
proof -
  obtain limit rsp makeup where e: "e = (limit, rsp, makeup)" by (cases e)
  define n where "n = nat limit"
  let ?t = "if ord_Side o' = ''Buy'' then ''Sell'' else ''Buy''"
  have inl: "ord_Price o' \<in> set (side_list c (ord_Side o'))"
    using book_ok_set [OF ok(1) s] there by (auto simp: book_prices_def)
  have "d \<noteq> 0" by (simp add: d level_def level_of_def)
  have vp: "view_prices n c' = view_prices n c"
    using view_prices_sides [OF s, of n c] view_prices_sides [OF s, of n c'] same other_side [OF other s] by simp
  have lvl: "ord_Price o' \<in> view_prices n c \<longleftrightarrow> d \<le> n"
  proof -
    have "ord_Price o' \<notin> set (side_list c ?t)"
      using side_disjoint [OF ok(1)] inl s by (auto simp: valid_side_def)
    then have "ord_Price o' \<notin> set (topn n (side_list c ?t))" using set_topn_subset by fast
    then show ?thesis
      using view_prices_sides [OF s, of n c] in_topn_level [OF ok(1) s inl, of n] by (simp add: d level_def)
  qed
  have view: "view n c' = (if d \<le> n then (view n c)(ord_Price o' \<mapsto> x\<lparr>ord_Size := ord_Size o'\<rparr>) else view n c)"
    using lvl by (auto simp: view_def vp book fun_eq_iff)
  have vx: "d \<le> n \<Longrightarrow> view n c (ord_Price o') = Some x" using lvl there(1) by (simp add: view_def)
  have rows: "read_msg c' rsp b = read_msg c rsp b"
    if "\<forall>ref\<in>set (Data rsp). ref \<noteq> None \<and> (\<forall>p. l2_get c p \<noteq> ref)" for b
  proof -
    have "map (\<lambda>ref. objs c' ! the ref) (Data rsp) = map (\<lambda>ref. objs c ! the ref) (Data rsp)"
      using that kept(1) by (intro map_cong) (auto simp: uncached_kept_def)
    then show ?thesis unfolding read_msg_def rows_of_def by (rule arg_cong)
  qed
  show ?thesis
  proof (cases "int d \<le> limit")
    case False
    then have "updated_entry old c' e" using ent view rows
      by (auto simp: updated_entry_def e n_def kept(2))
    then show ?thesis using False by (simp add: e)
  next
    case True
    then have n: "limit = int n" "d \<le> n" "0 < n" using \<open>d \<noteq> 0\<close> by (simp_all add: n_def)
    have up: "row_effect UpdateAction o' (view n c) = (view n c)(ord_Price o' \<mapsto> x\<lparr>ord_Size := ord_Size o'\<rparr>)"
      using vx n(2) by (simp add: row_effect_def)
    have "Action rsp = UpdateAction \<and> makeup = None
       \<and> (\<forall>ref\<in>set (Data rsp). ref \<noteq> None \<and> (\<forall>p. l2_get c p \<noteq> ref)) \<and> read_msg c rsp (old n) = view n c"
      using ent n(1,3) by (simp add: updated_entry_def e)
    then have "updated_entry old c' (limit, add_row (Some r) rsp, makeup)"
      using n view up r(3,4) rows by (auto simp: updated_entry_def kept(2))
    then show ?thesis using True by (simp add: e limit_plain_def)
  qed
qed

lemma applyChange_update:
  assumes "book_ok c" "fits c data" "Action data = UpdateAction"
  shows "\<exists>c' limits. applyChange c data = Ret (c', Some limits, None) \<and> book_ok c'
    \<and> (quote_ok c \<longrightarrow> quote_ok c') \<and> l2_book c' = read_msg c data (l2_book c) \<and> realtime c' = realtime c
    \<and> map fst limits = filter (\<lambda>d. d \<noteq> 0) (gokeys (realtime c))
    \<and> (\<forall>e\<in>set limits. updated_entry (\<lambda>n. view n c) c' e)"
proof -
  let ?I = "rows_inv UpdateAction (realtime c) (quote_ok c) (read_msg c data (l2_book c))"
  let ?E = "updated_entry (\<lambda>n. view n c)"
  have "\<exists>c' limits'. apply_rows handleUpdate limit_plain c (limit_responses c data) (Data data) = Ret (c', Some limits', None)
    \<and> ?I c' [] \<and> map fst limits' = map fst (limit_responses c data) \<and> (\<forall>e\<in>set limits'. ?E c' e)"
  proof (rule apply_rows_inv [where I = ?I])
    show "?I c (Data data)" using fits_inv [OF assms(2,1)] assms(3) by simp
    show "?E c e" if "e \<in> set (limit_responses c data)" for e
      using that assms(3) by (auto simp: limit_responses_def makeup_of_def updated_entry_def action_defs)
    fix c1 ref rest assume inv: "?I c1 (ref # rest)"
    then have unc: "\<forall>p. l2_get c1 p \<noteq> ref" by (auto simp: rows_inv_def)
    from rows_inv_step [OF inv] obtain c2 r where
      r: "ref = Some r" "r < length (objs c1)" "book_ok c1" "row_ok UpdateAction (l2_book c1) (objs c1 ! r)"
      and h: "handleUpdate c1 (Some r) = Ret (c2, int (level c1 (objs c1 ! r)), None)"
      and c2: "?I c2 rest" "book_ok c2" "l2_book c2 = row_effect UpdateAction (objs c1 ! r) (l2_book c1)"
        "other_side_kept c1 c2 (ord_Side (objs c1 ! r))" "uncached_kept c1 c2" "l2_get c2 = l2_get c1"
        "objs c2 ! r = objs c1 ! r" "side_list c2 (ord_Side (objs c1 ! r)) = side_list c1 (ord_Side (objs c1 ! r))"
      by (auto simp: handler_def)
    obtain x where x: "l2_book c1 (ord_Price (objs c1 ! r)) = Some x" "ord_Side x = ord_Side (objs c1 ! r)"
      and vs: "valid_side (ord_Side (objs c1 ! r))"
      using r(4) by (auto simp: row_ok_def split: option.splits)
    have eff: "l2_book c2 = (l2_book c1)(ord_Price (objs c1 ! r) \<mapsto> x\<lparr>ord_Size := ord_Size (objs c1 ! r)\<rparr>)"
      using c2(3) x(1) by (simp add: row_effect_def)
    have "\<exists>e'. (if int (level c1 (objs c1 ! r)) \<le> fst e then limit_plain c2 (Some r) e else Ret e) = Ret e'
        \<and> fst e' = fst e \<and> ?E c2 e'" if "?E c1 e" for e
      by (rule updated_entry_step [OF that r(3) c2(2) r(2) refl c2(7) unc [unfolded r(1)] c2(5,6) x eff vs c2(4,8) refl])
    then show "\<exists>c' d. handleUpdate c1 ref = Ret (c', d, None) \<and> ?I c' rest
      \<and> (\<forall>e. ?E c1 e \<longrightarrow> (\<exists>e'. (if d \<le> fst e then limit_plain c' ref e else Ret e) = Ret e' \<and> fst e' = fst e \<and> ?E c' e'))"
      using h c2(1) unfolding r(1) by (intro exI [of _ c2] exI [of _ "int (level c1 (objs c1 ! r))"]) simp
  qed
  then obtain c' limits where res:
    "apply_rows handleUpdate limit_plain c (limit_responses c data) (Data data) = Ret (c', Some limits, None)"
    "?I c' []" "map fst limits = map fst (limit_responses c data)" "\<forall>e\<in>set limits. ?E c' e" by blast
  moreover have "applyChange c data = Ret (c', Some limits, None)"
    using res(1) assms(3) by (simp add: applyChange_def)
  ultimately show ?thesis
    using rows_inv_done [OF res(2)]
    by (intro exI [of _ c'] exI [of _ limits]) (simp add: limit_responses_keys)
qed

lemma view_after_update:
  assumes ok: "book_ok c" "depths_ok c" "fits c data" "Action data = UpdateAction"
    and n: "0 < n" "int n \<in> set (gokeys (realtime c))"
  shows "\<exists>c1 limits. applyChange c data = Ret (c1, Some limits, None)
    \<and> (case dispatchRsp c1 data (Some limits) of (c', ps) \<Rightarrow>
         book_ok c' \<and> l2_book c' = read_msg c data (l2_book c)
         \<and> read_pubs c' (int n) ps (view n c) = view n c' \<and> filter (\<lambda>p. fst p = 0) ps = [(0, data)])"
proof -
  from applyChange_update [OF ok(1,3,4)] obtain c1 limits where a:
    "applyChange c data = Ret (c1, Some limits, None)" "book_ok c1" "realtime c1 = realtime c"
    "map fst limits = filter (\<lambda>d. d \<noteq> 0) (gokeys (realtime c))"
    "\<forall>e\<in>set limits. updated_entry (\<lambda>n. view n c) c1 e" "l2_book c1 = read_msg c data (l2_book c)" by blast
  have "entry_reads c1 (view n c) rl = view n c1" if "(int n, rl) \<in> set limits" for rl
    using a(5) that n(1) by (cases rl) (auto simp: updated_entry_def entry_reads_def dest: bspec)
  from dispatch_reader [OF _ a(2) _ n(1) _ this, where data = data] show ?thesis
    using a ok(2) n(2) by (intro exI [of _ c1] exI [of _ limits]) (simp add: depths_ok_def split: prod.splits)
qed

text \<open>The prices of the published rows with one action at one depth.\<close>

definition pub_prices :: "mbl \<Rightarrow> int \<Rightarrow> string \<Rightarrow> pubs \<Rightarrow> float64 set" where
  "pub_prices c depth action ps =
     (\<Union>p\<in>set ps. if fst p = depth \<and> Action (snd p) = action then ord_Price ` set (rows_of c (snd p)) else {})"

lemma pub_prices_limited:
  assumes "depths_ok c" "d \<in> set (gokeys (realtime c))" "d \<noteq> 0" "map_of limits d = Some (rsp, Some mk)"
    "Action rsp = a" "Action mk = b" "a \<noteq> b"
  shows "pub_prices c d a (snd (dispatchRsp c data (Some limits))) = ord_Price ` set (rows_of c rsp)"
    "pub_prices c d b (snd (dispatchRsp c data (Some limits))) = ord_Price ` set (rows_of c mk)"
proof -
  let ?f = "\<lambda>depth. if depth = 0 then [(0, data)]
     else (case map_of limits depth of None \<Rightarrow> [] | Some rspList \<Rightarrow> publish_limited depth rspList)"
  let ?ps = "snd (dispatchRsp c data (Some limits))"
  have "filter (\<lambda>p. fst p = d) (concat (map ?f (gokeys (realtime c)))) = ?f d"
    using assms(1,2) by (intro filter_single_depth)
      (auto simp: depths_ok_def publish_limited_def split: option.splits prod.splits)
  then have at: "filter (\<lambda>p. fst p = d) ?ps = publish_limited d (rsp, Some mk)"
    using assms(3,4) by (simp add: dispatchRsp_def)
  have "pub_prices c d x ?ps = pub_prices c d x (publish_limited d (rsp, Some mk))" for x
    unfolding at [symmetric] by (auto simp: pub_prices_def)
  moreover have "rows_of c (m\<lparr>Table := t\<rparr>) = rows_of c m" for m t by (simp add: rows_of_def)
  moreover have "Data m = [] \<Longrightarrow> rows_of c m = []" for m by (simp add: rows_of_def)
  ultimately show "pub_prices c d a ?ps = ord_Price ` set (rows_of c rsp)"
    "pub_prices c d b ?ps = ord_Price ` set (rows_of c mk)"
    using assms(5,6,7) by (auto simp: pub_prices_def publish_limited_def)
qed

lemma pub_prices_objs: "objs c' = objs c \<Longrightarrow> pub_prices c' d a ps = pub_prices c d a ps"
  by (simp add: pub_prices_def rows_of_def)

lemma view_after_delete:
  assumes ok: "book_ok c" "depths_ok c" "fits c data" "Action data = DeleteAction"
    and n: "0 < n" "int n \<in> set (gokeys (realtime c))"
  shows "\<exists>c1 limits. applyChange c data = Ret (c1, Some limits, None)
    \<and> (case dispatchRsp c1 data (Some limits) of (c', ps) \<Rightarrow>
         book_ok c' \<and> l2_book c' = read_msg c data (l2_book c) \<and> filter (\<lambda>p. fst p = 0) ps = [(0, data)]
         \<and> (pub_prices c' (int n) DeleteAction ps \<inter> pub_prices c' (int n) InsertAction ps = {}
              \<longrightarrow> read_pubs c' (int n) ps (view n c) = view n c'))"
proof -
  from applyChange_delete [OF ok(1,3,4)] obtain c1 limits where a:
    "applyChange c data = Ret (c1, Some limits, None)" "book_ok c1" "realtime c1 = realtime c"
    "map fst limits = filter (\<lambda>d. d \<noteq> 0) (gokeys (realtime c))"
    "\<forall>e\<in>set limits. deleted_entry (\<lambda>n. view n c) c1 e" "l2_book c1 = read_msg c data (l2_book c)" by blast
  have d1: "depths_ok c1" using ok(2) a(3) by (simp add: depths_ok_def)
  obtain c' ps where d: "dispatchRsp c1 data (Some limits) = (c', ps)" by fastforce
  have c': "c' = fst (IsQuoteChange c1)" using d by (simp add: dispatchRsp_def)
  from limits_at [OF d1 _ _, of limits "int n"] a(3,4) n obtain rsp makeup where
    m: "map_of limits (int n) = Some (rsp, makeup)" "(int n, rsp, makeup) \<in> set limits" by auto
  have "deleted_entry (\<lambda>n. view n c) c1 (int n, rsp, makeup)" using a(5) m(2) by blast
  then obtain mk where mk: "makeup = Some mk" "Action rsp = DeleteAction" "Action mk = InsertAction"
    "ord_Price ` set (rows_of c1 mk) \<inter> ord_Price ` set (rows_of c1 rsp) = {}
       \<Longrightarrow> read_msg c1 mk (read_msg c1 rsp (view n c)) = view n c1"
    using n(1) by (auto simp: deleted_entry_def)
  have pr: "pub_prices c' (int n) DeleteAction ps = ord_Price ` set (rows_of c1 rsp)"
    "pub_prices c' (int n) InsertAction ps = ord_Price ` set (rows_of c1 mk)"
    using pub_prices_limited [OF d1 _ _ m(1) [unfolded mk(1)] mk(2,3), of data] n a(3) d
      pub_prices_objs [of c' c1] by (auto simp: c' IsQuoteChange_keeps)
  have "read_pubs c' (int n) ps (view n c) = view n c'"
    if "ord_Price ` set (rows_of c1 mk) \<inter> ord_Price ` set (rows_of c1 rsp) = {}"
  proof -
    have "read_pubs c1 (int n) ps (view n c) = view n c1"
      using dispatchRsp_limited [of c1 "int n" limits rsp makeup data "view n c"] d1 n m(1) d a(3) mk(1) mk(4) [OF that]
      by (simp add: depths_ok_def)
    moreover have "view n c' = view n c1" unfolding c' by (rule view_cong) (simp_all add: IsQuoteChange_keeps)
    moreover have "read_msg c' = read_msg c1" unfolding c' by (rule read_msg_objs) (rule IsQuoteChange_keeps(1))
    ultimately show ?thesis by (simp add: read_pubs_def)
  qed
  moreover have "book_ok c' \<and> l2_book c' = l2_book c1"
    unfolding c' using a(2) book_ok_cong [of "fst (IsQuoteChange c1)" c1, OF IsQuoteChange_keeps(1,5,3)] by simp
  moreover have "filter (\<lambda>p. fst p = 0) ps = [(0, data)]"
    using dispatchRsp_full [of c1 data limits] d1 d by (simp add: depths_ok_def)
  ultimately show ?thesis
    using a(1,6) d pr by (intro exI [of _ c1] exI [of _ limits]) (auto simp: Int_commute)
qed

end
