(* ===== verification/Partials.thy ===== *)
theory Partials
  imports DepthStreams
begin

text \<open>
  Snapshots and partials: what \<open>snapshot\<close> shows, what the first partial makes of an empty
  cache, that a snapshot fed to an empty cache gives the same book back, and that a later
  partial, merged as deletions, insertions and updates, brings the book to the partial.
\<close>

section \<open>Snapshots\<close>

lemma MinInt_nat: "nat (int a - MinInt (int a) (int n)) = a - n"
  by (auto simp: MinInt_def)

lemma snapshot_Data:
  "Data (snapshot c (int n)) = map (l2_get c)
     (if n = 0 then askPrices c @ rev (bidPrices c) else topn n (askPrices c) @ rev (topn n (bidPrices c)))"
  by (simp add: snapshot_def Let_def ReverseFloat64Slice_rev MinInt_nat topn_def)

lemma snapshot_head:
  "Table (snapshot c n) = (if n > 0 then depth_table ''orderBookL2'' n else ''orderBookL2'')"
  "Action (snapshot c n) = PartialAction"
  by (simp_all add: snapshot_def Let_def NewMBLPartial_def)

section \<open>The first partial\<close>

definition partial_prices :: "mbl \<Rightarrow> string \<Rightarrow> nat list \<Rightarrow> float64 list" where
  "partial_prices c s rs = map (\<lambda>r. ord_Price (objs c ! r)) (filter (\<lambda>r. ord_Side (objs c ! r) = s) rs)"

definition partial_map :: "mbl \<Rightarrow> nat list \<Rightarrow> (float64, nat) gomap \<Rightarrow> (float64, nat) gomap" where
  "partial_map c rs m = fold (\<lambda>r. AList.update (ord_Price (objs c ! r)) r) rs m"

text \<open>Best levels first on both sides, at most one order at a price, and no empty side.\<close>

definition partial_ok :: "mbl \<Rightarrow> nat list \<Rightarrow> bool" where
  "partial_ok c rs \<longleftrightarrow> (\<forall>r\<in>set rs. r < length (objs c) \<and> valid_side (ord_Side (objs c ! r)))
     \<and> distinct (map (\<lambda>r. ord_Price (objs c ! r)) rs)
     \<and> sorted_wrt (\<lambda>p q. q < p) (partial_prices c ''Buy'' rs)
     \<and> sorted_wrt (\<lambda>p q. q < p) (partial_prices c ''Sell'' rs)
     \<and> partial_prices c ''Buy'' rs \<noteq> [] \<and> partial_prices c ''Sell'' rs \<noteq> []"

lemma partial_rows:
  assumes "\<forall>r\<in>set rs. r < length (objs c) \<and> valid_side (ord_Side (objs c ! r))" "l2Cache c = Some m"
  shows "go_fold partial_row c (map Some rs) =
    Ret (c\<lparr>bidPrices := bidPrices c @ partial_prices c ''Buy'' rs,
           askPrices := askPrices c @ partial_prices c ''Sell'' rs,
           l2Cache := Some (partial_map c rs m)\<rparr>)"
  using assms
proof (induction rs arbitrary: c m)
  case Nil
  then show ?case by (simp add: partial_prices_def partial_map_def)
next
  case (Cons r rs)
  let ?o = "objs c ! r"
  define c1 where "c1 = (if ord_Side ?o = ''Buy''
     then c\<lparr>bidPrices := bidPrices c @ [ord_Price ?o], l2Cache := Some (AList.update (ord_Price ?o) r m)\<rparr>
     else c\<lparr>askPrices := askPrices c @ [ord_Price ?o], l2Cache := Some (AList.update (ord_Price ?o) r m)\<rparr>)"
  have row: "partial_row c (Some r) = Ret c1"
    using Cons.prems by (auto simp: partial_row_def load_Some c1_def valid_side_def)
  have o1: "objs c1 = objs c" "l2Cache c1 = Some (AList.update (ord_Price ?o) r m)"
    by (simp_all add: c1_def)
  have "go_fold partial_row c1 (map Some rs) =
    Ret (c1\<lparr>bidPrices := bidPrices c1 @ partial_prices c1 ''Buy'' rs,
           askPrices := askPrices c1 @ partial_prices c1 ''Sell'' rs,
           l2Cache := Some (partial_map c1 rs (AList.update (ord_Price ?o) r m))\<rparr>)"
    using Cons.prems o1 by (intro Cons.IH) auto
  moreover have "ord_Side ?o = ''Buy'' \<or> ord_Side ?o = ''Sell''"
    using Cons.prems(1) by (simp add: valid_side_def)
  ultimately show ?case
    by (auto simp: row partial_prices_def partial_map_def o1(1)) (auto simp: c1_def)
qed

lemma partial_map_of:
  assumes "distinct (map (\<lambda>r. ord_Price (objs c ! r)) rs)"
  shows "map_of (partial_map c rs m) p =
    (case find (\<lambda>r. ord_Price (objs c ! r) = p) rs of None \<Rightarrow> map_of m p | Some r \<Rightarrow> Some r)"
  using assms
proof (induction rs arbitrary: m)
  case (Cons r rs)
  have "find (\<lambda>r'. ord_Price (objs c ! r') = p) rs = None" if "ord_Price (objs c ! r) = p"
    using Cons.prems that by (auto simp: find_None_iff image_iff)
  then show ?case using Cons by (auto simp: partial_map_def split: option.splits)
qed (simp add: partial_map_def)

lemma partial_map_distinct: "distinct (map fst m) \<Longrightarrow> distinct (map fst (partial_map c rs m))"
  unfolding partial_map_def by (induction rs arbitrary: m) (auto simp: distinct_update)

lemma read_rows_find:
  assumes "distinct (map ord_Price os)"
  shows "fold (row_effect InsertAction) os b p =
    (case find (\<lambda>o'. ord_Price o' = p) os of None \<Rightarrow> b p | Some o' \<Rightarrow> Some o')"
  using assms
proof (induction os arbitrary: b)
  case (Cons o' os)
  have "find (\<lambda>x. ord_Price x = p) os = None" if "ord_Price o' = p"
    using Cons.prems that by (auto simp: find_None_iff image_iff)
  then show ?case using Cons by (auto simp: row_effect_def split: option.splits)
qed simp

lemma find_map: "find P (map f xs) = map_option f (find (P \<circ> f) xs)"
  by (induction xs) auto

text \<open>The book a partial describes.\<close>

definition partial_book :: "mbl \<Rightarrow> nat list \<Rightarrow> book" where
  "partial_book c rs = fold (row_effect InsertAction) (map (\<lambda>r. objs c ! r) rs) (\<lambda>_. None)"

lemma partial_book_find:
  "distinct (map (\<lambda>r. ord_Price (objs c ! r)) rs) \<Longrightarrow>
   partial_book c rs p = map_option (\<lambda>r. objs c ! r) (find (\<lambda>r. ord_Price (objs c ! r) = p) rs)"
  using read_rows_find [of "map (\<lambda>r. objs c ! r) rs" "\<lambda>_. None" p]
  by (auto simp: partial_book_def find_map comp_def split: option.splits)

lemma partial_book_prices:
  assumes "distinct (map (\<lambda>r. ord_Price (objs c ! r)) rs)"
  shows "book_prices (partial_book c rs) s = set (partial_prices c s rs)"
proof -
  have "partial_book c rs p = Some o' \<longleftrightarrow> (\<exists>r\<in>set rs. o' = objs c ! r \<and> ord_Price o' = p)" for p o'
  proof
    assume "partial_book c rs p = Some o'"
    then show "\<exists>r\<in>set rs. o' = objs c ! r \<and> ord_Price o' = p"
      by (auto simp: partial_book_find [OF assms] find_Some_iff)
  next
    assume "\<exists>r\<in>set rs. o' = objs c ! r \<and> ord_Price o' = p"
    then obtain r where r: "r \<in> set rs" "o' = objs c ! r" "ord_Price o' = p" by blast
    then obtain r' where f: "find (\<lambda>r. ord_Price (objs c ! r) = p) rs = Some r'"
      by (cases "find (\<lambda>r. ord_Price (objs c ! r) = p) rs") (auto simp: find_None_iff)
    then have "r' \<in> set rs" "ord_Price (objs c ! r') = p" by (auto simp: find_Some_iff)
    then have "r' = r" using assms r by (auto simp: distinct_map dest: inj_onD)
    then show "partial_book c rs p = Some o'" using f r(2) by (simp add: partial_book_find [OF assms])
  qed
  then show ?thesis by (auto simp: book_prices_def partial_prices_def image_iff)
qed

lemma partial_first_run:
  assumes ok: "partial_ok c rs"
  shows "\<exists>c'. partial_first c (map Some rs) = Ret (c', [(0, snapshot c' 0)])
    \<and> book_ok c' \<and> quote_ok c' \<and> l2_book c' = partial_book c rs \<and> objs c' = objs c \<and> realtime c' = realtime c
    \<and> bidPrices c' = rev (partial_prices c ''Buy'' rs) \<and> askPrices c' = partial_prices c ''Sell'' rs
    \<and> l2_get c' = map_of (partial_map c rs [])"
proof -
  let ?buys = "partial_prices c ''Buy'' rs" and ?sells = "partial_prices c ''Sell'' rs"
  let ?m = "partial_map c rs []"
  note ok = ok [unfolded partial_ok_def]
  have dist: "distinct (map (\<lambda>r. ord_Price (objs c ! r)) rs)" using ok by simp
  define c1 where "c1 = c\<lparr>bidPrices := ?buys, askPrices := ?sells, l2Cache := Some ?m\<rparr>"
  define c2 where "c2 = c\<lparr>bidPrices := rev ?buys, askPrices := ?sells, l2Cache := Some ?m\<rparr>"
  have o2: "objs (initCache c) = objs c" by (simp add: initCache_def)
  have "go_fold partial_row (initCache c) (map Some rs) = Ret ((initCache c)\<lparr>bidPrices := ?buys, askPrices := ?sells, l2Cache := Some ?m\<rparr>)"
    using partial_rows [of rs "initCache c" "[]"] ok
    by (simp add: initCache_def partial_prices_def partial_map_def)
  then have run: "go_bind (go_fold partial_row (initCache c) (map Some rs)) f =
      f c1" for f :: "mbl \<Rightarrow> (mbl \<times> pubs) go"
    by (simp add: initCache_def c1_def)
  have c12: "c1\<lparr>bidPrices := ReverseFloat64Slice (bidPrices c1)\<rparr> = c2"
    by (simp add: c1_def c2_def ReverseFloat64Slice_rev)
  have get2: "l2_get c2 = map_of ?m" by (simp add: l2_get_def c2_def fun_eq_iff)
  have book2: "l2_book c2 = partial_book c rs"
  proof (rule ext)
    fix p
    have "objs c2 = objs c" by (simp add: c2_def)
    then show "l2_book c2 p = partial_book c rs p"
      using partial_map_of [OF dist, of "[]" p]
      by (simp add: l2_book_def get2 partial_book_find [OF dist] split: option.splits)
  qed
  have ok2: "book_ok c2"
  proof (rule book_okI)
    show "l2Cache c2 = Some ?m" by (simp add: c2_def)
    show "distinct (map fst ?m)" by (rule partial_map_distinct) simp
    show "levels_ok c2"
      unfolding levels_ok_def get2
    proof (intro allI impI)
      fix p r assume "map_of ?m p = Some r"
      then have "find (\<lambda>r. ord_Price (objs c ! r) = p) rs = Some r"
        using partial_map_of [OF dist, of "[]" p] by (auto split: option.splits)
      then have "r \<in> set rs" "ord_Price (objs c ! r) = p" by (auto simp: find_Some_iff)
      then show "r < length (objs c2) \<and> ord_Price (objs c2 ! r) = p \<and> valid_side (ord_Side (objs c2 ! r))"
        using ok by (simp add: c2_def)
    qed
    show "sorted_wrt (<) (bidPrices c2)" "sorted_wrt (\<lambda>p q. q < p) (askPrices c2)"
      using ok by (simp_all add: c2_def sorted_wrt_rev)
    show "set (bidPrices c2) = book_prices (l2_book c2) ''Buy''"
      "set (askPrices c2) = book_prices (l2_book c2) ''Sell''"
      by (simp_all add: book2 partial_book_prices [OF dist]) (simp_all add: c2_def)
  qed
  have ne: "side_list c2 s \<noteq> []" if "valid_side s" for s
    using that ok by (auto simp: valid_side_def c2_def)
  obtain b where b: "l2_book c2 (last (bidPrices c2)) = Some b"
    using last_level [OF ok2 valid_sides(1) ne] by fastforce
  obtain a where a: "l2_book c2 (last (askPrices c2)) = Some a"
    using last_level [OF ok2 valid_sides(2) ne] by fastforce
  define c3 where "c3 = c2\<lparr>bidQuote := (bidQuote c2)\<lparr>bestPrice := last (bidPrices c2), bestSize := ord_Size b\<rparr>\<rparr>"
  define c4 where "c4 = c3\<lparr>askQuote := (askQuote c3)\<lparr>bestPrice := last (askPrices c3), bestSize := ord_Size a\<rparr>\<rparr>"
  have best: "best_of c2 (bidPrices c2) = Ret (last (bidPrices c2), ord_Size b)"
    by (rule best_of_ok [OF ok2 _ b]) (use ne [of "''Buy''"] in simp)
  have "best_of c2 (askPrices c2) = Ret (last (askPrices c2), ord_Size a)"
    by (rule best_of_ok [OF ok2 _ a]) (use ne [of "''Sell''"] in simp)
  moreover have "best_of c3 (askPrices c3) = best_of c2 (askPrices c2)"
    by (simp add: c3_def best_of_same l2_get_def fun_eq_iff)
  ultimately have best': "best_of c3 (askPrices c3) = Ret (last (askPrices c3), ord_Size a)"
    by (simp add: c3_def)
  have res: "partial_first c (map Some rs) = Ret (c4, [(0, snapshot c4 0)])"
    unfolding partial_first_def run Let_def c12
    by (simp only: best best' go_bind.simps prod.case c3_def [symmetric] c4_def [symmetric])
  have keep: "objs c4 = objs c2" "l2Cache c4 = l2Cache c2" "side_list c4 s = side_list c2 s" for s
    by (simp_all add: c4_def c3_def side_list_def)
  have ok4: "book_ok c4" "l2_book c4 = l2_book c2" using book_ok_cong [OF keep] ok2 by simp_all
  have "quote_ok c4"
    using a b by (simp add: quote_ok_def all_sides quote_at_def ok4(2)) (simp add: c4_def c3_def)
  then show ?thesis
    using res ok4 book2 get2 keep by (intro exI [of _ c4]) (simp add: c4_def c3_def c2_def l2_get_def fun_eq_iff)
qed

section \<open>A snapshot restores the book\<close>

lemma side_ref:
  assumes "book_ok c" "valid_side s" "p \<in> set (side_list c s)"
  shows "\<exists>r. l2_get c p = Some r \<and> r < length (objs c) \<and> ord_Price (objs c ! r) = p \<and> ord_Side (objs c ! r) = s"
proof -
  obtain x where x: "l2_book c p = Some x" "ord_Side x = s"
    using book_ok_set [OF assms(1,2)] assms(3) by (auto simp: book_prices_def)
  from l2_book_objs [OF assms(1) x(1)] show ?thesis using x(2) by metis
qed

definition snapshot_rows :: "mbl \<Rightarrow> nat list" where
  "snapshot_rows c = map (\<lambda>p. the (l2_get c p)) (askPrices c @ rev (bidPrices c))"

lemma snapshot_rows_ok:
  assumes ok: "book_ok c" and ne: "bidPrices c \<noteq> []" "askPrices c \<noteq> []"
  shows "Data (snapshot c 0) = map Some (snapshot_rows c)" "partial_ok c (snapshot_rows c)"
    "partial_prices c ''Buy'' (snapshot_rows c) = rev (bidPrices c)"
    "partial_prices c ''Sell'' (snapshot_rows c) = askPrices c"
    "map (\<lambda>r. ord_Price (objs c ! r)) (snapshot_rows c) = askPrices c @ rev (bidPrices c)"
proof -
  let ?row = "\<lambda>p. the (l2_get c p)"
  have b: "?row p < length (objs c) \<and> ord_Price (objs c ! ?row p) = p \<and> ord_Side (objs c ! ?row p) = ''Buy''
      \<and> l2_get c p = Some (?row p)" if "p \<in> set (bidPrices c)" for p
    using side_ref [OF ok valid_sides(1)] that by fastforce
  have a: "?row p < length (objs c) \<and> ord_Price (objs c ! ?row p) = p \<and> ord_Side (objs c ! ?row p) = ''Sell''
      \<and> l2_get c p = Some (?row p)" if "p \<in> set (askPrices c)" for p
    using side_ref [OF ok valid_sides(2)] that by fastforce
  show data: "Data (snapshot c 0) = map Some (snapshot_rows c)"
    using snapshot_Data [of c 0] a b by (auto simp: snapshot_rows_def)
  show prices: "map (\<lambda>r. ord_Price (objs c ! r)) (snapshot_rows c) = askPrices c @ rev (bidPrices c)"
    using a b by (auto simp: snapshot_rows_def map_idI rev_map [symmetric] comp_def)
  have sel: "map (\<lambda>r. ord_Price (objs c ! r)) (filter (\<lambda>r. ord_Side (objs c ! r) = s) (map ?row ps)) =
      filter (\<lambda>p. ord_Side (objs c ! ?row p) = s) ps" if "set ps \<subseteq> set (askPrices c) \<union> set (bidPrices c)" for s ps
    using that a b by (induction ps) auto
  have fa: "filter (\<lambda>p. ord_Side (objs c ! ?row p) = s) (askPrices c) = (if s = ''Sell'' then askPrices c else [])" for s
    using a by (auto intro!: filter_True filter_False)
  have fb: "filter (\<lambda>p. ord_Side (objs c ! ?row p) = s) (rev (bidPrices c)) = (if s = ''Buy'' then rev (bidPrices c) else [])" for s
    using b by (auto intro!: filter_True filter_False)
  show pb: "partial_prices c ''Buy'' (snapshot_rows c) = rev (bidPrices c)"
    and pa: "partial_prices c ''Sell'' (snapshot_rows c) = askPrices c"
    using sel [of "askPrices c @ rev (bidPrices c)"] fa fb
    by (simp_all add: partial_prices_def snapshot_rows_def)
  have "distinct (askPrices c @ rev (bidPrices c))"
    using side_distinct [OF ok valid_sides(1)] side_distinct [OF ok valid_sides(2)] side_disjoint [OF ok] by auto
  moreover have "r < length (objs c) \<and> valid_side (ord_Side (objs c ! r))" if "r \<in> set (snapshot_rows c)" for r
    using that a b by (auto simp: snapshot_rows_def)
  ultimately show "partial_ok c (snapshot_rows c)"
    using ne book_okD [OF ok] by (simp add: partial_ok_def prices pa pb sorted_wrt_rev)
qed

lemma partial_objs:
  "objs c0 = objs c \<Longrightarrow> partial_ok c0 rs = partial_ok c rs" "objs c0 = objs c \<Longrightarrow> partial_book c0 rs = partial_book c rs"
  "objs c0 = objs c \<Longrightarrow> partial_prices c0 s rs = partial_prices c s rs"
  by (simp_all add: partial_ok_def partial_book_def partial_prices_def)

lemma snapshot_restores:
  assumes ok: "book_ok c" and ne: "bidPrices c \<noteq> []" "askPrices c \<noteq> []" and o: "objs c0 = objs c"
  shows "\<exists>c'. partial_first c0 (Data (snapshot c 0)) = Ret (c', [(0, snapshot c' 0)])
    \<and> book_ok c' \<and> quote_ok c' \<and> l2_book c' = l2_book c
    \<and> bidPrices c' = bidPrices c \<and> askPrices c' = askPrices c \<and> snapshot c' 0 = snapshot c 0"
proof -
  note rows = snapshot_rows_ok [OF ok ne]
  from partial_first_run [of c0 "snapshot_rows c"] rows obtain c' where c':
    "partial_first c0 (Data (snapshot c 0)) = Ret (c', [(0, snapshot c' 0)])" "book_ok c'" "quote_ok c'"
    "l2_book c' = partial_book c (snapshot_rows c)" "bidPrices c' = bidPrices c" "askPrices c' = askPrices c"
    "l2_get c' = map_of (partial_map c0 (snapshot_rows c) [])"
    by (auto simp: partial_objs [OF o])
  have d: "distinct (map (\<lambda>r. ord_Price (objs c ! r)) (snapshot_rows c))"
    using rows(2) by (simp add: partial_ok_def)
  have get: "l2_get c' p = l2_get c p" for p
  proof -
    have l: "l2_get c' p = find (\<lambda>r. ord_Price (objs c ! r) = p) (snapshot_rows c)"
      using partial_map_of [of c0 "snapshot_rows c" "[]" p] d o by (simp add: c'(7) split: option.splits)
    show ?thesis
    proof (cases "find (\<lambda>r. ord_Price (objs c ! r) = p) (snapshot_rows c)")
      case None
      then have "p \<notin> set (askPrices c @ rev (bidPrices c))"
        unfolding rows(5) [symmetric] by (auto simp: find_None_iff)
      then have "l2_book c p = None"
        by (intro l2_book_None [OF ok]) auto
      then show ?thesis using l None by (simp add: l2_book_def)
    next
      case (Some r)
      then have r: "r \<in> set (snapshot_rows c)" "ord_Price (objs c ! r) = p" by (auto simp: find_Some_iff)
      then obtain q where q: "q \<in> set (askPrices c) \<union> set (bidPrices c)" "r = the (l2_get c q)"
        by (auto simp: snapshot_rows_def)
      then obtain r' where "l2_get c q = Some r'" "ord_Price (objs c ! r') = q"
        using side_ref [OF ok valid_sides(1), of q] side_ref [OF ok valid_sides(2), of q] by auto
      then show ?thesis using q(2) r(2) l Some by simp
    qed
  qed
  have "objs c' = objs c"
    using partial_first_run [of c0 "snapshot_rows c"] rows(1,2) c'(1) o by (auto simp: partial_objs [OF o])
  then have "l2_book c' = l2_book c" using get by (simp add: l2_book_def fun_eq_iff)
  moreover have "snapshot c' 0 = snapshot c 0"
    using c'(5,6) get by (simp add: snapshot_def Let_def fun_eq_iff)
  ultimately show ?thesis using c' by (intro exI [of _ c']) simp
qed

end
