(* ===== verification/PartialMerge.thy ===== *)
theory PartialMerge
  imports Partials
begin

text \<open>
  A partial that reaches a filled cache (\<open>handlePartial\<close>, second half) is turned into a
  deletion, an insertion and an update message, which are applied and published. When every
  price keeps its side and each side keeps a level, the book converges to the partial: same
  prices, sides and sizes.
\<close>

section \<open>Rows of the three messages\<close>

lemma rows_ok_delete:
  assumes "distinct (map ord_Price os)"
    and "\<And>o'. o' \<in> set os \<Longrightarrow> valid_side (ord_Side o') \<and> (\<exists>x. b (ord_Price o') = Some x \<and> ord_Side x = ord_Side o')"
    and "\<And>s. valid_side s \<Longrightarrow> \<exists>q\<in>book_prices b s. q \<notin> ord_Price ` set os"
  shows "rows_ok DeleteAction b os"
  using assms
proof (induction os arbitrary: b)
  case (Cons o' os)
  let ?b = "b(ord_Price o' := None)"
  obtain x where x: "valid_side (ord_Side o')" "b (ord_Price o') = Some x" "ord_Side x = ord_Side o'"
    using Cons.prems(2) by force
  obtain q where q: "q \<in> book_prices b (ord_Side o')" "q \<noteq> ord_Price o'"
    using Cons.prems(3) [OF x(1)] by auto
  have "rows_ok DeleteAction ?b os"
  proof (rule Cons.IH)
    show "valid_side (ord_Side y) \<and> (\<exists>x. ?b (ord_Price y) = Some x \<and> ord_Side x = ord_Side y)"
      if "y \<in> set os" for y
    proof -
      have "ord_Price y \<noteq> ord_Price o'" using Cons.prems(1) that by (auto simp: image_iff)
      then show ?thesis using Cons.prems(2) [of y] that by simp
    qed
    show "\<exists>q\<in>book_prices ?b s. q \<notin> ord_Price ` set os" if "valid_side s" for s
      using Cons.prems(3) [OF that] by (auto simp: book_prices_del)
  qed (use Cons.prems(1) in simp)
  then show ?case using x q by (auto simp: row_ok_def row_effect_def)
qed simp

lemma rows_ok_insert:
  assumes "distinct (map ord_Price os)"
    and "\<And>o'. o' \<in> set os \<Longrightarrow> valid_side (ord_Side o') \<and> b (ord_Price o') = None"
  shows "rows_ok InsertAction b os"
  using assms
proof (induction os arbitrary: b)
  case (Cons o' os)
  have "rows_ok InsertAction (b(ord_Price o' \<mapsto> o')) os"
    using Cons.prems by (intro Cons.IH) (auto simp: image_iff)
  then show ?case using Cons.prems(2) [of o'] by (simp add: row_ok_def row_effect_def)
qed simp

lemma rows_ok_update:
  assumes "\<And>o'. o' \<in> set os \<Longrightarrow> valid_side (ord_Side o') \<and> (\<exists>x. b (ord_Price o') = Some x \<and> ord_Side x = ord_Side o')"
  shows "rows_ok UpdateAction b os"
  using assms
proof (induction os arbitrary: b)
  case (Cons o' os)
  obtain x where x: "valid_side (ord_Side o')" "b (ord_Price o') = Some x" "ord_Side x = ord_Side o'"
    using Cons.prems by force
  have "rows_ok UpdateAction (b(ord_Price o' \<mapsto> x\<lparr>ord_Size := ord_Size o'\<rparr>)) os"
  proof (rule Cons.IH)
    fix y assume "y \<in> set os"
    then obtain z where "valid_side (ord_Side y)" "b (ord_Price y) = Some z" "ord_Side z = ord_Side y"
      using Cons.prems [of y] by auto
    then show "valid_side (ord_Side y)
      \<and> (\<exists>z. (b(ord_Price o' \<mapsto> x\<lparr>ord_Size := ord_Size o'\<rparr>)) (ord_Price y) = Some z \<and> ord_Side z = ord_Side y)"
      using x by (cases "ord_Price y = ord_Price o'") auto
  qed
  then show ?case using x by (simp add: row_ok_def row_effect_def)
qed simp

text \<open>What the three messages do to the price \<open>p\<close>.\<close>

lemma fold_delete_at:
  "fold (row_effect DeleteAction) os b p = (if p \<in> ord_Price ` set os then None else b p)"
  by (induction os arbitrary: b) (auto simp: row_effect_def)

lemma fold_update_at:
  assumes "distinct (map ord_Price os)"
  shows "fold (row_effect UpdateAction) os b p =
    (case find (\<lambda>o'. ord_Price o' = p) os of None \<Rightarrow> b p
     | Some o' \<Rightarrow> map_option (\<lambda>x. x\<lparr>ord_Size := ord_Size o'\<rparr>) (b p))"
  using assms
proof (induction os arbitrary: b)
  case (Cons o' os)
  have "find (\<lambda>x. ord_Price x = p) os = None" if "ord_Price o' = p"
    using Cons.prems that by (auto simp: find_None_iff image_iff)
  then show ?case using Cons by (auto simp: row_effect_def split: option.splits)
qed simp

section \<open>One of the three messages\<close>

lemma IsQuoteChange_quote: "quote_ok c \<Longrightarrow> quote_ok (fst (IsQuoteChange c))"
  by (simp add: quote_ok_def quote_at_def IsQuoteChange_keeps)

lemma IsQuoteChange_book: "book_ok c \<Longrightarrow> book_ok (fst (IsQuoteChange c))"
  using book_ok_cong [of "fst (IsQuoteChange c)" c, OF IsQuoteChange_keeps(1,5,3)] by simp

lemma dispatchRsp_state: "fst (dispatchRsp c data limits) = fst (IsQuoteChange c)"
  by (simp add: dispatchRsp_def Let_def split: option.splits)

lemma dispatchRsp_depths:
  assumes "0 \<in> set (gokeys (realtime c))" "p \<in> set (snd (dispatchRsp c data limits))"
  shows "fst p \<in> set (gokeys (realtime c))"
proof (cases limits)
  case None
  then show ?thesis using assms(2) by (simp add: dispatchRsp_def Let_def)
next
  case (Some l)
  let ?f = "\<lambda>depth. if depth = 0 then [(0, data)]
     else (case map_of l depth of None \<Rightarrow> [] | Some rspList \<Rightarrow> publish_limited depth rspList)"
  have "p \<in> set (concat (map ?f (gokeys (realtime c))))"
    using assms(2) by (simp add: dispatchRsp_def Some Let_def)
  then obtain depth where "depth \<in> set (gokeys (realtime c))" "p \<in> set (?f depth)"
    unfolding set_concat set_map by blast
  moreover from this(2) have "fst p = depth"
    by (auto simp: publish_limited_def split: if_splits option.splits prod.splits)
  ultimately show ?thesis by simp
qed

definition depths_in :: "mbl \<Rightarrow> pubs \<Rightarrow> bool" where
  "depths_in c ps \<longleftrightarrow> (0 \<in> set (gokeys (realtime c)) \<longrightarrow> (\<forall>p\<in>set ps. fst p \<in> set (gokeys (realtime c))))"

lemma merge_apply_ok:
  assumes ok: "book_ok c"
    and action: "action = DeleteAction \<or> action = InsertAction \<or> action = UpdateAction"
    and rs: "\<forall>r\<in>set rs. r < length (objs c)" "rows_ok action (l2_book c) (map (\<lambda>r. objs c ! r) rs)"
    and fresh: "action = UpdateAction \<Longrightarrow> \<forall>r\<in>set rs. \<forall>p. l2_get c p \<noteq> Some r"
  shows "\<exists>c' ps. merge_apply c action (map Some rs) = Ret (c', ps) \<and> book_ok c' \<and> (quote_ok c \<longrightarrow> quote_ok c')
    \<and> l2_book c' = fold (row_effect action) (map (\<lambda>r. objs c ! r) rs) (l2_book c) \<and> realtime c' = realtime c
    \<and> (action \<noteq> UpdateAction \<longrightarrow> objs c' = objs c) \<and> depths_in c ps"
proof (cases "rs = []")
  case True
  then show ?thesis using ok by (simp add: merge_apply_def depths_in_def)
next
  case False
  define rsp :: mbl_msg where "rsp = emptyResponse\<lparr>Table := ''orderBookL2'', Action := action, Data := map Some rs\<rparr>"
  have rsp: "Action rsp = action" "Data rsp = map Some rs" "rows_of c rsp = map (\<lambda>r. objs c ! r) rs"
    by (simp_all add: rsp_def rows_of_def comp_def)
  have fit: "fits c rsp" using action rs fresh by (auto simp: fits_def rsp)
  have "\<exists>c1 limits. applyChange c rsp = Ret (c1, Some limits, None) \<and> book_ok c1 \<and> (quote_ok c \<longrightarrow> quote_ok c1)
     \<and> l2_book c1 = read_msg c rsp (l2_book c) \<and> realtime c1 = realtime c \<and> (action \<noteq> UpdateAction \<longrightarrow> objs c1 = objs c)"
    using action
  proof (elim disjE)
    assume "action = DeleteAction"
    then show ?thesis using applyChange_delete [OF ok fit] rsp(1) by blast
  next
    assume "action = InsertAction"
    then show ?thesis using applyChange_insert [OF ok fit] rsp(1) by blast
  next
    assume "action = UpdateAction"
    then show ?thesis using applyChange_update [OF ok fit] rsp(1) by blast
  qed
  then obtain c1 limits where c1: "applyChange c rsp = Ret (c1, Some limits, None)" "book_ok c1"
    "quote_ok c \<longrightarrow> quote_ok c1" "l2_book c1 = read_msg c rsp (l2_book c)" "realtime c1 = realtime c"
    "action \<noteq> UpdateAction \<longrightarrow> objs c1 = objs c" by blast
  have "merge_apply c action (map Some rs) = Ret (dispatchRsp c1 rsp (Some limits))"
    using False c1(1) by (simp add: merge_apply_def rsp_def [symmetric] Let_def)
  moreover obtain c2 ps where d: "dispatchRsp c1 rsp (Some limits) = (c2, ps)" by fastforce
  moreover have "c2 = fst (IsQuoteChange c1)" using d dispatchRsp_state [of c1 rsp "Some limits"] by simp
  moreover have "depths_in c ps"
    using dispatchRsp_depths [of c1 _ rsp "Some limits"] c1(5) d by (auto simp: depths_in_def)
  ultimately show ?thesis
    using c1 IsQuoteChange_quote IsQuoteChange_book
    by (intro exI [of _ c2] exI [of _ ps]) (simp add: IsQuoteChange_keeps read_msg_def rsp)
qed

section \<open>The sets of the merge\<close>

lemma side_prices_of_ok:
  assumes "\<forall>r\<in>set rs. r < length (objs c)"
  shows "\<exists>ps. side_prices_of c s (map Some rs) = Ret ps \<and> set ps = set (partial_prices c s rs)"
proof -
  have "\<exists>ps. go_fold (\<lambda>acc ref. go_bind (load c ref) (\<lambda>ord.
         Ret (if ord_Side ord = s then float64Set_Append acc [ord_Price ord] else acc))) acc (map Some rs) = Ret ps
       \<and> set ps = set acc \<union> set (partial_prices c s rs)" for acc
    using assms
  proof (induction rs arbitrary: acc)
    case (Cons r rs)
    let ?acc = "if ord_Side (objs c ! r) = s then float64Set_Append acc [ord_Price (objs c ! r)] else acc"
    from Cons.IH [of ?acc] Cons.prems obtain ps where
      "go_fold (\<lambda>acc ref. go_bind (load c ref) (\<lambda>ord.
         Ret (if ord_Side ord = s then float64Set_Append acc [ord_Price ord] else acc))) ?acc (map Some rs) = Ret ps"
      "set ps = set ?acc \<union> set (partial_prices c s rs)" by auto
    moreover have "set (float64Set_Append acc [p]) = insert p (set acc)" for p
      by (simp add: float64Set_Append_def map_put_def insert_absorb)
    ultimately show ?case using Cons.prems
      by (intro exI [of _ ps]) (auto simp: load_Some partial_prices_def)
  qed (simp add: partial_prices_def)
  then show ?thesis by (force simp: side_prices_of_def NewFloat64Set_def)
qed

text \<open>The rows a partial inserts, and the rows whose size it changes.\<close>

definition ins_rows :: "mbl \<Rightarrow> nat list \<Rightarrow> nat list" where
  "ins_rows c rs = filter (\<lambda>r. l2_book c (ord_Price (objs c ! r)) = None) rs"

definition upd_rows :: "mbl \<Rightarrow> nat list \<Rightarrow> nat list" where
  "upd_rows c rs = filter (\<lambda>r. case l2_book c (ord_Price (objs c ! r)) of None \<Rightarrow> False
     | Some x \<Rightarrow> ord_Size x \<noteq> ord_Size (objs c ! r)) rs"

text \<open>No price changes its side.\<close>

definition no_flip :: "mbl \<Rightarrow> nat list \<Rightarrow> bool" where
  "no_flip c rs \<longleftrightarrow> (\<forall>r\<in>set rs. \<forall>x. l2_book c (ord_Price (objs c ! r)) = Some x
     \<longrightarrow> ord_Side x = ord_Side (objs c ! r))"

lemma merge_row_ok:
  assumes ok: "book_ok c" and c1: "objs c1 = objs c" "book_ok c1"
    and r: "r < length (objs c)" "valid_side (ord_Side (objs c ! r))"
    and flip: "\<forall>x. l2_book c (ord_Price (objs c ! r)) = Some x \<longrightarrow> ord_Side x = ord_Side (objs c ! r)"
    and kept: "l2_book c1 (ord_Price (objs c ! r)) = l2_book c (ord_Price (objs c ! r))"
    and new: "\<And>s. valid_side s \<Longrightarrow> ord_Price (objs c ! r) \<in> N s \<longleftrightarrow> s = ord_Side (objs c ! r)"
    and sets: "set sellAdd = N ''Sell'' - set (askPrices c)" "set buyAdd = N ''Buy'' - set (bidPrices c)"
      "set sellUpd = set (askPrices c)" "set buyUpd = set (bidPrices c)"
  shows "merge_row c1 sellAdd buyAdd sellUpd buyUpd (ins, upd) (Some r) =
    Ret (ins @ map Some (ins_rows c [r]), upd @ map Some (upd_rows c [r]))"
proof -
  let ?o = "objs c ! r" and ?p = "ord_Price (objs c ! r)"
  have ld: "load c1 (Some r) = Ret ?o" using r c1 by (simp add: load_def)
  have side: "?p \<in> set (side_list c s) \<longleftrightarrow> (\<exists>x. l2_book c ?p = Some x) \<and> s = ord_Side ?o" if "valid_side s" for s
    using book_ok_set [OF ok that] flip by (auto simp: book_prices_def)
  have asks: "?p \<in> set (askPrices c) \<longleftrightarrow> (\<exists>x. l2_book c ?p = Some x) \<and> ord_Side ?o = ''Sell''"
    using side [OF valid_sides(2)] by auto
  have bids: "?p \<in> set (bidPrices c) \<longleftrightarrow> (\<exists>x. l2_book c ?p = Some x) \<and> ord_Side ?o = ''Buy''"
    using side [OF valid_sides(1)] by auto
  have vs: "ord_Side ?o = ''Buy'' \<or> ord_Side ?o = ''Sell''" using r(2) by (simp add: valid_side_def)
  show ?thesis
  proof (cases "l2_book c ?p")
    case None
    then show ?thesis using asks bids vs new [OF valid_sides(1)] new [OF valid_sides(2)]
      by (auto simp: merge_row_def ld float64Set_Exist_def sets ins_rows_def upd_rows_def Let_def)
  next
    case (Some x)
    then have "l2_book c1 ?p = Some x" using kept by simp
    from l2_book_objs [OF c1(2) this] obtain k where "l2_get c1 ?p = Some k" "k < length (objs c1)" "x = objs c1 ! k"
      by blast
    then have sd: "size_differs c1 ?o = Ret (ord_Size x \<noteq> ord_Size ?o)"
      by (simp add: size_differs_def load_Some)
    show ?thesis using Some asks bids vs new [OF valid_sides(1)] new [OF valid_sides(2)]
      by (auto simp: merge_row_def ld float64Set_Exist_def sets ins_rows_def upd_rows_def Let_def sd)
  qed
qed

lemma merge_rows_ok:
  assumes ok: "book_ok c" and c1: "objs c1 = objs c" "book_ok c1"
    and rs: "\<forall>r\<in>set rs. r < length (objs c) \<and> valid_side (ord_Side (objs c ! r))" and flip: "no_flip c rs"
    and kept: "\<forall>r\<in>set rs. l2_book c1 (ord_Price (objs c ! r)) = l2_book c (ord_Price (objs c ! r))"
    and new: "\<And>r s. r \<in> set rs \<Longrightarrow> valid_side s \<Longrightarrow> ord_Price (objs c ! r) \<in> N s \<longleftrightarrow> s = ord_Side (objs c ! r)"
    and sets: "set sellAdd = N ''Sell'' - set (askPrices c)" "set buyAdd = N ''Buy'' - set (bidPrices c)"
      "set sellUpd = set (askPrices c)" "set buyUpd = set (bidPrices c)"
  shows "go_fold (merge_row c1 sellAdd buyAdd sellUpd buyUpd) (ins, upd) (map Some rs) =
    Ret (ins @ map Some (ins_rows c rs), upd @ map Some (upd_rows c rs))"
  using rs flip kept new
proof (induction rs arbitrary: ins upd)
  case Nil
  then show ?case by (simp add: ins_rows_def upd_rows_def)
next
  case (Cons r rs)
  have "merge_row c1 sellAdd buyAdd sellUpd buyUpd (ins, upd) (Some r) =
    Ret (ins @ map Some (ins_rows c [r]), upd @ map Some (upd_rows c [r]))"
    using Cons.prems by (intro merge_row_ok [OF ok c1 _ _ _ _ _ sets]) (auto simp: no_flip_def)
  moreover have "go_fold (merge_row c1 sellAdd buyAdd sellUpd buyUpd)
      (ins @ map Some (ins_rows c [r]), upd @ map Some (upd_rows c [r])) (map Some rs) =
    Ret ((ins @ map Some (ins_rows c [r])) @ map Some (ins_rows c rs),
         (upd @ map Some (upd_rows c [r])) @ map Some (upd_rows c rs))"
    using Cons.prems by (intro Cons.IH) (auto simp: no_flip_def)
  ultimately show ?case by (simp add: ins_rows_def upd_rows_def)
qed

section \<open>Convergence\<close>

text \<open>Two orders a reader of the book cannot tell apart.\<close>

definition same_level :: "orderL2 option \<Rightarrow> orderL2 option \<Rightarrow> bool" where
  "same_level a b \<longleftrightarrow> map_option (\<lambda>o'. (ord_Price o', ord_Side o', ord_Size o')) a =
     map_option (\<lambda>o'. (ord_Price o', ord_Side o', ord_Size o')) b"

text \<open>Each side keeps a level of the old book.\<close>

definition overlaps :: "mbl \<Rightarrow> nat list \<Rightarrow> bool" where
  "overlaps c rs \<longleftrightarrow> (\<forall>s. valid_side s \<longrightarrow> set (side_list c s) \<inter> set (partial_prices c s rs) \<noteq> {})"

definition gone_prices :: "mbl \<Rightarrow> nat list \<Rightarrow> float64 set" where
  "gone_prices c rs = (set (askPrices c) - set (partial_prices c ''Sell'' rs))
     \<union> (set (bidPrices c) - set (partial_prices c ''Buy'' rs))"

lemma merge_deletes:
  assumes ok: "book_ok c" and ov: "overlaps c rs" and ds: "set ds = gone_prices c rs" "distinct ds"
  shows "\<exists>c1 ps. merge_apply c DeleteAction (map (l2_get c) ds) = Ret (c1, ps) \<and> book_ok c1
    \<and> (quote_ok c \<longrightarrow> quote_ok c1) \<and> realtime c1 = realtime c \<and> objs c1 = objs c \<and> depths_in c ps
    \<and> l2_book c1 = (\<lambda>p. if p \<in> gone_prices c rs then None else l2_book c p)"
proof -
  define rows where "rows = map (\<lambda>p. the (l2_get c p)) ds"
  have at: "l2_get c p = Some (the (l2_get c p)) \<and> the (l2_get c p) < length (objs c)
      \<and> ord_Price (objs c ! the (l2_get c p)) = p \<and> l2_book c p = Some (objs c ! the (l2_get c p))
      \<and> valid_side (ord_Side (objs c ! the (l2_get c p)))" if "p \<in> set ds" for p
  proof -
    have "p \<in> set (askPrices c) \<or> p \<in> set (bidPrices c)" using that by (auto simp: ds gone_prices_def)
    then obtain x where "l2_book c p = Some x" by (auto simp: book_okD [OF ok] book_prices_def)
    from this l2_book_objs [OF ok this] show ?thesis by fastforce
  qed
  have map: "map (l2_get c) ds = map Some rows" using at by (auto simp: rows_def)
  have prices: "map ord_Price (map (\<lambda>r. objs c ! r) rows) = ds" using at by (auto simp: rows_def intro: map_idI)
  have "rows_ok DeleteAction (l2_book c) (map (\<lambda>r. objs c ! r) rows)"
  proof (rule rows_ok_delete)
    show "distinct (map ord_Price (map (\<lambda>r. objs c ! r) rows))" unfolding prices by (rule ds(2))
    show "valid_side (ord_Side o') \<and> (\<exists>x. l2_book c (ord_Price o') = Some x \<and> ord_Side x = ord_Side o')"
      if "o' \<in> set (map (\<lambda>r. objs c ! r) rows)" for o'
      using that at by (auto simp: rows_def)
    fix s assume s: "valid_side s"
    then obtain q where q: "q \<in> set (side_list c s)" "q \<in> set (partial_prices c s rs)"
      using ov by (auto simp: overlaps_def)
    then have "q \<notin> gone_prices c rs"
      using side_disjoint [OF ok, of q] s by (auto simp: gone_prices_def valid_side_def)
    moreover have "ord_Price ` set (map (\<lambda>r. objs c ! r) rows) = set ds"
      using prices by (metis list.set_map)
    ultimately show "\<exists>q\<in>book_prices (l2_book c) s. q \<notin> ord_Price ` set (map (\<lambda>r. objs c ! r) rows)"
      using q(1) book_ok_set [OF ok s] ds(1) by auto
  qed
  from merge_apply_ok [OF ok _ _ this] obtain c1 ps where
    "merge_apply c DeleteAction (map Some rows) = Ret (c1, ps)" "book_ok c1" "quote_ok c \<longrightarrow> quote_ok c1"
    "l2_book c1 = fold (row_effect DeleteAction) (map (\<lambda>r. objs c ! r) rows) (l2_book c)"
    "realtime c1 = realtime c" "objs c1 = objs c" "depths_in c ps"
    using at by (auto simp: rows_def)
  moreover have "ord_Price ` set (map (\<lambda>r. objs c ! r) rows) = gone_prices c rs"
    using prices ds(1) by (metis list.set_map)
  ultimately show ?thesis
    unfolding map by (intro exI [of _ c1] exI [of _ ps]) (simp add: fold_delete_at fun_eq_iff del: set_map)
qed

text \<open>The level of one price, followed through the three messages.\<close>

lemma merge_at:
  assumes dist: "distinct (map (\<lambda>r. ord_Price (objs c ! r)) rs)" and flip: "no_flip c rs" and ok: "book_ok c"
    and rs: "\<forall>r\<in>set rs. valid_side (ord_Side (objs c ! r))"
    and b1: "b1 = (\<lambda>p. if p \<in> gone_prices c rs then None else l2_book c p)"
    and b2: "b2 = fold (row_effect InsertAction) (map (\<lambda>r. objs c ! r) (ins_rows c rs)) b1"
    and b3: "b3 = fold (row_effect UpdateAction) (map (\<lambda>r. objs c ! r) (upd_rows c rs)) b2"
  shows "same_level (b3 p) (partial_book c rs p)"
proof -
  let ?f = "\<lambda>r. objs c ! r"
  have dm: "distinct (map ord_Price (map ?f (filter P rs)))" for P
    using dist by (simp add: distinct_map_filter comp_def)
  have find: "find (\<lambda>o'. ord_Price o' = p) (map ?f (filter P rs)) =
      (case find (\<lambda>r. ord_Price (?f r) = p) rs of None \<Rightarrow> None | Some r \<Rightarrow> if P r then Some (?f r) else None)" for P
    using dist
  proof (induction rs)
    case (Cons r rs)
    have "find (\<lambda>r. ord_Price (?f r) = p) rs = None" if "ord_Price (?f r) = p"
      using Cons.prems that by (auto simp: find_None_iff image_iff)
    then show ?case using Cons by auto
  qed simp
  have b2p: "b2 p = (case find (\<lambda>o'. ord_Price o' = p) (map ?f (ins_rows c rs)) of None \<Rightarrow> b1 p | Some o' \<Rightarrow> Some o')"
    unfolding b2 ins_rows_def by (rule read_rows_find [OF dm])
  have b3p: "b3 p = (case find (\<lambda>o'. ord_Price o' = p) (map ?f (upd_rows c rs)) of None \<Rightarrow> b2 p
     | Some o' \<Rightarrow> map_option (\<lambda>x. x\<lparr>ord_Size := ord_Size o'\<rparr>) (b2 p))"
    unfolding b3 upd_rows_def by (rule fold_update_at [OF dm])
  show ?thesis
  proof (cases "find (\<lambda>r. ord_Price (?f r) = p) rs")
    case None
    have "l2_book c p = None" if "p \<notin> gone_prices c rs"
    proof -
      have "p \<notin> set (partial_prices c s rs)" for s
        using None by (auto simp: partial_prices_def find_None_iff)
      then show ?thesis using that by (intro l2_book_None [OF ok]) (auto simp: gone_prices_def)
    qed
    then show ?thesis using None
      by (auto simp: b3p b2p upd_rows_def ins_rows_def find b1 partial_book_find [OF dist] same_level_def)
  next
    case (Some r)
    then have r: "r \<in> set rs" "ord_Price (?f r) = p" by (auto simp: find_Some_iff)
    have pp: "p \<in> set (partial_prices c (ord_Side (?f r)) rs)" using r by (auto simp: partial_prices_def)
    have "p \<notin> gone_prices c rs" if x: "l2_book c p = Some x" for x
    proof -
      have "ord_Side x = ord_Side (?f r)" using flip r x by (auto simp: no_flip_def)
      then show ?thesis using x pp by (auto simp: gone_prices_def book_okD(5,6) [OF ok] book_prices_def)
    qed
    then have b1p: "b1 p = l2_book c p" by (cases "l2_book c p") (simp_all add: b1)
    show ?thesis
    proof (cases "l2_book c p")
      case None
      then show ?thesis using Some r
        by (simp add: b3p b2p upd_rows_def ins_rows_def find partial_book_find [OF dist] same_level_def)
    next
      case x: (Some x)
      have "ord_Side x = ord_Side (?f r)" "ord_Price x = p"
        using flip r x l2_book_objs [OF ok x] by (auto simp: no_flip_def)
      then show ?thesis using Some r x
        by (auto simp: b3p b2p upd_rows_def ins_rows_def find b1p partial_book_find [OF dist] same_level_def)
    qed
  qed
qed

lemma partial_merge_run:
  assumes ok: "book_ok c" and p: "partial_ok c rs" and flip: "no_flip c rs" and ov: "overlaps c rs"
    and rng: "\<And>ks. set (rng ks) = set ks" "\<And>ks. distinct ks \<Longrightarrow> distinct (rng ks)"
  shows "\<exists>c' ps. partial_merge rng c (map Some rs) = Ret (c', ps) \<and> book_ok c' \<and> (quote_ok c \<longrightarrow> quote_ok c')
    \<and> realtime c' = realtime c \<and> depths_in c ps \<and> (\<forall>p. same_level (l2_book c' p) (partial_book c rs p))"
proof -
  let ?f = "\<lambda>r. objs c ! r"
  have rs: "\<forall>r\<in>set rs. r < length (objs c) \<and> valid_side (ord_Side (?f r))"
    and dist: "distinct (map (\<lambda>r. ord_Price (?f r)) rs)"
    using p by (simp_all add: partial_ok_def)
  have len: "\<forall>r\<in>set rs. r < length (objs c)" using rs by blast
  obtain newSell newBuy where new: "side_prices_of c ''Sell'' (map Some rs) = Ret newSell"
    "set newSell = set (partial_prices c ''Sell'' rs)" "side_prices_of c ''Buy'' (map Some rs) = Ret newBuy"
    "set newBuy = set (partial_prices c ''Buy'' rs)"
    using side_prices_of_ok [OF len] by metis
  define os ob where o: "os = NewFloat64Set (Some (askPrices c))" "ob = NewFloat64Set (Some (bidPrices c))"
  have so: "set os = set (askPrices c)" "set ob = set (bidPrices c)" by (simp_all add: o NewFloat64Set_set)
  obtain sa ba sd bd su bu where sets:
    "float64Set_Sub newSell (Float64SetV os) = Ret sa" "set sa = set newSell - set os"
    "float64Set_Sub newBuy (Float64SetV ob) = Ret ba" "set ba = set newBuy - set ob"
    "float64Set_Sub os (Float64SetV newSell) = Ret sd" "set sd = set os - set newSell"
    "float64Set_Sub ob (Float64SetV newBuy) = Ret bd" "set bd = set ob - set newBuy"
    "float64Set_Join os (Float64SetV newSell) = Ret su" "set su = set os"
    "float64Set_Join ob (Float64SetV newBuy) = Ret bu" "set bu = set ob"
    using float64Set_Sub_ok float64Set_Join_receiver by metis
  obtain dl where dl: "float64Set_Add sd (Float64SetV bd) = Ret dl" "distinct dl" "set dl = set sd \<union> set bd"
    using float64Set_Add_ok by blast
  have gone: "set (rng dl) = gone_prices c rs" "distinct (rng dl)"
    using dl(2,3) rng sets(6,8) new(2,4) so by (auto simp: gone_prices_def)
  from merge_deletes [OF ok ov gone] obtain c1 p1 where
    c1: "merge_apply c DeleteAction (map (l2_get c) (rng dl)) = Ret (c1, p1)" "book_ok c1"
    "quote_ok c \<longrightarrow> quote_ok c1" "realtime c1 = realtime c" "objs c1 = objs c"
    "l2_book c1 = (\<lambda>p. if p \<in> gone_prices c rs then None else l2_book c p)" "depths_in c p1" by blast
  define N where "N s = set (partial_prices c s rs)" for s
  have N: "ord_Price (?f r) \<in> N s \<longleftrightarrow> s = ord_Side (?f r)" if "r \<in> set rs" for r s
    using that dist by (auto simp: N_def partial_prices_def distinct_map dest: inj_onD)
  have kept: "l2_book c1 (ord_Price (?f r)) = l2_book c (ord_Price (?f r))" if r: "r \<in> set rs" for r
  proof (cases "l2_book c (ord_Price (?f r))")
    case (Some x)
    then have "ord_Side x = ord_Side (?f r)" using flip r by (simp add: no_flip_def)
    then have "ord_Price (?f r) \<notin> gone_prices c rs"
      using Some N [OF r] by (auto simp: gone_prices_def book_okD(5,6) [OF ok] book_prices_def N_def)
    then show ?thesis by (simp add: c1(6))
  qed (simp add: c1(6))
  have rows: "go_fold (merge_row c1 sa ba su bu) ([], []) (map Some rs) =
      Ret (map Some (ins_rows c rs), map Some (upd_rows c rs))"
    using merge_rows_ok [OF ok c1(5,2) rs flip _ _, of N sa ba su bu "[]" "[]"] kept N sets so new(2,4)
    by (simp add: N_def)
  have "rows_ok InsertAction (l2_book c1) (map (\<lambda>r. objs c1 ! r) (ins_rows c rs))"
    using rs kept dist by (intro rows_ok_insert) (auto simp: ins_rows_def c1(5) comp_def distinct_map_filter)
  from merge_apply_ok [OF c1(2) _ _ this] obtain c2 p2 where
    c2: "merge_apply c1 InsertAction (map Some (ins_rows c rs)) = Ret (c2, p2)" "book_ok c2"
    "quote_ok c1 \<longrightarrow> quote_ok c2" "realtime c2 = realtime c" "objs c2 = objs c"
    "l2_book c2 = fold (row_effect InsertAction) (map ?f (ins_rows c rs)) (l2_book c1)" "depths_in c1 p2"
    using len c1(4,5) by (auto simp: ins_rows_def)
  have at2: "l2_book c2 (ord_Price (?f r)) = l2_book c (ord_Price (?f r))" if r: "r \<in> set (upd_rows c rs)" for r
  proof -
    have notin: "ord_Price (?f r) \<notin> ord_Price ` set (map ?f (ins_rows c rs))"
      using r by (auto simp: upd_rows_def ins_rows_def split: option.splits)
    have "fold (row_effect InsertAction) (map ?f (ins_rows c rs)) (l2_book c1) (ord_Price (?f r)) =
        l2_book c1 (ord_Price (?f r))"
    proof (subst read_rows_find)
      show "distinct (map ord_Price (map ?f (ins_rows c rs)))"
        using dist by (simp add: ins_rows_def comp_def distinct_map_filter)
      have "find (\<lambda>o'. ord_Price o' = ord_Price (?f r)) (map ?f (ins_rows c rs)) = None"
        using notin by (auto simp: find_None_iff image_iff)
      then show "(case find (\<lambda>o'. ord_Price o' = ord_Price (?f r)) (map ?f (ins_rows c rs)) of
          None \<Rightarrow> l2_book c1 (ord_Price (?f r)) | Some o' \<Rightarrow> Some o') = l2_book c1 (ord_Price (?f r))"
        by simp
    qed
    then show ?thesis using kept [of r] r by (simp add: c2(6) upd_rows_def)
  qed
  have "rows_ok UpdateAction (l2_book c2) (map (\<lambda>r. objs c2 ! r) (upd_rows c rs))"
    using rs flip at2 unfolding c2(5)
    by (intro rows_ok_update) (auto simp: upd_rows_def no_flip_def split: option.splits)
  moreover have "l2_get c2 q \<noteq> Some r" if r: "r \<in> set (upd_rows c rs)" for r q
  proof
    assume q: "l2_get c2 q = Some r"
    then have "q = ord_Price (?f r)" "l2_book c2 q = Some (?f r)"
      using book_okD(1) [OF c2(2)] by (auto simp: levels_ok_def l2_book_def c2(5))
    then show False using at2 [OF r] r by (auto simp: upd_rows_def)
  qed
  ultimately obtain c3 p3 where
    c3: "merge_apply c2 UpdateAction (map Some (upd_rows c rs)) = Ret (c3, p3)" "book_ok c3"
    "quote_ok c2 \<longrightarrow> quote_ok c3" "realtime c3 = realtime c"
    "l2_book c3 = fold (row_effect UpdateAction) (map ?f (upd_rows c rs)) (l2_book c2)" "depths_in c2 p3"
    using merge_apply_ok [OF c2(2), of UpdateAction "upd_rows c rs"] len c2(4,5) by (auto simp: upd_rows_def)
  have "same_level (l2_book c3 p) (partial_book c rs p)" for p
    using rs by (intro merge_at [OF dist flip ok _ c1(6) _ c3(5)]) (simp_all add: c2(6))
  moreover have "partial_merge rng c (map Some rs) = Ret (c3, p1 @ p2 @ p3)"
    by (simp add: partial_merge_def new(1,3) o [symmetric] sets(1,3,5,7,9,11) dl(1) float64Set_Values_def
        c1(1) rows c2(1) c3(1) Let_def)
  moreover have "depths_in c (p1 @ p2 @ p3)"
    using c1(4,7) c2(4,7) c3(6) by (auto simp: depths_in_def)
  ultimately show ?thesis
    using c1(3) c2(3) c3 by (intro exI [of _ c3] exI [of _ "p1 @ p2 @ p3"]) simp
qed

end
