(* ===== verification/TableCaches.thy ===== *)
theory TableCaches
  imports Channels PriceList
begin

text \<open>
  \<open>utils/cache_trade.go\<close> and \<open>utils/cache_instrument.go\<close>: the trade history and the
  instrument table. Rows are values: the code keeps the row objects of the messages, and the
  only writes through them, those of \<open>handleUpdate\<close>, go to the cached instrument. The
  order in which \<open>snapshot\<close> ranges over the instrument map is the argument \<open>rng\<close>.
  The result of a handler also says which message it publishes on the realtime channel of
  depth 0.
\<close>

section \<open>Trades\<close>

definition maxMultiple :: int where "maxMultiple = 3"
definition maxTradeLen :: int where "maxTradeLen = 200"

record tradeCache =
  historyTrade :: "trade list"

definition trade_snapshot :: "tradeCache \<Rightarrow> int \<Rightarrow> trade dataResponse go" where
  "trade_snapshot c depth =
     (let hisLen = int (length (historyTrade c));
          trimLen = (if depth < 1 then MinInt hisLen maxTradeLen else MinInts [maxTradeLen, hisLen, depth])
      in Ret (NewTradePartial\<lparr>Data := drop (nat (hisLen - trimLen)) (historyTrade c)\<rparr>))"

definition trade_applyData :: "tradeCache \<Rightarrow> trade dataResponse \<Rightarrow> tradeCache \<times> bool" where
  "trade_applyData c data =
     (if Action data = PartialAction then
        (c\<lparr>historyTrade := Data data\<rparr>, length (historyTrade c) < 1)
      else if Action data = InsertAction then
        (let his = historyTrade c @ Data data; hisLen = int (length his) in
         (c\<lparr>historyTrade := (if hisLen > maxTradeLen * maxMultiple
             then drop (nat (hisLen - maxTradeLen * maxMultiple div 2)) his else his)\<rparr>, True))
      else (c, False))"

text \<open>A nil message is reported with its own \<open>String\<close> method: a nil dereference.\<close>

definition trade_handleInput :: "tradeCache \<Rightarrow> 'o table_msg option \<Rightarrow> (tradeCache \<times> trade dataResponse list) go" where
  "trade_handleInput c msg =
     (case msg of
        None \<Rightarrow> Panic NilDereference
      | Some (TradeResponse td) \<Rightarrow>
          (let (c', publish) = trade_applyData c td in Ret (c', if publish then [td] else []))
      | Some _ \<Rightarrow> Ret (c, []))"

text \<open>The history never grows beyond the limit, and always ends with the newest trades.\<close>

definition history_ok :: "tradeCache \<Rightarrow> bool" where
  "history_ok c \<longleftrightarrow> int (length (historyTrade c)) \<le> maxTradeLen * maxMultiple"

definition trade_cut :: "nat \<Rightarrow> nat" where
  "trade_cut n = (if 600 < n then n - 300 else 0)"

lemma trade_cut_keeps: "300 \<le> n \<Longrightarrow> trade_cut n + 300 \<le> n"
  by (auto simp: trade_cut_def)

lemma trade_insert_history:
  assumes "Action data = InsertAction"
  shows "historyTrade (fst (trade_applyData c data)) =
    drop (trade_cut (length (historyTrade c @ Data data))) (historyTrade c @ Data data)"
proof -
  have "nat (int n - maxTradeLen * maxMultiple div 2) = n - 300"
    "(int n > maxTradeLen * maxMultiple) = (600 < n)" for n
    by (auto simp: maxTradeLen_def maxMultiple_def)
  then have cut: "(if int (length h) > maxTradeLen * maxMultiple
      then drop (nat (int (length h) - maxTradeLen * maxMultiple div 2)) h else h) = drop (trade_cut (length h)) h"
    for h :: "trade list" by (simp add: trade_cut_def)
  show ?thesis
    using assms by (simp add: trade_applyData_def Let_def cut InsertAction_def PartialAction_def
        del: length_append drop_append)
qed

lemma trade_insert_bound:
  assumes "Action data = InsertAction"
  shows "history_ok (fst (trade_applyData c data))"
  using assms by (auto simp: history_ok_def trade_applyData_def Let_def InsertAction_def PartialAction_def
      maxTradeLen_def maxMultiple_def)

lemma trade_snapshot_last:
  "\<exists>n. trade_snapshot c depth = Ret (NewTradePartial\<lparr>Data := topn n (historyTrade c)\<rparr>)
    \<and> n \<le> 200 \<and> (0 < depth \<longrightarrow> int n \<le> depth) \<and> (depth < 1 \<longrightarrow> n = min 200 (length (historyTrade c)))
    \<and> (0 < depth \<longrightarrow> n = min 200 (min (length (historyTrade c)) (nat depth)))"
proof -
  let ?l = "length (historyTrade c)"
  define n where "n = (if depth < 1 then min 200 ?l else min 200 (min ?l (nat depth)))"
  have "nat (int ?l - (if depth < 1 then MinInt (int ?l) maxTradeLen else MinInts [maxTradeLen, int ?l, depth])) = ?l - n"
    by (auto simp: n_def MinInt_def MinInts_def maxTradeLen_def)
  then have "trade_snapshot c depth = Ret (NewTradePartial\<lparr>Data := topn n (historyTrade c)\<rparr>)"
    by (simp add: trade_snapshot_def Let_def topn_def)
  then show ?thesis by (intro exI [of _ n]) (auto simp: n_def)
qed

section \<open>Instruments\<close>

definition maxInsLength :: int where "maxInsLength = (3600 div 5) * 24"

record instrumentCache =
  indicativePriceList :: "float64 list"
  markPriceList :: "float64 list"
  insCache :: "(string, instrument) gomap option"

definition newInstrumentCache :: instrumentCache where
  "newInstrumentCache = \<lparr>indicativePriceList = [], markPriceList = [], insCache = None\<rparr>"

definition ins_get :: "instrumentCache \<Rightarrow> string \<Rightarrow> instrument option" where
  "ins_get c s = (case insCache c of None \<Rightarrow> None | Some m \<Rightarrow> map_of m s)"

definition ins_snapshot :: "(string list \<Rightarrow> string list) \<Rightarrow> instrumentCache \<Rightarrow> int \<Rightarrow> instrument dataResponse" where
  "ins_snapshot rng c depth =
     NewInstrumentPartial\<lparr>Data := map (\<lambda>s. the (ins_get c s))
       (rng (case insCache c of None \<Rightarrow> [] | Some m \<Rightarrow> gokeys m))\<rparr>"

definition trim_prices :: "float64 list \<Rightarrow> float64 list" where
  "trim_prices ps =
     (let len = int (length ps) in
      if len > maxInsLength * maxMultiple then drop (nat (len - maxInsLength * maxMultiple div 2)) ps else ps)"

definition applyInsPrice :: "float64 \<Rightarrow> float64 \<Rightarrow> instrumentCache \<Rightarrow> instrumentCache" where
  "applyInsPrice indPrice markPrice c =
     c\<lparr>indicativePriceList := trim_prices (indicativePriceList c @ [indPrice]),
       markPriceList := trim_prices (markPriceList c @ [markPrice])\<rparr>"

definition ins_initCache :: "instrumentCache \<Rightarrow> instrumentCache" where
  "ins_initCache c = c\<lparr>insCache := Some []\<rparr>"

definition ins_handlePartial :: "instrumentCache \<Rightarrow> instrument dataResponse \<Rightarrow> instrumentCache \<times> bool" where
  "ins_handlePartial c rsp =
     (let (c1, changed) = (if insCache c = None then (ins_initCache c, True) else (c, False))
      in (fold (\<lambda>ins c. c\<lparr>insCache := map_option (AList.update (ins_Symbol ins) ins) (insCache c)\<rparr>) (Data rsp) c1,
          changed))"

text \<open>The four groups of fields an update carries, each guarded by its first price.\<close>

definition merge_mark :: "instrument \<Rightarrow> instrument \<times> bool \<Rightarrow> instrument \<times> bool" where
  "merge_mark data s =
     (case s of (ins, changed) \<Rightarrow>
      if IndicativeSettlePrice data > 0 \<and> MarkPrice data > 0 then
        (ins\<lparr>IndicativeSettlePrice := IndicativeSettlePrice data, MarkPrice := MarkPrice data,
             FairBasis := FairBasis data, FairPrice := FairPrice data, PrevMarkPrice24H := PrevMarkPrice24H data\<rparr>,
         changed \<or> IndicativeSettlePrice ins \<noteq> IndicativeSettlePrice data \<or> MarkPrice ins \<noteq> MarkPrice data)
      else s)"

definition merge_quote :: "instrument \<Rightarrow> instrument \<times> bool \<Rightarrow> instrument \<times> bool" where
  "merge_quote data s =
     (case s of (ins, changed) \<Rightarrow>
      if BidPrice data > 0 then
        (ins\<lparr>BidPrice := BidPrice data, AskPrice := AskPrice data\<rparr>,
         changed \<or> BidPrice ins \<noteq> BidPrice data \<or> AskPrice ins \<noteq> AskPrice data)
      else s)"

definition merge_last :: "instrument \<Rightarrow> instrument \<times> bool \<Rightarrow> instrument \<times> bool" where
  "merge_last data s =
     (case s of (ins, changed) \<Rightarrow>
      if LastPrice data > 0 then
        (ins\<lparr>LastPrice := LastPrice data, PrevPrice24h := PrevPrice24h data, LastChangePcnt := LastChangePcnt data,
             LastTickDirection := LastTickDirection data, Volume := Volume data, Volume24h := Volume24h data,
             TotalVolume := TotalVolume data, PrevTotalVolume := PrevTotalVolume data,
             Turnover := Turnover data, Turnover24h := Turnover24h data,
             TotalTurnover := TotalTurnover data, PrevTotalTurnover := PrevTotalTurnover data\<rparr>, True)
      else s)"

definition merge_funding :: "instrument \<Rightarrow> instrument \<times> bool \<Rightarrow> instrument \<times> bool" where
  "merge_funding data s =
     (case s of (ins, changed) \<Rightarrow>
      if FundingRate data > 0 then
        (ins\<lparr>FundingRate := FundingRate data, FundingTimestamp := FundingTimestamp data\<rparr>, True)
      else s)"

definition ins_merge :: "instrument \<Rightarrow> instrument \<Rightarrow> instrument \<times> bool" where
  "ins_merge data ins = merge_funding data (merge_last data (merge_quote data (merge_mark data (ins, False))))"

definition ins_handleUpdate :: "instrumentCache \<Rightarrow> instrument \<Rightarrow> instrumentCache \<times> bool \<times> error option" where
  "ins_handleUpdate c data =
     (case ins_get c (ins_Symbol data) of
        None \<Rightarrow> (c, False, Some (''Partial data missing for '' @ ins_Symbol data))
      | Some ins \<Rightarrow>
          (let c1 = (if IndicativeSettlePrice data > 0 \<and> MarkPrice data > 0
                     then applyInsPrice (IndicativeSettlePrice data) (MarkPrice data) c else c);
               (ins', changed) = ins_merge data ins
           in (c1\<lparr>insCache := map_option (AList.update (ins_Symbol data) ins') (insCache c1)\<rparr>, changed, None)))"

text \<open>\<open>changed\<close> is assigned anew by every row: the last row decides.\<close>

definition ins_applyData :: "instrumentCache \<Rightarrow> instrument dataResponse \<Rightarrow> instrumentCache \<times> bool" where
  "ins_applyData c rsp =
     (if Action rsp = PartialAction then ins_handlePartial c rsp
      else if Action rsp = UpdateAction then
        fold (\<lambda>data s. case ins_handleUpdate (fst s) data of (c', changed, _) \<Rightarrow> (c', changed)) (Data rsp) (c, False)
      else (c, False))"

definition ins_handleInput :: "instrumentCache \<Rightarrow> 'o table_msg option \<Rightarrow> (instrumentCache \<times> instrument dataResponse list) go" where
  "ins_handleInput c msg =
     (case msg of
        None \<Rightarrow> Panic NilDereference
      | Some (InstrumentResponse ins) \<Rightarrow>
          (let (c', changed) = ins_applyData c ins in Ret (c', if changed then [ins] else []))
      | Some _ \<Rightarrow> Ret (c, []))"

section \<open>Facts on the instrument table\<close>

definition ins_ok :: "instrumentCache \<Rightarrow> bool" where
  "ins_ok c \<longleftrightarrow> (\<forall>s i. ins_get c s = Some i \<longrightarrow> ins_Symbol i = s)
     \<and> int (length (indicativePriceList c)) \<le> maxInsLength * maxMultiple
     \<and> int (length (markPriceList c)) \<le> maxInsLength * maxMultiple"

lemma trim_prices_bound: "int (length (trim_prices ps)) \<le> maxInsLength * maxMultiple"
  by (auto simp: trim_prices_def Let_def maxInsLength_def maxMultiple_def)

lemma ins_merge_Symbol: "ins_Symbol (fst (ins_merge data ins)) = ins_Symbol ins"
  by (simp add: ins_merge_def merge_mark_def merge_quote_def merge_last_def merge_funding_def split: prod.split)

lemma ins_get_applyInsPrice [simp]: "ins_get (applyInsPrice a b c) = ins_get c" "insCache (applyInsPrice a b c) = insCache c"
  by (simp_all add: applyInsPrice_def ins_get_def fun_eq_iff)

lemma ins_get_put: "ins_get (c\<lparr>insCache := map_option (AList.update s i) (insCache c)\<rparr>) t =
    (if t = s \<and> insCache c \<noteq> None then Some i else ins_get c t)"
  by (auto simp: ins_get_def split: option.splits)

lemma ins_handleUpdate_get:
  assumes "ins_get c (ins_Symbol data) = Some ins"
  shows "ins_get (fst (ins_handleUpdate c data)) t =
    (if t = ins_Symbol data then Some (fst (ins_merge data ins)) else ins_get c t)"
proof -
  have "insCache c \<noteq> None" using assms by (auto simp: ins_get_def split: option.splits)
  then show ?thesis
    using assms by (simp add: ins_handleUpdate_def Let_def split_beta ins_get_put) (auto simp: ins_get_def)
qed

lemma ins_handleUpdate_ok:
  assumes ok: "ins_ok c"
  shows "ins_ok (fst (ins_handleUpdate c data))"
proof (cases "ins_get c (ins_Symbol data)")
  case None
  then show ?thesis using ok by (simp add: ins_handleUpdate_def)
next
  case (Some ins)
  let ?c = "fst (ins_handleUpdate c data)"
  have "ins_Symbol i = s" if "ins_get ?c s = Some i" for s i
    using that ok Some by (auto simp: ins_handleUpdate_get [OF Some] ins_ok_def ins_merge_Symbol split: if_splits)
  moreover have "int (length (indicativePriceList ?c)) \<le> maxInsLength * maxMultiple"
    "int (length (markPriceList ?c)) \<le> maxInsLength * maxMultiple"
    using ok Some trim_prices_bound
    by (auto simp: ins_handleUpdate_def Let_def split_beta applyInsPrice_def ins_ok_def)
  ultimately show ?thesis by (simp add: ins_ok_def)
qed

lemma ins_applyData_ok:
  assumes "ins_ok c"
  shows "ins_ok (fst (ins_applyData c rsp))"
proof -
  have part: "ins_ok c \<Longrightarrow>
     ins_ok (fold (\<lambda>ins c. c\<lparr>insCache := map_option (AList.update (ins_Symbol ins) ins) (insCache c)\<rparr>) is c)"
    for "is" and c :: instrumentCache
  proof (induction "is" arbitrary: c)
    case (Cons i "is")
    have "ins_ok (c\<lparr>insCache := map_option (AList.update (ins_Symbol i) i) (insCache c)\<rparr>)"
      using Cons.prems by (auto simp: ins_ok_def ins_get_put split: if_splits)
    then show ?case using Cons.IH by simp
  qed simp
  have "ins_ok (ins_initCache c)" using assms by (auto simp: ins_ok_def ins_initCache_def ins_get_def)
  then have p: "ins_ok (fst (ins_handlePartial c rsp))"
    using assms part by (simp add: ins_handlePartial_def Let_def split_beta)
  have "ins_ok (fst s) \<Longrightarrow>
     ins_ok (fst (fold (\<lambda>data s. case ins_handleUpdate (fst s) data of (c', changed, _) \<Rightarrow> (c', changed)) ds s))"
    for ds s
  proof (induction ds arbitrary: s)
    case (Cons d ds)
    then show ?case using ins_handleUpdate_ok [of "fst s" d] by (simp add: split_beta)
  qed simp
  then show ?thesis using assms p by (simp add: ins_applyData_def)
qed

end
