(* ===== verification/CachePipeline.thy ===== *)
theory CachePipeline
  imports Channels
begin

text \<open>
  \<open>utils/cache.go\<close>: the part the three caches share. Inputs are appended to a queue, the
  \<open>pipeline\<close>, and one goroutine handles them in order; a snapshot is a breakpoint that
  travels through the same queue. \<open>handleInputFn\<close> and \<open>snapshotFn\<close>, the closures a cache
  installs, are the arguments \<open>handle\<close> and \<open>snap\<close>; \<open>handle\<close> gets the realtime group of
  channels and returns what it publishes, a depth and a message each.

  The queue is not bounded (a send waits while it is full). The Go channel a caller of
  \<open>TakeSnapshot\<close> waits on is a number, and \<open>answers\<close> holds what was sent to it.
\<close>

section \<open>State\<close>

datatype 'i cache_input =
    CacheMsg "'i option"
  | CacheBreak int "nat option" string nat

record ('s, 'i, 'm) tableCache =
  table :: 's
  channelGroup :: "(int, nat) gomap option list"
  pipeline :: "'i cache_input option list"
  pipelineClosed :: bool
  readyClosed :: bool
  cacheReady :: bool
  cacheClosed :: bool
  answers :: "(nat, 'm) gomap"

type_synonym ('s, 'i, 'm) handle_fn = "(int, nat) gomap \<Rightarrow> 's \<Rightarrow> 'i option \<Rightarrow> ('s \<times> (int \<times> 'm) list) go"
type_synonym ('s, 'm) snapshot_fn = "'s \<Rightarrow> int \<Rightarrow> 'm go"

definition Realtime :: nat where "Realtime = 0"
definition Snapshot :: nat where "Snapshot = 1"
definition Tick :: nat where "Tick = 2"

definition realtime_group :: "('s, 'i, 'm) tableCache \<Rightarrow> (int, nat) gomap" where
  "realtime_group c = (case channelGroup c of Some g # _ \<Rightarrow> g | _ \<Rightarrow> [])"

definition IsBreakPoint :: "'i cache_input \<Rightarrow> bool" where
  "IsBreakPoint inp = (case inp of CacheBreak _ _ _ _ \<Rightarrow> True | CacheMsg _ \<Rightarrow> False)"

definition cacheInput_GetData :: "'i cache_input \<Rightarrow> 'i option" where
  "cacheInput_GetData inp = (case inp of CacheMsg m \<Rightarrow> m | CacheBreak _ _ _ _ \<Rightarrow> None)"

definition NewCacheInput :: "'i option \<Rightarrow> 'i cache_input" where
  "NewCacheInput msg = CacheMsg msg"

section \<open>Publications\<close>

definition emit :: "(int, nat) gomap \<Rightarrow> (int \<times> 'm) list \<Rightarrow> 'm world \<Rightarrow> 'm world go" where
  "emit rt ps w =
     go_fold (\<lambda>w (depth, m). case map_of rt depth of
         None \<Rightarrow> Panic NilDereference
       | Some n \<Rightarrow> go_bind (PublishData m (chans w n)) (\<lambda>(ch, _). Ret (put_chan n ch w))) w ps"

section \<open>Operations\<close>

definition group_channels :: "('s, 'i, 'm) tableCache \<Rightarrow> nat list" where
  "group_channels c = concat (map (\<lambda>g. case g of None \<Rightarrow> [] | Some m \<Rightarrow> map snd m) (channelGroup c))"

text \<open>\<open>Start\<close>: the results of starting the channels are ignored.\<close>

definition cache_Start :: "('s, 'i, 'm) tableCache \<times> 'm world \<Rightarrow> ((('s, 'i, 'm) tableCache \<times> 'm world) \<times> error option) go" where
  "cache_Start s =
     (case s of (c, w) \<Rightarrow>
        if cacheReady c then Ret (s, Some ''cache is already started'')
        else if cacheClosed c then Ret (s, Some ''cache is already closed'')
        else
          (let w1 = fold (\<lambda>n w. put_chan n (fst (Start (chans w n))) w) (group_channels c) w;
               c1 = c\<lparr>cacheReady := True, cacheClosed := False\<rparr>
           in if readyClosed c then Panic CloseOfClosed
              else Ret ((c1\<lparr>readyClosed := True\<rparr>, w1), None)))"

definition cache_Stop :: "('s, 'i, 'm) tableCache \<times> 'm world \<Rightarrow> ((('s, 'i, 'm) tableCache \<times> 'm world) \<times> error option) go" where
  "cache_Stop s =
     (case s of (c, w) \<Rightarrow>
        if cacheClosed c then Ret (s, Some ''cache is already stopped'')
        else if \<not> cacheReady c then Ret (s, Some ''cache is not ready'')
        else if pipelineClosed c then Panic CloseOfClosed
        else
          (let c1 = c\<lparr>cacheClosed := True, cacheReady := False, pipelineClosed := True\<rparr>
           in go_bind (go_fold (\<lambda>w n. go_bind (Close n w) (\<lambda>(w', _). Ret w')) w (group_channels c))
                (\<lambda>w'. Ret ((c1, w'), None))))"

definition send_pipeline :: "'i cache_input option \<Rightarrow> ('s, 'i, 'm) tableCache \<Rightarrow> ('s, 'i, 'm) tableCache go" where
  "send_pipeline inp c =
     (if pipelineClosed c then Panic SendOnClosed else Ret (c\<lparr>pipeline := pipeline c @ [inp]\<rparr>))"

definition Append :: "'i cache_input option \<Rightarrow> ('s, 'i, 'm) tableCache \<Rightarrow> ('s, 'i, 'm) tableCache go" where
  "Append inp c = send_pipeline inp c"

text \<open>\<open>TakeSnapshot\<close> up to the wait: \<open>k\<close> is the new Go channel it then receives from.\<close>

definition TakeSnapshot :: "int \<Rightarrow> nat option \<Rightarrow> string \<Rightarrow> nat \<Rightarrow> ('s, 'i, 'm) tableCache \<Rightarrow> ('s, 'i, 'm) tableCache go" where
  "TakeSnapshot depth publish session k c = send_pipeline (Some (CacheBreak depth publish session k)) c"

definition GetRspChannel :: "nat \<Rightarrow> int \<Rightarrow> ('s, 'i, 'm) tableCache \<Rightarrow> nat option go" where
  "GetRspChannel chType depth c =
     (let depth' = (if depth < 1 then 0 else depth) in
      go_bind (go_at (channelGroup c) chType) (\<lambda>chGroup.
        Ret (case chGroup of None \<Rightarrow> None | Some g \<Rightarrow> map_of g depth')))"

definition GetDefaultChannel :: "('s, 'i, 'm) tableCache \<Rightarrow> nat option go" where
  "GetDefaultChannel c =
     (if cacheClosed c then Ret None
      else if \<not> cacheReady c \<and> \<not> readyClosed c then Blocked
      else go_bind (go_at (channelGroup c) Realtime) (\<lambda>g.
        Ret (case g of None \<Rightarrow> None | Some m \<Rightarrow> map_of m 0)))"

section \<open>The goroutine\<close>

text \<open>The closure of \<open>TakeSnapshot\<close>; an error of the publication is only logged.\<close>

definition run_breakpoint :: "('s, 'm) snapshot_fn \<Rightarrow> int \<Rightarrow> nat option \<Rightarrow> string \<Rightarrow> nat
    \<Rightarrow> ('s, 'i, 'm) tableCache \<times> 'm world \<Rightarrow> (('s, 'i, 'm) tableCache \<times> 'm world) go" where
  "run_breakpoint snap depth publish session k s =
     (case s of (c, w) \<Rightarrow>
        go_bind (snap (table c) depth) (\<lambda>m.
        go_bind (case publish of
             None \<Rightarrow> Ret w
           | Some n \<Rightarrow> go_bind (PublishDataToDestination m session (chans w n)) (\<lambda>(ch, _). Ret (put_chan n ch w)))
          (\<lambda>w'. Ret (c\<lparr>answers := AList.update k m (answers c)\<rparr>, w'))))"

definition handle_cacheInput :: "('s, 'i, 'm) handle_fn \<Rightarrow> ('s, 'm) snapshot_fn \<Rightarrow> 'i cache_input
    \<Rightarrow> ('s, 'i, 'm) tableCache \<times> 'm world \<Rightarrow> (('s, 'i, 'm) tableCache \<times> 'm world) go" where
  "handle_cacheInput handle snap inp s =
     (case s of (c, w) \<Rightarrow>
        case inp of
          CacheBreak depth publish session k \<Rightarrow> run_breakpoint snap depth publish session k s
        | CacheMsg msg \<Rightarrow>
            go_bind (handle (realtime_group c) (table c) msg) (\<lambda>(t, ps).
            go_bind (emit (realtime_group c) ps w) (\<lambda>w'. Ret (c\<lparr>table := t\<rparr>, w'))))"

definition cache_exit :: "('s, 'i, 'm) tableCache \<Rightarrow> ('s, 'i, 'm) tableCache" where
  "cache_exit c = c\<lparr>cacheReady := False, cacheClosed := True\<rparr>"

text \<open>One turn; the flag says whether the goroutine goes on.\<close>

definition cache_turn :: "('s, 'i, 'm) handle_fn \<Rightarrow> ('s, 'm) snapshot_fn
    \<Rightarrow> ('s, 'i, 'm) tableCache \<times> 'm world \<Rightarrow> ((('s, 'i, 'm) tableCache \<times> 'm world) \<times> bool) go" where
  "cache_turn handle snap s =
     (case s of (c, w) \<Rightarrow>
        case pipeline c of
          [] \<Rightarrow> if pipelineClosed c then Ret ((cache_exit c, w), False) else Blocked
        | None # q \<Rightarrow> Ret ((c\<lparr>pipeline := q\<rparr>, w), True)
        | Some obj # q \<Rightarrow>
            go_bind (handle_cacheInput handle snap obj (c\<lparr>pipeline := q\<rparr>, w)) (\<lambda>s'. Ret (s', True)))"

fun cache_run :: "('s, 'i, 'm) handle_fn \<Rightarrow> ('s, 'm) snapshot_fn \<Rightarrow> nat
    \<Rightarrow> ('s, 'i, 'm) tableCache \<times> 'm world \<Rightarrow> (('s, 'i, 'm) tableCache \<times> 'm world) go" where
  "cache_run handle snap 0 s = Ret s"
| "cache_run handle snap (Suc k) s =
     go_bind (cache_turn handle snap s) (\<lambda>(s', goes). if goes then cache_run handle snap k s' else Ret s')"

section \<open>Order of the pipeline\<close>

text \<open>The specification: the handler folded over the messages, with all it publishes.\<close>

fun feed :: "('s, 'i, 'm) handle_fn \<Rightarrow> (int, nat) gomap \<Rightarrow> 's \<Rightarrow> 'i option list \<Rightarrow> ('s \<times> (int \<times> 'm) list) go" where
  "feed handle rt t [] = Ret (t, [])"
| "feed handle rt t (m # ms) =
     go_bind (handle rt t m) (\<lambda>(t1, ps).
     go_bind (feed handle rt t1 ms) (\<lambda>(t2, qs). Ret (t2, ps @ qs)))"

lemma emit_append: "emit rt (ps @ qs) w = go_bind (emit rt ps w) (emit rt qs)"
  by (simp add: emit_def [abs_def] go_fold_append)

lemma cache_run_feed:
  assumes "feed handle (realtime_group c) (table c) ms = Ret (t, ps)"
    and "emit (realtime_group c) ps w = Ret w'"
    and "pipeline c = map (\<lambda>m. Some (CacheMsg m)) ms @ rest"
  shows "cache_run handle snap (length ms + k) (c, w) = cache_run handle snap k (c\<lparr>table := t, pipeline := rest\<rparr>, w')"
  using assms
proof (induction ms arbitrary: c w ps)
  case Nil
  have "c\<lparr>table := table c, pipeline := pipeline c\<rparr> = c" by simp
  with Nil show ?case by (auto simp: emit_def)
next
  case (Cons m ms)
  from Cons.prems(1) obtain t1 p1 p2 where
    h: "handle (realtime_group c) (table c) m = Ret (t1, p1)"
    and f: "feed handle (realtime_group c) t1 ms = Ret (t, p2)" and ps: "ps = p1 @ p2"
    by (auto simp: go_bind_Ret_iff split: prod.splits)
  from Cons.prems(2) obtain w1 where
    e: "emit (realtime_group c) p1 w = Ret w1" "emit (realtime_group c) p2 w1 = Ret w'"
    by (auto simp: ps emit_append go_bind_Ret_iff)
  let ?q = "map (\<lambda>m. Some (CacheMsg m)) ms @ rest"
  let ?c1 = "c\<lparr>pipeline := ?q, table := t1\<rparr>"
  have g: "realtime_group (c\<lparr>pipeline := ?q\<rparr>) = realtime_group c" "realtime_group ?c1 = realtime_group c"
    by (simp_all add: realtime_group_def)
  have turn: "cache_turn handle snap (c, w) = Ret ((?c1, w1), True)"
    using Cons.prems(3) h e(1) g(1) by (simp add: cache_turn_def handle_cacheInput_def)
  have "cache_run handle snap (length ms + k) (?c1, w1) = cache_run handle snap k (?c1\<lparr>table := t, pipeline := rest\<rparr>, w')"
    using f e(2) g(2) by (intro Cons.IH) simp_all
  then show ?case using turn by simp
qed

text \<open>A snapshot sees exactly the inputs that were queued before it.\<close>

lemma snapshot_in_order:
  assumes f: "feed handle (realtime_group c) (table c) ms = Ret (t, ps)"
    and e: "emit (realtime_group c) ps w = Ret w'"
    and q: "pipeline c = map (\<lambda>m. Some (CacheMsg m)) ms @ Some (CacheBreak depth None s k) # rest"
    and snap: "snap t depth = Ret x"
  shows "\<exists>c'. cache_run handle snap (Suc (length ms)) (c, w) = Ret (c', w')
    \<and> table c' = t \<and> pipeline c' = rest \<and> map_of (answers c') k = Some x"
proof -
  let ?c1 = "c\<lparr>table := t, pipeline := Some (CacheBreak depth None s k) # rest\<rparr>"
  let ?c2 = "?c1\<lparr>pipeline := rest, answers := AList.update k x (answers c)\<rparr>"
  have "cache_turn handle snap (?c1, w') = Ret ((?c2, w'), True)"
    using snap by (simp add: cache_turn_def handle_cacheInput_def run_breakpoint_def)
  then have "cache_run handle snap (length ms + 1) (c, w) = Ret (?c2, w')"
    using cache_run_feed [OF f e q, of snap 1] by simp
  then show ?thesis by (intro exI [of _ ?c2]) simp
qed

section \<open>Publications reach the queues\<close>

text \<open>The messages of one depth among the publications.\<close>

definition at_depth :: "int \<Rightarrow> (int \<times> 'm) list \<Rightarrow> 'm list" where
  "at_depth d ps = map snd (filter (\<lambda>p. fst p = d) ps)"

lemma emit_spec:
  assumes "\<forall>p\<in>set ps. fst p \<in> fst ` set rt" and "distinct (map fst rt)" and "distinct (map snd rt)"
    and "\<forall>(d, n)\<in>set rt. chan_open (chans w n)"
  shows "\<exists>w'. emit rt ps w = Ret w' \<and> streams w' = streams w
    \<and> (\<forall>(d, n)\<in>set rt. chans w' n = (chans w n)\<lparr>source :=
         Some (the (source (chans w n)) @ map (DataIn [] []) (at_depth d ps))\<rparr>)
    \<and> (\<forall>n. n \<notin> snd ` set rt \<longrightarrow> chans w' n = chans w n)"
  using assms(1,4)
proof (induction ps arbitrary: w)
  case Nil
  have "(chans w n)\<lparr>source := Some (the (source (chans w n)))\<rparr> = chans w n" if "(d, n) \<in> set rt" for d n
    using Nil.prems(2) that by (cases "chans w n") (auto simp: chan_open_def)
  then show ?case by (auto simp: emit_def at_depth_def)
next
  case (Cons p ps)
  obtain d m where p: "p = (d, m)" by (cases p)
  then obtain n where n: "(d, n) \<in> set rt" "map_of rt d = Some n"
    using Cons.prems(1) assms(2) by (auto simp: map_of_eq_Some_iff)
  have opn: "chan_open (chans w n)" using Cons.prems(2) n(1) by auto
  let ?w1 = "put_chan n ((chans w n)\<lparr>source := Some (the (source (chans w n)) @ [DataIn [] [] m])\<rparr>) w"
  have step: "emit rt (p # ps) w = emit rt ps ?w1"
    using PublishData_open [OF opn, of m] n(2) by (simp add: emit_def p)
  have chans1: "chans ?w1 k = (if k = n then (chans w n)\<lparr>source := Some (the (source (chans w n)) @ [DataIn [] [] m])\<rparr> else chans w k)" for k
    by (simp add: put_chan_def)
  have "\<forall>(d, k)\<in>set rt. chan_open (chans ?w1 k)"
    using Cons.prems(2) opn by (auto simp: chans1 chan_open_queue)
  from Cons.IH [OF _ this] Cons.prems(1) obtain w' where
    w': "emit rt ps ?w1 = Ret w'" "streams w' = streams ?w1"
    "\<forall>(d, k)\<in>set rt. chans w' k = (chans ?w1 k)\<lparr>source :=
         Some (the (source (chans ?w1 k)) @ map (DataIn [] []) (at_depth d ps))\<rparr>"
    "\<forall>k. k \<notin> snd ` set rt \<longrightarrow> chans w' k = chans ?w1 k" by auto
  have only: "d' = d" if "(d', n) \<in> set rt" for d'
    using that n(1) assms(3) inj_onD [of snd "set rt" "(d', n)" "(d, n)"] by (simp add: distinct_map)
  have "chans w' k = (chans w k)\<lparr>source := Some (the (source (chans w k)) @ map (DataIn [] []) (at_depth e (p # ps)))\<rparr>"
    if e: "(e, k) \<in> set rt" for e k
  proof (cases "k = n")
    case True
    then have "e = d" using only e by simp
    then show ?thesis using True w'(3) e by (auto simp: chans1 at_depth_def p)
  next
    case False
    then have "e \<noteq> d" using e n(1) assms(2) inj_onD [of fst "set rt" "(e, k)" "(d, n)"]
      by (auto simp: distinct_map)
    then show ?thesis using False w'(3) e by (auto simp: chans1 at_depth_def p)
  qed
  moreover have "\<forall>k. k \<notin> snd ` set rt \<longrightarrow> chans w' k = chans w k"
    using w'(4) n(1) by (force simp: chans1)
  ultimately show ?case using step w'(1,2) by (intro exI [of _ w']) (auto simp: put_chan_def)
qed

section \<open>Life cycle\<close>

definition life_ok :: "('s, 'i, 'm) tableCache \<Rightarrow> bool" where
  "life_ok c \<longleftrightarrow> (cacheReady c \<longrightarrow> \<not> cacheClosed c \<and> readyClosed c \<and> \<not> pipelineClosed c)
     \<and> (\<not> cacheReady c \<and> \<not> cacheClosed c \<longrightarrow> \<not> readyClosed c \<and> \<not> pipelineClosed c)"

inductive cache_step :: "('s, 'i, 'm) handle_fn \<Rightarrow> ('s, 'm) snapshot_fn
    \<Rightarrow> ('s, 'i, 'm) tableCache \<times> 'm world \<Rightarrow> ('s, 'i, 'm) tableCache \<times> 'm world \<Rightarrow> bool"
  for handle snap where
  start: "cache_Start s = Ret (s', e) \<Longrightarrow> cache_step handle snap s s'"
| stop: "cache_Stop s = Ret (s', e) \<Longrightarrow> cache_step handle snap s s'"
| append: "Append inp c = Ret c' \<Longrightarrow> cache_step handle snap (c, w) (c', w)"
| take_snapshot: "TakeSnapshot depth publish session k c = Ret c' \<Longrightarrow> cache_step handle snap (c, w) (c', w)"
| turn: "cache_turn handle snap s = Ret (s', goes) \<Longrightarrow> cache_step handle snap s s'"
| cancel: "cacheReady c \<or> cacheClosed c \<Longrightarrow> cache_step handle snap (c, w) (cache_exit c, w)"
| world: "cache_step handle snap (c, w) (c, w')"

inductive_cases cache_step_cases: "cache_step handle snap s s'"

lemma cache_turn_flags:
  assumes "cache_turn handle snap s = Ret (s', goes)"
  shows "goes \<Longrightarrow> cacheReady (fst s') = cacheReady (fst s) \<and> cacheClosed (fst s') = cacheClosed (fst s)
      \<and> readyClosed (fst s') = readyClosed (fst s) \<and> pipelineClosed (fst s') = pipelineClosed (fst s)
      \<and> channelGroup (fst s') = channelGroup (fst s)"
    and "\<not> goes \<Longrightarrow> fst s' = cache_exit (fst s) \<and> pipelineClosed (fst s)"
  using assms
  by (auto simp: cache_turn_def handle_cacheInput_def run_breakpoint_def go_bind_Ret_iff
      split: prod.splits list.splits option.splits if_splits cache_input.splits)

lemma cache_step_life: "cache_step handle snap s s' \<Longrightarrow> life_ok (fst s) \<Longrightarrow> life_ok (fst s')"
proof (induction rule: cache_step.induct)
  case (turn s s' goes)
  then show ?case using cache_turn_flags [OF turn.hyps]
    by (cases goes) (auto simp: life_ok_def cache_exit_def)
qed (auto simp: life_ok_def cache_Start_def cache_Stop_def Append_def TakeSnapshot_def send_pipeline_def
    cache_exit_def go_bind_Ret_iff split: prod.splits if_splits)

text \<open>No Go channel of a cache is closed twice.\<close>

lemma life_no_double_close:
  assumes "life_ok c"
  shows "cache_Start (c, w) \<noteq> Panic CloseOfClosed"
    and "cacheReady c \<Longrightarrow> \<not> pipelineClosed c"
  using assms by (auto simp: life_ok_def cache_Start_def Let_def)

section \<open>The contract of a cache\<close>

text \<open>
  What a cache brings to the pipeline: an invariant of its table, the inputs its handler
  accepts, and that the handler returns on those and keeps the invariant. Under the contract
  the goroutine handles any accepted queue without a panic, and every snapshot is one of a
  table that satisfies the invariant.
\<close>

text \<open>A queue whose messages are accepted one after the other, each in the state it meets.\<close>

fun accepts_all :: "('s, 'i, 'm) handle_fn \<Rightarrow> ((int, nat) gomap \<Rightarrow> 's \<Rightarrow> 'i option \<Rightarrow> bool)
    \<Rightarrow> (int, nat) gomap \<Rightarrow> 's \<Rightarrow> 'i option list \<Rightarrow> bool" where
  "accepts_all handle accepts rt t [] = True"
| "accepts_all handle accepts rt t (m # ms) \<longleftrightarrow> accepts rt t m \<and>
     (case handle rt t m of Ret (t', _) \<Rightarrow> accepts_all handle accepts rt t' ms | _ \<Rightarrow> False)"

locale cache_contract =
  fixes handle :: "('s, 'i, 'm) handle_fn" and ok :: "'s \<Rightarrow> bool"
    and accepts :: "(int, nat) gomap \<Rightarrow> 's \<Rightarrow> 'i option \<Rightarrow> bool"
  assumes handle_total: "ok t \<Longrightarrow> accepts rt t m \<Longrightarrow>
    \<exists>t' ps. handle rt t m = Ret (t', ps) \<and> ok t' \<and> (\<forall>p\<in>set ps. fst p \<in> fst ` set rt)"
begin

lemma feed_total:
  "ok t \<Longrightarrow> accepts_all handle accepts rt t ms \<Longrightarrow>
    \<exists>t' ps. feed handle rt t ms = Ret (t', ps) \<and> ok t' \<and> (\<forall>p\<in>set ps. fst p \<in> fst ` set rt)"
proof (induction ms arbitrary: t)
  case (Cons m ms)
  then obtain t1 ps where h: "handle rt t m = Ret (t1, ps)" "ok t1" "\<forall>p\<in>set ps. fst p \<in> fst ` set rt"
    using handle_total [of t rt m] by auto
  with Cons obtain t2 qs where "feed handle rt t1 ms = Ret (t2, qs)" "ok t2" "\<forall>p\<in>set qs. fst p \<in> fst ` set rt"
    by fastforce
  with h show ?case by auto
qed simp

lemma pipeline_total:
  assumes "ok (table c)" and "accepts_all handle accepts (realtime_group c) (table c) ms"
    and "distinct (map fst (realtime_group c))" and "distinct (map snd (realtime_group c))"
    and "\<forall>(d, n)\<in>set (realtime_group c). chan_open (chans w n)"
    and "pipeline c = map (\<lambda>m. Some (CacheMsg m)) ms @ rest"
  shows "\<exists>t ps w'. feed handle (realtime_group c) (table c) ms = Ret (t, ps) \<and> ok t
    \<and> cache_run handle snap (length ms) (c, w) = Ret (c\<lparr>table := t, pipeline := rest\<rparr>, w')
    \<and> (\<forall>(d, n)\<in>set (realtime_group c). chans w' n = (chans w n)\<lparr>source :=
         Some (the (source (chans w n)) @ map (DataIn [] []) (at_depth d ps))\<rparr>)"
proof -
  from feed_total [OF assms(1,2)] obtain t ps where
    f: "feed handle (realtime_group c) (table c) ms = Ret (t, ps)" "ok t"
    "\<forall>p\<in>set ps. fst p \<in> fst ` set (realtime_group c)" by blast
  from emit_spec [OF f(3) assms(3,4,5)] obtain w' where
    e: "emit (realtime_group c) ps w = Ret w'"
    "\<forall>(d, n)\<in>set (realtime_group c). chans w' n = (chans w n)\<lparr>source :=
         Some (the (source (chans w n)) @ map (DataIn [] []) (at_depth d ps))\<rparr>" by blast
  have "cache_run handle snap (length ms) (c, w) = Ret (c\<lparr>table := t, pipeline := rest\<rparr>, w')"
    using cache_run_feed [OF f(1) e(1) assms(6), of snap 0] by simp
  with f e show ?thesis by blast
qed

end

end
