(* ===== verification/Caches.thy ===== *)
theory Caches
  imports PartialMerge TableCaches CachePipeline
begin

text \<open>
  The three caches on the shared pipeline: their constructors, their handlers and snapshots
  in the form the pipeline takes, and the contract of the pipeline proved for each of them.
\<close>

section \<open>Handlers and constructors\<close>

definition trade_handle :: "(tradeCache, 'o table_msg, 'o table_msg) handle_fn" where
  "trade_handle rt c msg =
     go_bind (trade_handleInput c msg) (\<lambda>(c', ms). Ret (c', map (\<lambda>td. (0, TradeResponse td)) ms))"

definition trade_snap :: "(tradeCache, 'o table_msg) snapshot_fn" where
  "trade_snap c depth = go_bind (trade_snapshot c depth) (\<lambda>r. Ret (TradeResponse r))"

definition ins_handle :: "(instrumentCache, 'o table_msg, 'o table_msg) handle_fn" where
  "ins_handle rt c msg =
     go_bind (ins_handleInput c msg) (\<lambda>(c', ms). Ret (c', map (\<lambda>i. (0, InstrumentResponse i)) ms))"

definition ins_snap :: "(string list \<Rightarrow> string list) \<Rightarrow> (instrumentCache, 'o table_msg) snapshot_fn" where
  "ins_snap rng c depth = Ret (InstrumentResponse (ins_snapshot rng c depth))"

definition mbl_handle :: "(float64 list \<Rightarrow> float64 list) \<Rightarrow> (mbl, 'o table_msg, 'o table_msg) handle_fn" where
  "mbl_handle rng rt c msg =
     go_bind (mbl_handleInput rng (c\<lparr>realtime := rt\<rparr>) msg) (\<lambda>(c', ps).
       Ret (c', map (\<lambda>(d, r). (d, MBLResponse r)) ps))"

definition mbl_snap :: "(mbl, 'o table_msg) snapshot_fn" where
  "mbl_snap c depth = Ret (MBLResponse (snapshot c depth))"

text \<open>The three constructors differ in the table only; \<open>n\<close> is the new realtime channel.\<close>

definition new_cache :: "'s \<Rightarrow> nat \<Rightarrow> 'm world \<Rightarrow> (('s, 'i, 'm) tableCache \<times> 'm world) go" where
  "new_cache t n w =
     (let c = \<lparr>table = t, channelGroup = [Some [(0, n)], None, None], pipeline = [], pipelineClosed = False,
               readyClosed = False, cacheReady = False, cacheClosed = False, answers = []\<rparr>
      in go_bind (cache_Start (c, put_chan n newRspChannel w)) (\<lambda>(s, err).
           case err of Some e \<Rightarrow> Panic (LogPanic e) | None \<Rightarrow> Ret s))"

definition NewTradeCache :: "nat \<Rightarrow> 'm world \<Rightarrow> ((tradeCache, 'i, 'm) tableCache \<times> 'm world) go" where
  "NewTradeCache n w = new_cache \<lparr>historyTrade = []\<rparr> n w"

definition NewInstrumentCache :: "nat \<Rightarrow> 'm world \<Rightarrow> ((instrumentCache, 'i, 'm) tableCache \<times> 'm world) go" where
  "NewInstrumentCache n w = new_cache newInstrumentCache n w"

definition NewMBLCache :: "nat \<Rightarrow> 'm world \<Rightarrow> ((mbl, 'i, 'm) tableCache \<times> 'm world) go" where
  "NewMBLCache n w = new_cache newMBL n w"

lemma new_cache_ok:
  "\<exists>c. new_cache t n w = Ret (c, put_chan n (fst (Start newRspChannel)) w) \<and> life_ok c \<and> cacheReady c
     \<and> table c = t \<and> pipeline c = [] \<and> realtime_group c = [(0, n)]"
proof -
  have "put_chan n (fst (Start (chans (put_chan n newRspChannel w) n))) (put_chan n newRspChannel w) =
      put_chan n (fst (Start newRspChannel)) w"
    by (simp add: put_chan_def)
  then show ?thesis
    by (simp add: new_cache_def cache_Start_def group_channels_def life_ok_def realtime_group_def Let_def)
qed

section \<open>The trade cache\<close>

definition trade_accepts :: "(int, nat) gomap \<Rightarrow> tradeCache \<Rightarrow> 'o table_msg option \<Rightarrow> bool" where
  "trade_accepts rt c msg \<longleftrightarrow> 0 \<in> fst ` set rt \<and> (case msg of
       None \<Rightarrow> False
     | Some (TradeResponse td) \<Rightarrow> Action td = PartialAction \<longrightarrow> int (length (Data td)) \<le> maxTradeLen * maxMultiple
     | Some _ \<Rightarrow> True)"

lemma trade_applyData_bound:
  assumes "history_ok c" "Action td = PartialAction \<longrightarrow> int (length (Data td)) \<le> maxTradeLen * maxMultiple"
  shows "history_ok (fst (trade_applyData c td))"
proof (cases "Action td = InsertAction")
  case True
  then show ?thesis by (rule trade_insert_bound)
next
  case False
  then show ?thesis using assms by (auto simp: history_ok_def trade_applyData_def)
qed

interpretation trades: cache_contract trade_handle history_ok trade_accepts
proof unfold_locales
  fix t rt and m :: "'o table_msg option" assume "history_ok t" "trade_accepts rt t m"
  then show "\<exists>t' ps. trade_handle rt t m = Ret (t', ps) \<and> history_ok t' \<and> (\<forall>p\<in>set ps. fst p \<in> fst ` set rt)"
    using trade_applyData_bound [of t]
    by (auto simp: trade_accepts_def trade_handle_def trade_handleInput_def split: option.splits table_msg.splits prod.splits)
      (metis fst_conv)+
qed

section \<open>The instrument cache\<close>

definition ins_accepts :: "(int, nat) gomap \<Rightarrow> instrumentCache \<Rightarrow> 'o table_msg option \<Rightarrow> bool" where
  "ins_accepts rt c msg \<longleftrightarrow> 0 \<in> fst ` set rt \<and> msg \<noteq> None"

interpretation instruments: cache_contract ins_handle ins_ok ins_accepts
proof unfold_locales
  fix t rt and m :: "'o table_msg option" assume "ins_ok t" "ins_accepts rt t m"
  then show "\<exists>t' ps. ins_handle rt t m = Ret (t', ps) \<and> ins_ok t' \<and> (\<forall>p\<in>set ps. fst p \<in> fst ` set rt)"
    using ins_applyData_ok [of t]
    by (auto simp: ins_accepts_def ins_handle_def ins_handleInput_def split: option.splits table_msg.splits prod.splits)
      (metis fst_conv)+
qed

section \<open>The market-by-level cache\<close>

definition mbl_ok :: "mbl \<Rightarrow> bool" where
  "mbl_ok c \<longleftrightarrow> l2Cache c = None \<or> (book_ok c \<and> quote_ok c)"

definition empty_book :: "mbl \<Rightarrow> bool" where
  "empty_book c \<longleftrightarrow> (case l2Cache c of None \<Rightarrow> True | Some m \<Rightarrow> m = [])"

definition mbl_accepts :: "(int, nat) gomap \<Rightarrow> mbl \<Rightarrow> 'o table_msg option \<Rightarrow> bool" where
  "mbl_accepts rt c msg \<longleftrightarrow> 0 \<in> fst ` set rt \<and> (case msg of
       Some (MBLResponse data) \<Rightarrow>
         if Action data = PartialAction then
           (\<exists>rs. Data data = map Some rs \<and> partial_ok c rs \<and> (empty_book c \<or> no_flip c rs \<and> overlaps c rs))
         else l2Cache c \<noteq> None \<and> fits c data
     | _ \<Rightarrow> True)"

text \<open>The counter and the channels are no part of the book.\<close>

lemma side_quote_frame [simp]:
  "side_quote (c\<lparr>historyCount := h\<rparr>) s = side_quote c s" "side_quote (c\<lparr>realtime := rt\<rparr>) s = side_quote c s"
  by (simp_all add: side_quote_def)

lemma quote_ok_frame [simp]:
  "quote_ok (c\<lparr>historyCount := h\<rparr>) = quote_ok c" "quote_ok (c\<lparr>realtime := rt\<rparr>) = quote_ok c"
proof -
  have l: "side_list (c\<lparr>historyCount := h\<rparr>) s = side_list c s" "side_list (c\<lparr>realtime := rt\<rparr>) s = side_list c s" for s
    by (simp_all add: side_list_def)
  have "l2_book (c\<lparr>historyCount := h\<rparr>) = l2_book c" "l2_book (c\<lparr>realtime := rt\<rparr>) = l2_book c"
    by (rule book_ok_cong(2); simp add: l)+
  then show "quote_ok (c\<lparr>historyCount := h\<rparr>) = quote_ok c" "quote_ok (c\<lparr>realtime := rt\<rparr>) = quote_ok c"
    by (simp_all add: quote_ok_def quote_at_def l)
qed

lemma applyChange_fits:
  assumes "book_ok c" "fits c data"
  shows "\<exists>c' limits. applyChange c data = Ret (c', Some limits, None) \<and> book_ok c'
    \<and> (quote_ok c \<longrightarrow> quote_ok c') \<and> l2_book c' = read_msg c data (l2_book c) \<and> realtime c' = realtime c"
proof -
  have "Action data = DeleteAction \<or> Action data = InsertAction \<or> Action data = UpdateAction"
    using assms(2) by (simp add: fits_def)
  then show ?thesis
  proof (elim disjE)
    assume "Action data = DeleteAction"
    then show ?thesis using applyChange_delete [OF assms] by blast
  next
    assume "Action data = InsertAction"
    then show ?thesis using applyChange_insert [OF assms] by blast
  next
    assume "Action data = UpdateAction"
    then show ?thesis using applyChange_update [OF assms] by blast
  qed
qed

lemma mbl_message_change:
  assumes "book_ok c" "quote_ok c" "0 \<in> set (gokeys (realtime c))" "fits c data"
  shows "\<exists>c' ps. mbl_message rng c data = Ret (c', ps) \<and> book_ok c' \<and> quote_ok c'
    \<and> l2_book c' = read_msg c data (l2_book c) \<and> realtime c' = realtime c \<and> depths_in c ps"
proof -
  let ?c0 = "c\<lparr>historyCount := wrap64 (historyCount c + int (length (Data data)))\<rparr>"
  have keep: "objs ?c0 = objs c" "l2Cache ?c0 = l2Cache c" "side_list ?c0 s = side_list c s" for s
    by (simp_all add: side_list_def)
  note cong = book_ok_cong [OF keep]
  have get: "l2_get ?c0 = l2_get c" by (simp add: l2_get_def fun_eq_iff)
  have q0: "quote_ok ?c0" using assms(2) by simp
  have f0: "fits ?c0 data" using assms(4) by (simp add: fits_def cong(2) get rows_of_def)
  from applyChange_fits [of ?c0 data] f0 assms(1) cong(1) obtain c1 limits where
    c1: "applyChange ?c0 data = Ret (c1, Some limits, None)" "book_ok c1" "quote_ok c1"
    "l2_book c1 = read_msg ?c0 data (l2_book ?c0)" "realtime c1 = realtime c"
    using q0 by auto
  obtain c2 ps where d: "dispatchRsp c1 data (Some limits) = (c2, ps)" by fastforce
  have c2: "c2 = fst (IsQuoteChange c1)" using d dispatchRsp_state [of c1 data "Some limits"] by simp
  have "Action data \<noteq> PartialAction" using assms(4) by (auto simp: fits_def)
  then have "mbl_message rng c data = Ret (c2, ps)"
    using c1(1) d by (simp add: mbl_message_def applyData_def Let_def)
  moreover have "read_msg ?c0 = read_msg c" by (rule read_msg_objs) (rule keep(1))
  moreover have "depths_in c ps"
    using dispatchRsp_depths [of c1 _ data "Some limits"] d c1(5) by (auto simp: depths_in_def)
  ultimately show ?thesis
    using c1 IsQuoteChange_book IsQuoteChange_quote
    by (intro exI [of _ c2] exI [of _ ps]) (simp add: c2 IsQuoteChange_keeps cong(2))
qed

lemma mbl_message_partial:
  assumes "mbl_ok c" "0 \<in> set (gokeys (realtime c))" "Action data = PartialAction" "Data data = map Some rs"
    and p: "partial_ok c rs" "empty_book c \<or> no_flip c rs \<and> overlaps c rs"
    and rng: "\<And>ks. set (rng ks) = set ks" "\<And>ks. distinct ks \<Longrightarrow> distinct (rng ks)"
  shows "\<exists>c' ps. mbl_message rng c data = Ret (c', ps) \<and> book_ok c' \<and> quote_ok c'
    \<and> (\<forall>p. same_level (l2_book c' p) (partial_book c rs p)) \<and> realtime c' = realtime c \<and> depths_in c ps"
proof -
  let ?c0 = "c\<lparr>historyCount := wrap64 (historyCount c + int (length (Data data)))\<rparr>"
  have keep: "objs ?c0 = objs c" "l2Cache ?c0 = l2Cache c" "side_list ?c0 s = side_list c s" for s
    by (simp_all add: side_list_def)
  note cong = book_ok_cong [OF keep]
  have p0: "partial_ok ?c0 rs" "partial_book ?c0 rs = partial_book c rs"
    using p(1) partial_objs [OF keep(1)] by simp_all
  have f0: "no_flip ?c0 rs = no_flip c rs" "overlaps ?c0 rs = overlaps c rs"
    by (simp_all add: no_flip_def overlaps_def cong(2) keep partial_objs [OF keep(1)])
  have "\<exists>c1 ps. handlePartial rng ?c0 (map Some rs) = Ret (c1, ps) \<and> book_ok c1 \<and> quote_ok c1
     \<and> (\<forall>p. same_level (l2_book c1 p) (partial_book c rs p)) \<and> realtime c1 = realtime c \<and> depths_in c ps"
  proof (cases "empty_book c")
    case True
    then have "handlePartial rng ?c0 (map Some rs) = partial_first ?c0 (map Some rs)"
      by (auto simp: handlePartial_def empty_book_def split: option.splits)
    with partial_first_run [OF p0(1)] show ?thesis
      by (auto simp: depths_in_def same_level_def p0(2))
  next
    case False
    then have "handlePartial rng ?c0 (map Some rs) = partial_merge rng ?c0 (map Some rs)"
      by (auto simp: handlePartial_def empty_book_def split: option.splits)
    moreover have "book_ok c" "quote_ok c" using False assms(1) by (auto simp: mbl_ok_def empty_book_def)
    then have "book_ok ?c0" "quote_ok ?c0"
      by (simp_all add: cong(1))
    ultimately show ?thesis
      using partial_merge_run [of ?c0 rs rng] p0 p(2) f0 False rng
      by (fastforce simp: depths_in_def)
  qed
  then obtain c1 ps where c1: "handlePartial rng ?c0 (map Some rs) = Ret (c1, ps)" "book_ok c1" "quote_ok c1"
    "\<forall>p. same_level (l2_book c1 p) (partial_book c rs p)" "realtime c1 = realtime c" "depths_in c ps" by blast
  have "mbl_message rng c data = Ret (fst (IsQuoteChange c1), ps)"
    using c1(1) assms(3,4) by (simp add: mbl_message_def applyData_def dispatchRsp_def Let_def)
  then show ?thesis
    using c1 IsQuoteChange_book IsQuoteChange_quote
    by (intro exI [of _ "fst (IsQuoteChange c1)"] exI [of _ ps]) (simp add: IsQuoteChange_keeps)
qed

text \<open>The order of \<open>Values\<close> is a permutation of the set; the model of the contract takes the list as it is.\<close>

lemma mbl_contract:
  fixes m :: "'o table_msg option"
  assumes rng: "\<And>ks. set (rng ks) = set ks" "\<And>ks. distinct ks \<Longrightarrow> distinct (rng ks)"
    and ok: "mbl_ok c" and acc: "mbl_accepts rt c m"
  shows "\<exists>c' ps. mbl_handle rng rt c m = Ret (c', ps) \<and> mbl_ok c' \<and> (\<forall>p\<in>set ps. fst p \<in> fst ` set rt)"
proof -
  let ?c = "c\<lparr>realtime := rt\<rparr>"
  have keep: "objs ?c = objs c" "l2Cache ?c = l2Cache c" "side_list ?c s = side_list c s" for s
    by (simp_all add: side_list_def)
  note cong = book_ok_cong [OF keep]
  have get: "l2_get ?c = l2_get c" by (simp add: l2_get_def fun_eq_iff)
  have ok': "mbl_ok ?c" using ok by (simp add: mbl_ok_def cong(1))
  have zero: "0 \<in> set (gokeys (realtime ?c))" using acc by (simp add: mbl_accepts_def gokeys_def)
  show ?thesis
  proof (cases "\<exists>data. m = Some (MBLResponse data)")
    case False
    then have "mbl_handleInput rng ?c m = Ret (?c, [])"
      by (auto simp: mbl_handleInput_def split: option.splits table_msg.splits)
    then show ?thesis using ok' by (simp add: mbl_handle_def)
  next
    case True
    then obtain data where m: "m = Some (MBLResponse data)" by blast
    have "\<exists>c' ps. mbl_message rng ?c data = Ret (c', ps) \<and> book_ok c' \<and> quote_ok c' \<and> depths_in ?c ps"
    proof (cases "Action data = PartialAction")
      case True
      then obtain rs where rs: "Data data = map Some rs" "partial_ok c rs" "empty_book c \<or> no_flip c rs \<and> overlaps c rs"
        using acc by (auto simp: mbl_accepts_def m)
      have "partial_ok ?c rs" "empty_book ?c \<or> no_flip ?c rs \<and> overlaps ?c rs"
        using rs(2,3) by (simp_all add: partial_objs [OF keep(1)] empty_book_def no_flip_def overlaps_def cong(2) keep)
      from mbl_message_partial [OF ok' zero True rs(1) this rng] show ?thesis by blast
    next
      case False
      then have f: "l2Cache c \<noteq> None" "fits c data" using acc by (auto simp: mbl_accepts_def m)
      have "fits ?c data" using f(2) by (simp add: fits_def cong(2) get rows_of_def)
      moreover have "book_ok ?c" "quote_ok ?c" using f(1) ok' by (auto simp: mbl_ok_def)
      ultimately show ?thesis using mbl_message_change [of ?c data rng] zero by blast
    qed
    then obtain c' ps where r: "mbl_message rng ?c data = Ret (c', ps)" "book_ok c'" "quote_ok c'" "depths_in ?c ps"
      by blast
    then have "mbl_handle rng rt c m = Ret (c', map (\<lambda>(d, r). (d, MBLResponse r)) ps)"
      by (simp add: mbl_handle_def mbl_handleInput_def m)
    moreover have "\<forall>p\<in>set ps. fst p \<in> fst ` set rt" using r(4) zero by (simp add: depths_in_def gokeys_def)
    ultimately show ?thesis using r(2,3) by (force simp: mbl_ok_def)
  qed
qed

interpretation books: cache_contract "mbl_handle (\<lambda>ks. ks)" mbl_ok mbl_accepts
  by unfold_locales (rule mbl_contract; simp)

end
