(* ===== verification/Delivery.thy ===== *)
theory Delivery
  imports Caches
begin

text \<open>
  The composition of the pipeline and the channels: what a cache publishes on a depth is what
  the session registered on that depth's channel receives.
\<close>

lemma emit_keeps_ok: "emit rt ps w = Ret w' \<Longrightarrow> world_ok w \<Longrightarrow> world_ok w'"
proof (induction ps arbitrary: w)
  case Nil
  then show ?case by (simp add: emit_def)
next
  case (Cons p ps)
  obtain d m where p: "p = (d, m)" by (cases p)
  from Cons.prems(1) obtain n c e where n: "map_of rt d = Some n" and pub: "PublishData m (chans w n) = Ret (c, e)"
    and rest: "emit rt ps (put_chan n c w) = Ret w'"
    by (auto simp: emit_def p go_bind_Ret_iff split: option.splits prod.splits)
  have "world_ok (put_chan n c w)"
    using chan_step_ok [OF chan_step.publish [OF pub] Cons.prems(2)] .
  with Cons.IH rest show ?case by blast
qed

lemma delivered_data: "delivered s r True (map (DataIn [] []) ms) = ms"
  by (induction ms) auto

lemma emitted_turns:
  fixes w :: "'m world"
  assumes ok: "world_ok w" and e: "emit rt ps w = Ret w'" "streams w' = streams w"
    and c: "chans w' n = (chans w n)\<lparr>source := Some (the (source (chans w n)) @ map (DataIn [] []) ms)\<rparr>"
    and o: "chan_open (chans w n)" and idle: "source (chans w n) = Some []" and nc: "childChannels (chans w n) = []"
    and s: "(s, Some r) \<in> set (destinations (chans w n))" and room: "\<And>r. room r"
  shows "\<exists>w''. loop_turns room n (length ms) w' = Ret w'' \<and> sent (streams w'' r) = sent (streams w r) @ ms"
proof -
  let ?q = "map (DataIn [] []) ms :: 'm channel_input list"
  have src: "source (chans w' n) = Some ?q" using c idle by simp
  have "world_ok w'" using emit_keeps_ok [OF e(1) ok] .
  moreover have "chan_open (chans w' n)" using chan_open_queue [OF o] by (simp add: c)
  moreover have "no_children (chans w' n)" using nc by (auto simp: no_children_def c idle)
  moreover have "(s, Some r) \<in> set (all_dests (chans w' n))" using s by (simp add: all_dests_def c)
  moreover have "Shutdown s \<notin> set ?q" by auto
  ultimately obtain w'' where w'': "loop_turns room n (length ?q) w' = Ret w''"
    "sent (streams w'' r) = sent (streams w' r) @ delivered s r ((s, Some r) \<in> set (destinations (chans w' n))) ?q"
    using loop_turns_deliver [OF _ _ src] room by blast
  moreover have "destinations (chans w' n) = destinations (chans w n)" by (simp add: c)
  ultimately show ?thesis using s e(2) by (auto simp: delivered_data)
qed

context cache_contract
begin

text \<open>Any accepted queue: the session gets what the specification \<open>feed\<close> publishes for its depth.\<close>

lemma session_receives:
  assumes "ok (table c)" and "accepts_all handle accepts (realtime_group c) (table c) ms"
    and d: "distinct (map fst (realtime_group c))" "distinct (map snd (realtime_group c))"
    and opn: "\<forall>(d, n)\<in>set (realtime_group c). chan_open (chans w n)"
    and pl: "pipeline c = map (\<lambda>m. Some (CacheMsg m)) ms"
    and w: "world_ok w" and mem: "(d, n) \<in> set (realtime_group c)"
    and idle: "source (chans w n) = Some []" and nc: "childChannels (chans w n) = []"
    and s: "(s, Some r) \<in> set (destinations (chans w n))" and room: "\<And>r. room r"
  shows "\<exists>t ps w' w''. feed handle (realtime_group c) (table c) ms = Ret (t, ps) \<and> ok t
    \<and> cache_run handle snap (length ms) (c, w) = Ret (c\<lparr>table := t, pipeline := []\<rparr>, w')
    \<and> loop_turns room n (length (at_depth d ps)) w' = Ret w''
    \<and> sent (streams w'' r) = sent (streams w r) @ at_depth d ps"
proof -
  from feed_total [OF assms(1,2)] obtain t ps where
    f: "feed handle (realtime_group c) (table c) ms = Ret (t, ps)" "ok t"
    "\<forall>p\<in>set ps. fst p \<in> fst ` set (realtime_group c)" by blast
  from emit_spec [OF f(3) d opn] obtain w' where
    e: "emit (realtime_group c) ps w = Ret w'" "streams w' = streams w"
    and c: "chans w' n = (chans w n)\<lparr>source := Some (the (source (chans w n)) @ map (DataIn [] []) (at_depth d ps))\<rparr>"
    using mem by blast
  have "chan_open (chans w n)" using opn mem by blast
  from emitted_turns [OF w e c this idle nc s, of room] room
  obtain w'' where "loop_turns room n (length (at_depth d ps)) w' = Ret w''"
    "sent (streams w'' r) = sent (streams w r) @ at_depth d ps" by blast
  moreover have "cache_run handle snap (length ms) (c, w) = Ret (c\<lparr>table := t, pipeline := []\<rparr>, w')"
    using cache_run_feed [OF f(1) e(1), of "[]" snap 0] pl by simp
  ultimately show ?thesis using f(1,2) by blast
qed

end

section \<open>Stuck destinations\<close>

lemma stall_free_append_stuck:
  "\<not> room r1 \<Longrightarrow> \<not> room r2 \<Longrightarrow> \<not> stall_free room a (xs @ (s1, Some r1) # (s2, Some r2) # ys)"
proof (induction xs arbitrary: a)
  case (Cons x xs)
  then show ?case by (cases x; cases "snd x") auto
qed simp

end
