(* ===== verification/Heartbeats.thy ===== *)
theory Heartbeats
  imports Messages
begin

text \<open>
  The heartbeat loops of both ends: \<open>heartbeatHandler\<close> of \<open>client/client.go\<close> and
  \<open>heartbeatLoop\<close> of \<open>server/session.go\<close>. Each takes heartbeat messages from a Go channel,
  writes the text frame the message calls for and counts what is outstanding. An input is
  a message with the outcome of the write it may cause. The goroutines that only feed the
  channel (tickers) or close on a silent peer (timers) are steps of the environment: a
  ticker is a \<open>Ping\<close> input, a timer that fires ends the loop's connection.
\<close>

text \<open>What a read of the websocket returns.\<close>

datatype ws_frame = Frame string | ReadError error

datatype hb_frame = PingFrame | PongFrame

datatype hb_close = SendFailed | MissMatch int

text \<open>One turn of a loop: the next counter, or the reason of the close, with the frames
  written.\<close>

datatype hb_result = HbGo int "hb_frame list" | HbClose hb_close "hb_frame list"

definition hb_check :: "int \<Rightarrow> int \<Rightarrow> hb_frame list \<Rightarrow> hb_result" where
  "hb_check failCount counter out =
     (if counter \<ge> failCount \<or> counter < 0 then HbClose (MissMatch counter) out
      else HbGo counter out)"

definition client_hb_step :: "bool \<Rightarrow> int \<Rightarrow> int \<Rightarrow> HeartBeat \<times> bool \<Rightarrow> hb_result" where
  "client_hb_step reverse failCount counter input =
     (case input of (hb, writeOk) \<Rightarrow>
        if hb_Type hb = ''Ping'' then
          (if reverse then
             (if \<not> writeOk then HbClose SendFailed []
              else hb_check failCount counter [PongFrame])
           else
             (if \<not> writeOk then HbClose SendFailed []
              else hb_check failCount (counter + hb_Value hb) [PingFrame]))
        else if hb_Type hb = ''Pong'' then hb_check failCount (counter + hb_Value hb) []
        else HbGo counter [])"

definition server_hb_step :: "bool \<Rightarrow> int \<Rightarrow> int \<Rightarrow> HeartBeat \<times> bool \<Rightarrow> hb_result" where
  "server_hb_step reverse failCount counter input =
     (case input of (hb, writeOk) \<Rightarrow>
        if hb_Type hb = ''Ping'' then
          (if reverse then
             (if \<not> writeOk then HbClose SendFailed []
              else hb_check failCount (counter + hb_Value hb) [PingFrame])
           else
             (if \<not> writeOk then HbClose SendFailed []
              else hb_check failCount counter [PongFrame]))
        else if hb_Type hb = ''Pong'' then hb_check failCount (counter + hb_Value hb) []
        else HbGo counter [])"

fun hb_loop :: "(int \<Rightarrow> HeartBeat \<times> bool \<Rightarrow> hb_result) \<Rightarrow> int \<Rightarrow> (HeartBeat \<times> bool) list \<Rightarrow> hb_result" where
  "hb_loop step counter [] = HbGo counter []"
| "hb_loop step counter (x # xs) =
     (case step counter x of
        HbClose r out \<Rightarrow> HbClose r out
      | HbGo c out \<Rightarrow>
          (case hb_loop step c xs of
             HbGo c' out' \<Rightarrow> HbGo c' (out @ out')
           | HbClose r out' \<Rightarrow> HbClose r (out @ out')))"

definition client_heartbeatHandler :: "bool \<Rightarrow> int \<Rightarrow> (HeartBeat \<times> bool) list \<Rightarrow> hb_result" where
  "client_heartbeatHandler reverse failCount = hb_loop (client_hb_step reverse failCount) 0"

definition server_heartbeatLoop :: "bool \<Rightarrow> int \<Rightarrow> (HeartBeat \<times> bool) list \<Rightarrow> hb_result" where
  "server_heartbeatLoop reverse failCount = hb_loop (server_hb_step reverse failCount) 0"

section \<open>Facts\<close>

text \<open>The two ends are mirror images: each does in reverse mode what the other does in the
  normal mode.\<close>

lemma hb_steps_dual: "server_hb_step reverse failCount = client_hb_step (\<not> reverse) failCount"
  by (intro ext) (auto simp: server_hb_step_def client_hb_step_def)

text \<open>The outstanding pings of a prefix of the input, for the end that sends pings.\<close>

definition outstanding :: "(HeartBeat \<times> bool) list \<Rightarrow> int" where
  "outstanding xs = (\<Sum>(hb, ok)\<leftarrow>xs. if hb_Type hb = ''Invalid type.'' then 0 else hb_Value hb)"

lemma outstanding_simps [simp]:
  "outstanding [] = 0"
  "outstanding (x # xs) =
     (if hb_Type (fst x) = ''Invalid type.'' then 0 else hb_Value (fst x)) + outstanding xs"
  by (simp_all add: outstanding_def split_beta)

lemma hb_Type_cases:
  "hb_Type hb = ''Ping'' \<and> hb_Value hb = 1 \<or> hb_Type hb = ''Pong'' \<and> hb_Value hb = -1
    \<or> hb_Type hb = ''Invalid type.''"
  by (simp add: hb_Type_def hb_Value_def ping_def pong_def)

text \<open>While all writes succeed, the pinging end goes on exactly as long as the number of
  unanswered pings stays at least 0 and below the limit.\<close>

lemma hb_loop_pinger:
  assumes "0 \<le> c" and "c < failCount" and "\<And>x. x \<in> set xs \<Longrightarrow> snd x"
  shows "(\<exists>out. hb_loop (client_hb_step False failCount) c xs = HbGo (c + outstanding xs) out)
    \<longleftrightarrow> (\<forall>n \<le> length xs. 0 \<le> c + outstanding (take n xs) \<and> c + outstanding (take n xs) < failCount)"
  using assms
proof (induction xs arbitrary: c)
  case Nil
  then show ?case by simp
next
  case (Cons x xs)
  obtain hb where x: "x = (hb, True)" using Cons.prems(3) [of x] by (cases x) auto
  define v where "v = (if hb_Type hb = ''Invalid type.'' then 0 else hb_Value hb)"
  have all: "(\<forall>n \<le> length (x # xs). P (take n (x # xs))) \<longleftrightarrow> P [] \<and> (\<forall>n \<le> length xs. P (x # take n xs))"
    for P :: "(HeartBeat \<times> bool) list \<Rightarrow> bool"
    by (metis (no_types, lifting) length_Cons less_eq_nat.simps(1) not0_implies_Suc not_less_eq_eq
        take0 take_Suc_Cons)
  have step: "client_hb_step False failCount c x =
    (if c + v \<ge> failCount \<or> c + v < 0 then HbClose (MissMatch (c + v)) (if hb_Type hb = ''Ping'' then [PingFrame] else [])
     else HbGo (c + v) (if hb_Type hb = ''Ping'' then [PingFrame] else []))"
    using hb_Type_cases [of hb] Cons.prems(1,2)
    by (auto simp: client_hb_step_def hb_check_def x v_def)
  have os: "outstanding (x # ys) = v + outstanding ys" for ys by (simp add: v_def x)
  show ?case
  proof (cases "c + v \<ge> failCount \<or> c + v < 0")
    case True
    then have "\<nexists>out. hb_loop (client_hb_step False failCount) c (x # xs) = HbGo (c + outstanding (x # xs)) out"
      by (simp add: step)
    moreover have "\<exists>n \<le> length xs. \<not> (0 \<le> c + outstanding (x # take n xs) \<and> c + outstanding (x # take n xs) < failCount)"
      using True by (intro exI [of _ 0]) (auto simp: v_def x)
    ultimately show ?thesis
      unfolding all [of "\<lambda>ys. 0 \<le> c + outstanding ys \<and> c + outstanding ys < failCount"] by blast
  next
    case False
    then have "(\<exists>out. hb_loop (client_hb_step False failCount) (c + v) xs = HbGo (c + v + outstanding xs) out)
      \<longleftrightarrow> (\<forall>n \<le> length xs. 0 \<le> c + v + outstanding (take n xs) \<and> c + v + outstanding (take n xs) < failCount)"
      using Cons.prems(3) by (intro Cons.IH) auto
    moreover have "(\<exists>out. hb_loop (client_hb_step False failCount) c (x # xs) = HbGo (c + outstanding (x # xs)) out)
      \<longleftrightarrow> (\<exists>out. hb_loop (client_hb_step False failCount) (c + v) xs = HbGo (c + v + outstanding xs) out)"
      using False by (auto simp only: hb_loop.simps step os add.assoc if_False hb_result.case split: hb_result.splits)
    ultimately show ?thesis using Cons.prems(1,2)
      unfolding all [of "\<lambda>ys. 0 \<le> c + outstanding ys \<and> c + outstanding ys < failCount"] os
      by (simp add: add.assoc)
  qed
qed

text \<open>The answering end never counts: pings are answered one by one, and the first pong
  nobody asked for ends the connection.\<close>

lemma hb_loop_answerer:
  assumes "0 < failCount" and "\<And>x. x \<in> set xs \<Longrightarrow> hb_Type (fst x) = ''Ping'' \<and> snd x"
  shows "hb_loop (client_hb_step True failCount) 0 xs = HbGo 0 (replicate (length xs) PongFrame)"
  using assms(2)
proof (induction xs)
  case (Cons x xs)
  obtain hb where "x = (hb, True)" "hb_Type hb = ''Ping''"
    using Cons.prems [of x] by (cases x) auto
  then have "client_hb_step True failCount 0 x = HbGo 0 [PongFrame]"
    using assms(1) by (simp add: client_hb_step_def hb_check_def)
  then show ?case using Cons.IH Cons.prems by simp
qed simp

lemma hb_loop_closed_counter:
  assumes "hb_loop (client_hb_step r failCount) c xs = HbGo c' out" and "0 \<le> c" and "c < failCount"
  shows "0 \<le> c' \<and> c' < failCount"
  using assms
proof (induction xs arbitrary: c c' out)
  case Nil
  then show ?case by simp
next
  case (Cons x xs)
  then obtain c1 o1 o2 where step: "client_hb_step r failCount c x = HbGo c1 o1"
    and rest: "hb_loop (client_hb_step r failCount) c1 xs = HbGo c' o2"
    by (auto split: hb_result.splits)
  from step Cons.prems(2,3) have "0 \<le> c1 \<and> c1 < failCount"
    by (auto simp: client_hb_step_def hb_check_def split: prod.splits if_splits)
  then show ?case using Cons.IH [OF rest] by simp
qed

end
