(* ===== verification/HeartbeatPair.thy ===== *)
theory HeartbeatPair
  imports Heartbeats
begin

text \<open>
  The two heartbeat loops of a connection together: \<open>heartbeatHandler\<close> of \<open>client/client.go\<close> and
  \<open>heartbeatLoop\<close> of \<open>server/session.go\<close>, with the frames on their way between them. Each end has
  its own mode \<open>ReversHeartbeat\<close> and its own limit \<open>HeartbeatFailCount\<close>. In the normal mode the
  client has the ticker and the server the timer of silence; in the reverse mode it is the other
  way round.
\<close>

section \<open>Steps\<close>

datatype hb_end = ClientEnds hb_close | ServerEnds hb_close | ClientTimer | ServerTimer

text \<open>
  The goroutine each loop starts: a ticker, that puts a ping into the channel of the loop at
  every interval, or the watch on the timer that every message read from the websocket resets
  and that closes the connection when it fires.
\<close>

datatype hb_goroutine = PingTicker | SilenceTimer

definition client_goroutine :: "bool \<Rightarrow> hb_goroutine" where
  "client_goroutine reverse = (if \<not> reverse then PingTicker else SilenceTimer)"

definition server_goroutine :: "bool \<Rightarrow> hb_goroutine" where
  "server_goroutine reverse = (if reverse then PingTicker else SilenceTimer)"

record hb_pair =
  to_server :: "hb_frame list"
  to_client :: "hb_frame list"
  cl_count :: int
  sv_count :: int
  hb_closed :: "hb_end option"

definition hb_start :: hb_pair where
  "hb_start = \<lparr>to_server = [], to_client = [], cl_count = 0, sv_count = 0, hb_closed = None\<rparr>"

text \<open>What the reader at the other end makes of a frame, and one turn of either loop.\<close>

definition frame_hb :: "int \<Rightarrow> hb_frame \<Rightarrow> HeartBeat" where
  "frame_hb t f = (case f of PingFrame \<Rightarrow> NewPing t | PongFrame \<Rightarrow> NewPong t)"

definition client_turn :: "bool \<Rightarrow> int \<Rightarrow> HeartBeat \<times> bool \<Rightarrow> hb_pair \<Rightarrow> hb_pair" where
  "client_turn reverse failCount x s =
     (case client_hb_step reverse failCount (cl_count s) x of
        HbGo c out \<Rightarrow> s\<lparr>cl_count := c, to_server := to_server s @ out\<rparr>
      | HbClose r out \<Rightarrow> s\<lparr>to_server := to_server s @ out, hb_closed := Some (ClientEnds r)\<rparr>)"

definition server_turn :: "bool \<Rightarrow> int \<Rightarrow> HeartBeat \<times> bool \<Rightarrow> hb_pair \<Rightarrow> hb_pair" where
  "server_turn reverse failCount x s =
     (case server_hb_step reverse failCount (sv_count s) x of
        HbGo c out \<Rightarrow> s\<lparr>sv_count := c, to_client := to_client s @ out\<rparr>
      | HbClose r out \<Rightarrow> s\<lparr>to_client := to_client s @ out, hb_closed := Some (ServerEnds r)\<rparr>)"

text \<open>\<open>rc\<close> and \<open>fc\<close> are the mode and the limit of the client, \<open>rs\<close> and \<open>fs\<close> those of the server.\<close>

inductive hb_pair_step :: "bool \<Rightarrow> int \<Rightarrow> bool \<Rightarrow> int \<Rightarrow> hb_pair \<Rightarrow> hb_pair \<Rightarrow> bool"
  for rc fc rs fs where
  client_tick: "hb_closed s = None \<Longrightarrow> client_goroutine rc = PingTicker
    \<Longrightarrow> hb_pair_step rc fc rs fs s (client_turn rc fc (NewPing t, ok) s)"
| server_tick: "hb_closed s = None \<Longrightarrow> server_goroutine rs = PingTicker
    \<Longrightarrow> hb_pair_step rc fc rs fs s (server_turn rs fs (NewPing t, ok) s)"
| client_read: "hb_closed s = None \<Longrightarrow> to_client s = f # rest
    \<Longrightarrow> hb_pair_step rc fc rs fs s (client_turn rc fc (frame_hb t f, ok) (s\<lparr>to_client := rest\<rparr>))"
| server_read: "hb_closed s = None \<Longrightarrow> to_server s = f # rest
    \<Longrightarrow> hb_pair_step rc fc rs fs s (server_turn rs fs (frame_hb t f, ok) (s\<lparr>to_server := rest\<rparr>))"
| client_timer: "hb_closed s = None \<Longrightarrow> client_goroutine rc = SilenceTimer
    \<Longrightarrow> hb_pair_step rc fc rs fs s (s\<lparr>hb_closed := Some ClientTimer\<rparr>)"
| server_timer: "hb_closed s = None \<Longrightarrow> server_goroutine rs = SilenceTimer
    \<Longrightarrow> hb_pair_step rc fc rs fs s (s\<lparr>hb_closed := Some ServerTimer\<rparr>)"

inductive hb_reach :: "bool \<Rightarrow> int \<Rightarrow> bool \<Rightarrow> int \<Rightarrow> hb_pair \<Rightarrow> bool" for rc fc rs fs where
  hb_init: "hb_reach rc fc rs fs hb_start"
| hb_next: "hb_reach rc fc rs fs s \<Longrightarrow> hb_pair_step rc fc rs fs s s' \<Longrightarrow> hb_reach rc fc rs fs s'"

section \<open>The turns\<close>

lemma hb_goroutines [simp]:
  "client_goroutine r = PingTicker \<longleftrightarrow> \<not> r" "client_goroutine r = SilenceTimer \<longleftrightarrow> r"
  "server_goroutine r = PingTicker \<longleftrightarrow> r" "server_goroutine r = SilenceTimer \<longleftrightarrow> \<not> r"
  by (simp_all add: client_goroutine_def server_goroutine_def)

lemma frame_hb_simps [simp]:
  "hb_Type (frame_hb t PingFrame) = ''Ping''" "hb_Value (frame_hb t PingFrame) = 1"
  "hb_Type (frame_hb t PongFrame) = ''Pong''" "hb_Value (frame_hb t PongFrame) = -1"
  "hb_Type (NewPing t) = ''Ping''" "hb_Value (NewPing t) = 1"
  by (simp_all add: frame_hb_def NewPing_def NewPong_def hb_Type_def hb_Value_def ping_def pong_def)

lemmas hb_turns = client_turn_def server_turn_def hb_steps_dual client_hb_step_def hb_check_def

text \<open>Seen from the other end the connection runs in the other mode.\<close>

definition mirror_end :: "hb_end \<Rightarrow> hb_end" where
  "mirror_end e = (case e of ClientEnds r \<Rightarrow> ServerEnds r | ServerEnds r \<Rightarrow> ClientEnds r
     | ClientTimer \<Rightarrow> ServerTimer | ServerTimer \<Rightarrow> ClientTimer)"

definition mirror :: "hb_pair \<Rightarrow> hb_pair" where
  "mirror s = \<lparr>to_server = to_client s, to_client = to_server s, cl_count = sv_count s, sv_count = cl_count s,
     hb_closed = map_option mirror_end (hb_closed s)\<rparr>"

lemma mirror_simps [simp]:
  "to_server (mirror s) = to_client s" "to_client (mirror s) = to_server s" "cl_count (mirror s) = sv_count s"
  "sv_count (mirror s) = cl_count s" "hb_closed (mirror s) = map_option mirror_end (hb_closed s)"
  "mirror (s\<lparr>to_client := xs\<rparr>) = (mirror s)\<lparr>to_server := xs\<rparr>" "mirror (s\<lparr>to_server := xs\<rparr>) = (mirror s)\<lparr>to_client := xs\<rparr>"
  "mirror (s\<lparr>hb_closed := e\<rparr>) = (mirror s)\<lparr>hb_closed := map_option mirror_end e\<rparr>" "mirror hb_start = hb_start"
  by (simp_all add: mirror_def hb_start_def)

lemma mirror_turns:
  "mirror (client_turn r n x s) = server_turn (\<not> r) n x (mirror s)"
  "mirror (server_turn r n x s) = client_turn (\<not> r) n x (mirror s)"
  by (auto simp: mirror_def client_turn_def server_turn_def hb_steps_dual mirror_end_def split: hb_result.splits)

lemma mirror_step:
  assumes "hb_pair_step rc fc rs fs s s'"
  shows "hb_pair_step (\<not> rs) fs (\<not> rc) fc (mirror s) (mirror s')"
  using assms
proof cases
  case (client_tick t ok)
  then show ?thesis using hb_pair_step.server_tick [of "mirror s" "\<not> rc"] by (simp add: mirror_turns)
next
  case (server_tick t ok)
  then show ?thesis using hb_pair_step.client_tick [of "mirror s" "\<not> rs"] by (simp add: mirror_turns)
next
  case (client_read f rest t ok)
  then show ?thesis using hb_pair_step.server_read [of "mirror s" f rest] by (simp add: mirror_turns)
next
  case (server_read f rest t ok)
  then show ?thesis using hb_pair_step.client_read [of "mirror s" f rest] by (simp add: mirror_turns)
next
  case client_timer
  then show ?thesis using hb_pair_step.server_timer [of "mirror s" "\<not> rc"] by (simp add: mirror_end_def)
next
  case server_timer
  then show ?thesis using hb_pair_step.client_timer [of "mirror s" "\<not> rs"] by (simp add: mirror_end_def)
qed

lemma mirror_reach:
  "hb_reach rc fc rs fs s \<Longrightarrow> hb_reach (\<not> rs) fs (\<not> rc) fc (mirror s)"
proof (induction rule: hb_reach.induct)
  case hb_init
  then show ?case using hb_reach.hb_init by simp
next
  case (hb_next s s')
  show ?case by (rule hb_reach.hb_next [OF hb_next.IH mirror_step [OF hb_next.hyps(2)]])
qed

section \<open>Both ends in the same mode\<close>

definition unanswered :: "hb_pair \<Rightarrow> nat" where
  "unanswered s = length (to_server s) + length (to_client s)"

text \<open>
  The client asks: pings go up, pongs come down, the server counts nothing. The connection ends
  when a write fails, when the timer of the server fires, or when as many pings as the limit
  allows are unanswered.
\<close>

definition asking_ok :: "int \<Rightarrow> hb_pair \<Rightarrow> bool" where
  "asking_ok n s \<longleftrightarrow> set (to_server s) \<subseteq> {PingFrame} \<and> set (to_client s) \<subseteq> {PongFrame} \<and> sv_count s = 0
     \<and> (case hb_closed s of
          None \<Rightarrow> cl_count s = int (unanswered s) \<and> cl_count s < n
        | Some (ClientEnds (MissMatch k)) \<Rightarrow> k = n \<and> int (unanswered s) = n
        | Some (ClientEnds SendFailed) \<Rightarrow> True
        | Some (ServerEnds r) \<Rightarrow> r = SendFailed
        | Some ClientTimer \<Rightarrow> False
        | Some ServerTimer \<Rightarrow> True)"

lemma asking_step:
  assumes "asking_ok fc s" "hb_pair_step False fc False fs s s'" "0 < fs"
  shows "asking_ok fc s'"
  using assms(2)
proof cases
  case (client_tick t ok)
  then show ?thesis using assms(1) by (auto simp: asking_ok_def unanswered_def hb_turns)
next
  case (client_read f rest t ok)
  then have "f = PongFrame" using assms(1) by (auto simp: asking_ok_def)
  then show ?thesis using assms(1) client_read by (auto simp: asking_ok_def unanswered_def hb_turns)
next
  case (server_read f rest t ok)
  then have "f = PingFrame" using assms(1) by (auto simp: asking_ok_def)
  then show ?thesis using assms(1,3) server_read by (auto simp: asking_ok_def unanswered_def hb_turns)
qed (use assms(1) in \<open>auto simp: asking_ok_def\<close>)

lemma asking_reach: "hb_reach False fc False fs s \<Longrightarrow> 0 < fc \<Longrightarrow> 0 < fs \<Longrightarrow> asking_ok fc s"
proof (induction rule: hb_reach.induct)
  case hb_init
  then show ?case by (simp add: asking_ok_def hb_start_def unanswered_def)
next
  case (hb_next s s')
  show ?case by (rule asking_step [OF hb_next.IH [OF hb_next.prems] hb_next.hyps(2) hb_next.prems(2)])
qed

text \<open>Either mode, seen from the end that asks.\<close>

definition from_asker :: "bool \<Rightarrow> hb_pair \<Rightarrow> hb_pair" where
  "from_asker reverse s = (if reverse then mirror s else s)"

lemma same_mode_reach:
  assumes "hb_reach m fc m fs s" "0 < fc" "0 < fs"
  shows "asking_ok (if m then fs else fc) (from_asker m s)"
proof (cases m)
  case True
  then have "hb_reach False fs False fc (mirror s)" using mirror_reach [OF assms(1)] by simp
  then show ?thesis using asking_reach assms(2,3) True by (simp add: from_asker_def)
next
  case False
  then show ?thesis using asking_reach assms by (simp add: from_asker_def)
qed

text \<open>While it is open, the connection can always catch up.\<close>

lemma catch_up:
  assumes "asking_ok fc s" "hb_closed s = None" "0 < fs"
  shows "\<exists>s'. (hb_pair_step False fc False fs)\<^sup>*\<^sup>* s s' \<and> hb_closed s' = None \<and> unanswered s' = 0 \<and> cl_count s' = 0"
  using assms(1,2)
proof (induction "2 * length (to_server s) + length (to_client s)" arbitrary: s rule: less_induct)
  case less
  note inv = less.prems(1) [unfolded asking_ok_def unanswered_def]
  have go: ?case if "hb_pair_step False fc False fs s s1" "hb_closed s1 = None"
    "2 * length (to_server s1) + length (to_client s1) < 2 * length (to_server s) + length (to_client s)" for s1
    using less.hyps [OF that(3) asking_step [OF less.prems(1) that(1) assms(3)] that(2)]
      converse_rtranclp_into_rtranclp [of "hb_pair_step False fc False fs", OF that(1)] by blast
  show ?case
  proof (cases "to_client s")
    case (Cons f rest)
    then have f: "f = PongFrame" using inv by auto
    define s1 where "s1 = client_turn False fc (frame_hb 0 f, True) (s\<lparr>to_client := rest\<rparr>)"
    have "hb_pair_step False fc False fs s s1"
      unfolding s1_def by (rule hb_pair_step.client_read [OF less.prems(2) Cons])
    then show ?thesis by (rule go) (use inv less.prems(2) Cons f in \<open>auto simp: s1_def hb_turns\<close>)
  next
    case Nil
    show ?thesis
    proof (cases "to_server s")
      case (Cons f rest)
      then have f: "f = PingFrame" using inv by auto
      define s1 where "s1 = server_turn False fs (frame_hb 0 f, True) (s\<lparr>to_server := rest\<rparr>)"
      have "hb_pair_step False fc False fs s s1"
        unfolding s1_def by (rule hb_pair_step.server_read [OF less.prems(2) Cons])
      then show ?thesis by (rule go) (use inv less.prems(2) Cons Nil f assms(3) in \<open>auto simp: s1_def hb_turns\<close>)
    next
      assume "to_server s = []"
      then show ?thesis using Nil inv less.prems(2) by (auto simp: unanswered_def)
    qed
  qed
qed

lemma mirror_mirror [simp]: "mirror (mirror s) = s"
  by (cases "hb_closed s") (auto simp: mirror_def mirror_end_def split: hb_end.splits)

lemma mirror_steps:
  assumes "(hb_pair_step rc fc rs fs)\<^sup>*\<^sup>* s s'"
  shows "(hb_pair_step (\<not> rs) fs (\<not> rc) fc)\<^sup>*\<^sup>* (mirror s) (mirror s')"
  using assms by (induction rule: rtranclp_induct) (auto intro: mirror_step rtranclp.rtrancl_into_rtrancl)

lemma same_mode_catch_up:
  assumes "hb_reach m fc m fs s" "0 < fc" "0 < fs" "hb_closed s = None"
  shows "\<exists>s'. (hb_pair_step m fc m fs)\<^sup>*\<^sup>* s s' \<and> hb_closed s' = None \<and> unanswered s' = 0
    \<and> cl_count s' = 0 \<and> sv_count s' = 0"
proof -
  have zero: "sv_count s' = 0" if "asking_ok fc s" "(hb_pair_step False fc False fs)\<^sup>*\<^sup>* s s'" "0 < fs" for fc fs s s'
  proof -
    have "asking_ok fc s'" using that(2,1) by (induction rule: rtranclp_induct) (auto intro: asking_step [OF _ _ that(3)])
    then show ?thesis by (simp add: asking_ok_def)
  qed
  have ok: "asking_ok (if m then fs else fc) (from_asker m s)" by (rule same_mode_reach [OF assms(1,2,3)])
  show ?thesis
  proof (cases m)
    case False
    then have "asking_ok fc s" using ok by (simp add: from_asker_def)
    from catch_up [OF this assms(4,3)] zero [OF this _ assms(3)] False show ?thesis by auto
  next
    case True
    then have a: "asking_ok fs (mirror s)" using ok by (simp add: from_asker_def)
    have "hb_closed (mirror s) = None" using assms(4) by simp
    from catch_up [OF a this assms(2)] obtain s1 where s1: "(hb_pair_step False fs False fc)\<^sup>*\<^sup>* (mirror s) s1"
      "hb_closed s1 = None" "unanswered s1 = 0" "cl_count s1 = 0" by blast
    have "sv_count s1 = 0" by (rule zero [OF a s1(1) assms(2)])
    then show ?thesis using mirror_steps [OF s1(1)] s1(2,3,4) True
      by (intro exI [of _ "mirror s1"]) (simp add: unanswered_def)
  qed
qed

section \<open>Ends in different modes\<close>

text \<open>
  When both ends ask, every ping is taken for a reason to send one: nothing is ever answered,
  both counters only grow, and after less than the sum of the limits the connection ends.
\<close>

definition both_ask :: "int \<Rightarrow> int \<Rightarrow> hb_pair \<Rightarrow> bool" where
  "both_ask fc fs s \<longleftrightarrow> PongFrame \<notin> set (to_server s) \<union> set (to_client s)
     \<and> 0 \<le> cl_count s \<and> cl_count s < fc \<and> 0 \<le> sv_count s \<and> sv_count s < fs"

lemma both_ask_step:
  assumes "both_ask fc fs s" "hb_pair_step False fc True fs s s'"
  shows "both_ask fc fs s'" "hb_closed s' = None \<Longrightarrow> cl_count s' + sv_count s' = cl_count s + sv_count s + 1"
proof -
  have frames: "f = PingFrame" if "f \<in> set (to_client s) \<union> set (to_server s)" for f
    using that assms(1) by (cases f) (auto simp: both_ask_def)
  from assms(2) have "both_ask fc fs s' \<and> (hb_closed s' = None \<longrightarrow> cl_count s' + sv_count s' = cl_count s + sv_count s + 1)"
  proof cases
    case (client_read f rest t ok)
    then show ?thesis using assms(1) frames [of f] by (auto simp: both_ask_def hb_turns)
  next
    case (server_read f rest t ok)
    then show ?thesis using assms(1) frames [of f] by (auto simp: both_ask_def hb_turns)
  qed (use assms(1) in \<open>auto simp: both_ask_def hb_turns\<close>)
  then show "both_ask fc fs s'" "hb_closed s' = None \<Longrightarrow> cl_count s' + sv_count s' = cl_count s + sv_count s + 1"
    by blast+
qed

text \<open>The length of a run, up to the step that ends the connection.\<close>

lemma both_ask_run:
  assumes "(hb_pair_step False fc True fs ^^ k) s s'" "both_ask fc fs s" "hb_closed s' = None" "hb_closed s = None"
  shows "both_ask fc fs s' \<and> cl_count s' + sv_count s' = cl_count s + sv_count s + int k"
  using assms(1,3)
proof (induction k arbitrary: s')
  case 0
  then show ?case using assms(2) by simp
next
  case (Suc k)
  from Suc.prems(1) obtain s1 where s1: "(hb_pair_step False fc True fs ^^ k) s s1" "hb_pair_step False fc True fs s1 s'"
    by auto
  have "hb_closed s1 = None" using s1(2) by cases
  with Suc.IH [OF s1(1)] both_ask_step [OF _ s1(2)] Suc.prems(2) show ?case by auto
qed

end
