(* ===== verification/Client.thy ===== *)
theory Client
  imports Caches Heartbeats
begin

text \<open>
  \<open>client/config.go\<close> and \<open>client/client.go\<close>: the configuration, the topics, the
  subscriptions, and the goroutine that reads the websocket and passes each message on.
  The loop of the heartbeats is in \<^theory_text>\<open>Heartbeats\<close>.

  The websocket is what arrives on it, a list of frames, and what was sent, a list of
  requests. \<open>url.Parse\<close>, the dialer and the JSON decoders are arguments. The caches of a
  client are the caches of \<^theory_text>\<open>Caches\<close>, with the store of channels they share; new channels
  get the numbers from \<open>cl_next\<close> on. Rows of a market-by-level message become objects of
  the cache the message is for when the message is decoded.
\<close>

section \<open>Configuration\<close>

record url =
  url_Scheme :: string
  url_Host :: string
  url_Path :: string
  url_RawQuery :: string

record APIKeyAuth =
  auth_Key :: string
  auth_Secret :: string
  auth_AuthURI :: string

record Config =
  cfg_Symbol :: string
  cfg_Scheme :: string
  cfg_Host :: string
  cfg_Port :: int
  cfg_BaseURI :: string
  cfg_HeartbeatInterval :: int
  cfg_ReversHeartbeat :: bool
  cfg_HeartbeatFailCount :: int
  cfg_disableCache :: bool

definition second :: int where "second = 1000000000"

definition NewConfig :: Config where
  "NewConfig = \<lparr>cfg_Symbol = ''XBTUSD'', cfg_Scheme = ''wss'', cfg_Host = ''www.btcmex.com'', cfg_Port = 0,
     cfg_BaseURI = ''/realtime'', cfg_HeartbeatInterval = second * 15, cfg_ReversHeartbeat = False,
     cfg_HeartbeatFailCount = 3, cfg_disableCache = False\<rparr>"

definition ChangeHost :: "(string \<Rightarrow> error + url) \<Rightarrow> string \<Rightarrow> Config \<Rightarrow> Config \<times> error option" where
  "ChangeHost parse host c =
     (case parse host of
        Inl err \<Rightarrow> (c, Some err)
      | Inr result \<Rightarrow>
          if Contains (url_Scheme result) ''http'' then
            (c\<lparr>cfg_Scheme := replace_once (url_Scheme result) ''http'' ''ws'', cfg_Host := url_Host result,
               cfg_BaseURI := url_Path result\<rparr>, None)
          else if Contains (url_Scheme result) ''ws'' then
            (c\<lparr>cfg_Scheme := url_Scheme result, cfg_Host := url_Host result, cfg_BaseURI := url_Path result\<rparr>, None)
          else (c, Some (''invalid scheme: '' @ url_Scheme result)))"

definition GetURL :: "Config \<Rightarrow> url" where
  "GetURL c = \<lparr>url_Scheme = cfg_Scheme c, url_Host = cfg_Host c, url_Path = cfg_BaseURI c, url_RawQuery = []\<rparr>"

definition DisableCache :: "Config \<Rightarrow> Config" where
  "DisableCache c = c\<lparr>cfg_disableCache := True\<rparr>"

section \<open>Topics\<close>

definition symbolSubs :: "string list" where
  "symbolSubs = [''instrument'', ''orderBookL2'', ''trade'', ''order'']"

definition PublicTopics :: "string list" where
  "PublicTopics = [''instrument'', ''orderBookL2'', ''orderBookL2_25'', ''trade'', ''quote'']"

definition PrivateTopics :: "string list" where
  "PrivateTopics = [''order'', ''execution'', ''position'']"

definition IsPublicTopic :: "string \<Rightarrow> bool" where
  "IsPublicTopic topic \<longleftrightarrow> list_ex (\<lambda>name. ToLower topic = ToLower name) PublicTopics"

definition IsPrivateTopic :: "string \<Rightarrow> bool" where
  "IsPrivateTopic topic \<longleftrightarrow> list_ex (\<lambda>name. ToLower topic = ToLower name) PrivateTopics"

definition IsValidTopic :: "string \<Rightarrow> bool" where
  "IsValidTopic topic \<longleftrightarrow> IsPublicTopic topic \<or> IsPrivateTopic topic"

section \<open>State\<close>

datatype 'o any_cache =
    AnyMBL "(mbl, 'o table_msg, 'o table_msg) tableCache"
  | AnyTrade "(tradeCache, 'o table_msg, 'o table_msg) tableCache"
  | AnyInstrument "(instrumentCache, 'o table_msg, 'o table_msg) tableCache"

record 'o client =
  cl_cfg :: Config
  cl_ws :: bool
  cl_connected :: bool
  cl_authencated :: bool
  cl_ctx :: "APIKeyAuth option option"
  cl_infoHandler :: bool
  cl_subHandler :: bool
  cl_errHandler :: bool
  cl_rspCache :: "(string, 'o any_cache) gomap"
  cl_closeFlag :: bool
  cl_SubscribedTopics :: "(string, SubscribeResponse option) gomap"
  cl_next :: nat

type_synonym 'o client_state = "'o client \<times> 'o table_msg world"

definition NewClient :: "Config \<Rightarrow> 'o client" where
  "NewClient cfg = \<lparr>cl_cfg = cfg, cl_ws = False, cl_connected = False, cl_authencated = False, cl_ctx = None,
     cl_infoHandler = False, cl_subHandler = False, cl_errHandler = False, cl_rspCache = [],
     cl_closeFlag = False, cl_SubscribedTopics = [], cl_next = 0\<rparr>"

definition IsConnected :: "'o client \<Rightarrow> bool" where "IsConnected c \<longleftrightarrow> cl_connected c \<and> cl_ws c"
definition IsAuthencated :: "'o client \<Rightarrow> bool" where "IsAuthencated c \<longleftrightarrow> cl_authencated c \<and> cl_ws c"

definition hasAuth :: "'o client \<Rightarrow> bool" where
  "hasAuth c = (case cl_ctx c of None \<Rightarrow> False | Some auth \<Rightarrow> auth \<noteq> None)"

definition getAuth :: "'o client \<Rightarrow> APIKeyAuth option" where
  "getAuth c = (case cl_ctx c of None \<Rightarrow> None | Some auth \<Rightarrow> auth)"

text \<open>The three headers of an authenticated request: \<open>sign\<close> is \<open>GenerateSignature\<close>, \<open>now\<close> the
  clock in seconds.\<close>

definition getHeader :: "(string \<Rightarrow> string \<Rightarrow> url \<Rightarrow> int \<Rightarrow> string) \<Rightarrow> int \<Rightarrow> 'o client \<Rightarrow> (string, string) gomap option" where
  "getHeader sign now c =
     (case getAuth c of
        None \<Rightarrow> None
      | Some auth \<Rightarrow>
          (let remote = (GetURL (cl_cfg c))\<lparr>url_Path := auth_AuthURI auth\<rparr>; nonce = now + 5
           in Some [(''api-key'', auth_Key auth), (''api-signature'', sign (auth_Secret auth) ''get'' remote nonce),
                    (''api-expires'', show_int nonce)]))"

section \<open>Subscriptions\<close>

definition isSubscribed :: "'o client \<Rightarrow> string \<Rightarrow> bool" where
  "isSubscribed c topic =
     (case map_of (cl_SubscribedTopics c) topic of Some (Some rsp) \<Rightarrow> Success rsp | _ \<Rightarrow> False)"

definition normalizeTopic :: "'o client \<Rightarrow> string \<Rightarrow> string" where
  "normalizeTopic c topic =
     (case find (\<lambda>name. ToLower name = ToLower topic) symbolSubs of
        Some name \<Rightarrow> go_join '':'' [name, cfg_Symbol (cl_cfg c)]
      | None \<Rightarrow>
          (case find (\<lambda>name. ToLower name = ToLower topic) (PublicTopics @ PrivateTopics) of
             Some name \<Rightarrow> name
           | None \<Rightarrow> []))"

fun subscribe_topics :: "string list \<Rightarrow> 'o client \<Rightarrow> string list \<Rightarrow> 'o client \<times> string list" where
  "subscribe_topics [] c subArgs = (c, subArgs)"
| "subscribe_topics (topic # topics) c subArgs =
     (if \<not> IsValidTopic topic \<or> isSubscribed c topic then subscribe_topics topics c subArgs
      else subscribe_topics topics
             (c\<lparr>cl_SubscribedTopics := AList.update topic None (cl_SubscribedTopics c)\<rparr>)
             (subArgs @ [normalizeTopic c topic]))"

text \<open>\<open>Subscribe\<close> sends one request when the client is connected, also an empty one.\<close>

definition client_Subscribe :: "string list \<Rightarrow> 'o client \<Rightarrow> 'o client \<times> OperationRequest option" where
  "client_Subscribe topics c =
     (let (c', subArgs) = subscribe_topics topics c []
      in (c', if cl_connected c' then Some \<lparr>Operation = ''subscribe'', Args = subArgs\<rparr> else None))"

fun client_UnSubscribe :: "string list \<Rightarrow> 'o client \<Rightarrow> 'o client" where
  "client_UnSubscribe [] c = c"
| "client_UnSubscribe (topic # topics) c =
     (if \<not> IsValidTopic topic \<or> \<not> isSubscribed c topic then client_UnSubscribe topics c
      else client_UnSubscribe topics (c\<lparr>cl_SubscribedTopics := AList.update topic None (cl_SubscribedTopics c)\<rparr>))"

section \<open>Connecting\<close>

text \<open>\<open>cacheMapper[topic](ctx, symbol)\<close>: a topic that is not in the map gives a nil function.\<close>

definition cacheMapper :: "string \<Rightarrow> (nat \<Rightarrow> 'o table_msg world \<Rightarrow> ('o any_cache \<times> 'o table_msg world) go) option" where
  "cacheMapper topic =
     (if topic = ''orderBookL2'' \<or> topic = ''orderBookL2_25'' then
        Some (\<lambda>n w. go_bind (NewMBLCache n w) (\<lambda>(c, w'). Ret (AnyMBL c, w')))
      else if topic = ''trade'' then Some (\<lambda>n w. go_bind (NewTradeCache n w) (\<lambda>(c, w'). Ret (AnyTrade c, w')))
      else if topic = ''instrument'' then
        Some (\<lambda>n w. go_bind (NewInstrumentCache n w) (\<lambda>(c, w'). Ret (AnyInstrument c, w')))
      else None)"

definition createCache :: "string \<Rightarrow> 'o client_state \<Rightarrow> 'o client_state go" where
  "createCache topic s =
     (case s of (c, w) \<Rightarrow>
        case map_of (cl_rspCache c) topic of
          Some _ \<Rightarrow> Ret s
        | None \<Rightarrow>
            (case cacheMapper topic of
               None \<Rightarrow> Panic NilFunctionCall
             | Some mk \<Rightarrow> go_bind (mk (cl_next c) w) (\<lambda>(cache, w').
                 Ret (c\<lparr>cl_rspCache := AList.update topic cache (cl_rspCache c), cl_next := Suc (cl_next c)\<rparr>, w'))))"

text \<open>The loop over the subscribed topics, in the order \<open>topics\<close> in which Go ranges over them.\<close>

fun connect_topics :: "string list \<Rightarrow> 'o client_state \<Rightarrow> string list \<Rightarrow> ('o client_state \<times> string list) go" where
  "connect_topics [] s subList = Ret (s, subList)"
| "connect_topics (topic # topics) s subList =
     (if IsPublicTopic topic then
        go_bind (createCache topic s) (\<lambda>s'. connect_topics topics s' (subList @ [normalizeTopic (fst s') topic]))
      else if IsPrivateTopic topic \<and> hasAuth (fst s) then
        go_bind (createCache topic s) (\<lambda>s'. connect_topics topics s' (subList @ [normalizeTopic (fst s') topic]))
      else connect_topics topics s subList)"

text \<open>\<open>dial\<close> is the dialer: an error, or \<open>None\<close> for a connection. The third result is the
  address that was dialled.\<close>

definition client_Connect :: "(url \<Rightarrow> error option) \<Rightarrow> APIKeyAuth option option \<Rightarrow> 'o client_state
    \<Rightarrow> ('o client_state \<times> error option \<times> url) go" where
  "client_Connect dial ctx s =
     (case s of (c, w) \<Rightarrow>
        let c1 = c\<lparr>cl_ctx := Some (case ctx of None \<Rightarrow> None | Some auth \<Rightarrow> auth)\<rparr>;
            remote = GetURL (cl_cfg c1)
        in go_bind (connect_topics (gokeys (cl_SubscribedTopics c1)) (c1, w) []) (\<lambda>((c2, w2), subList).
             let remote' = (if subList \<noteq> [] then remote\<lparr>url_RawQuery := ''subscribe='' @ go_join '','' subList\<rparr> else remote)
             in case dial remote' of
                  Some err \<Rightarrow> Ret ((c2, w2), Some (''Fail to connect: '' @ err), remote')
                | None \<Rightarrow> Ret ((c2\<lparr>cl_ws := True, cl_connected := True\<rparr>, w2), None, remote')))"

text \<open>The first call closes \<open>closeFlag\<close>; every call resets the two flags.\<close>

definition closeHandler :: "'o client \<Rightarrow> 'o client" where
  "closeHandler c = c\<lparr>cl_closeFlag := True, cl_connected := False, cl_authencated := False\<rparr>"

definition SetInfoHandler :: "bool \<Rightarrow> 'o client \<Rightarrow> 'o client" where
  "SetInfoHandler given c = (if given then c\<lparr>cl_infoHandler := True\<rparr> else c)"

definition SetErrHandler :: "bool \<Rightarrow> 'o client \<Rightarrow> 'o client" where
  "SetErrHandler given c = (if given then c\<lparr>cl_errHandler := True\<rparr> else c)"

definition SetSubHandler :: "bool \<Rightarrow> 'o client \<Rightarrow> 'o client" where
  "SetSubHandler given c = (if given then c\<lparr>cl_subHandler := True\<rparr> else c)"

section \<open>Caches of any table\<close>

definition any_GetDefaultChannel :: "'o any_cache \<Rightarrow> nat option go" where
  "any_GetDefaultChannel cache =
     (case cache of AnyMBL c \<Rightarrow> GetDefaultChannel c | AnyTrade c \<Rightarrow> GetDefaultChannel c
      | AnyInstrument c \<Rightarrow> GetDefaultChannel c)"

definition any_Append :: "'o table_msg \<Rightarrow> 'o any_cache \<Rightarrow> 'o any_cache go" where
  "any_Append m cache =
     (case cache of
        AnyMBL c \<Rightarrow> go_bind (Append (Some (NewCacheInput (Some m))) c) (\<lambda>c'. Ret (AnyMBL c'))
      | AnyTrade c \<Rightarrow> go_bind (Append (Some (NewCacheInput (Some m))) c) (\<lambda>c'. Ret (AnyTrade c'))
      | AnyInstrument c \<Rightarrow> go_bind (Append (Some (NewCacheInput (Some m))) c) (\<lambda>c'. Ret (AnyInstrument c')))"

text \<open>\<open>GetResponse\<close>: \<open>session\<close> and \<open>r\<close> are the new session id and Go channel.\<close>

definition GetResponse :: "string \<Rightarrow> string \<Rightarrow> nat \<Rightarrow> 'o client_state \<Rightarrow> ('o client_state \<times> nat option) go" where
  "GetResponse topic session r s =
     (case s of (c, w) \<Rightarrow>
        case map_of (cl_SubscribedTopics c) topic of
          None \<Rightarrow> Ret (s, None)
        | Some _ \<Rightarrow>
            (case map_of (cl_rspCache c) topic of
               None \<Rightarrow> Ret (s, None)
             | Some cache \<Rightarrow>
                 go_bind (any_GetDefaultChannel cache) (\<lambda>ch.
                 go_bind (go_deref ch) (\<lambda>n.
                 go_bind (RetriveData session r (chans w n)) (\<lambda>(rc, _, ch').
                   Ret ((c, put_chan n rc w), ch'))))))"

section \<open>Reading the websocket\<close>

text \<open>\<open>readMessage\<close>: heartbeat frames are taken out on the way to the next message. The result
  has the heartbeats that were queued, and, unless the frames ran out, the message or the
  error with the frames left.\<close>

fun readMessage :: "ws_frame list \<Rightarrow> string list \<times> ((error + string) \<times> ws_frame list) option" where
  "readMessage [] = ([], None)"
| "readMessage (ReadError e # fs) = ([], Some (Inl e, fs))"
| "readMessage (Frame msg # fs) =
     (if PongPattern msg then (case readMessage fs of (hbs, r) \<Rightarrow> (''Pong'' # hbs, r))
      else if PingPattern msg then (case readMessage fs of (hbs, r) \<Rightarrow> (''Ping'' # hbs, r))
      else ([], Some (Inr msg, fs)))"

text \<open>The JSON decoders of the message types; a market-by-level message comes with its rows.\<close>

record decoders =
  dec_info :: "string \<Rightarrow> error + InfoResponse"
  dec_auth :: "string \<Rightarrow> error + AuthResponse"
  dec_sub :: "string \<Rightarrow> error + SubscribeResponse"
  dec_err :: "string \<Rightarrow> error + ErrResponse"
  dec_ins :: "string \<Rightarrow> error + instrument dataResponse"
  dec_td :: "string \<Rightarrow> error + trade dataResponse"
  dec_mbl :: "string \<Rightarrow> error + orderL2 option dataResponse"

text \<open>What a client does for a user: calls of the handlers it was given.\<close>

datatype client_event = CallInfo InfoResponse | CallSub SubscribeResponse | CallErr ErrResponse

definition handleInfoMsg :: "decoders \<Rightarrow> string \<Rightarrow> 'o client \<Rightarrow> client_event list" where
  "handleInfoMsg dec msg c =
     (case dec_info dec msg of Inl _ \<Rightarrow> [] | Inr info \<Rightarrow> if cl_infoHandler c then [CallInfo info] else [])"

definition handleErrMsg :: "decoders \<Rightarrow> string \<Rightarrow> 'o client \<Rightarrow> client_event list" where
  "handleErrMsg dec msg c =
     (case dec_err dec msg of Inl _ \<Rightarrow> [] | Inr e \<Rightarrow> if cl_errHandler c then [CallErr e] else [])"

definition handleAuthMsg :: "decoders \<Rightarrow> string \<Rightarrow> 'o client \<Rightarrow> 'o client" where
  "handleAuthMsg dec msg c =
     (case dec_auth dec msg of Inl _ \<Rightarrow> c
      | Inr auth \<Rightarrow> if auth_Success auth then c\<lparr>cl_authencated := True\<rparr> else c)"

definition handlSubMsg :: "decoders \<Rightarrow> string \<Rightarrow> 'o client \<Rightarrow> 'o client \<times> client_event list" where
  "handlSubMsg dec msg c =
     (case dec_sub dec msg of
        Inl _ \<Rightarrow> (c, [])
      | Inr sub \<Rightarrow>
          (let topic = hd (go_split (CHR '':'') (Subscribe sub));
               topics = (if Success sub then AList.update topic (Some sub) (cl_SubscribedTopics c)
                         else AList.delete topic (cl_SubscribedTopics c))
           in (c\<lparr>cl_SubscribedTopics := topics\<rparr>, if cl_subHandler c then [CallSub sub] else [])))"

text \<open>A table message goes into the pipeline of the cache of its table, or, without caching,
  straight to the cache's default channel.\<close>

definition pass_on :: "('o any_cache \<Rightarrow> 'o table_msg \<times> 'o any_cache) \<Rightarrow> string \<Rightarrow> 'o client_state \<Rightarrow> 'o client_state go" where
  "pass_on mk tbl s =
     (case s of (c, w) \<Rightarrow>
        case map_of (cl_rspCache c) tbl of
          None \<Rightarrow> Ret s
        | Some cache \<Rightarrow>
            (let (m, cache1) = mk cache in
             if \<not> cfg_disableCache (cl_cfg c) then
               go_bind (any_Append m cache1) (\<lambda>cache'.
                 Ret (c\<lparr>cl_rspCache := AList.update tbl cache' (cl_rspCache c)\<rparr>, w))
             else
               go_bind (any_GetDefaultChannel cache1) (\<lambda>ch.
               go_bind (go_deref ch) (\<lambda>n.
               go_bind (PublishData m (chans w n)) (\<lambda>(rc, _).
                 Ret (c\<lparr>cl_rspCache := AList.update tbl cache1 (cl_rspCache c)\<rparr>, put_chan n rc w))))))"

text \<open>Decoding creates the order objects; they join the store of a market-by-level cache. A
  cache of another table only rejects such a message later, so its rows may dangle.\<close>

fun alloc_rows :: "orderL2 option list \<Rightarrow> orderL2 list \<Rightarrow> order_ref list \<times> orderL2 list" where
  "alloc_rows [] st = ([], st)"
| "alloc_rows (None # rows) st = (case alloc_rows rows st of (refs, st') \<Rightarrow> (None # refs, st'))"
| "alloc_rows (Some o' # rows) st =
     (case alloc_rows rows (st @ [o']) of (refs, st') \<Rightarrow> (Some (length st) # refs, st'))"

definition retype :: "'d dataResponse \<Rightarrow> 'e list \<Rightarrow> 'e dataResponse" where
  "retype r data = tableResponse.extend (tableResponse.truncate r) \<lparr>Data = data\<rparr>"

definition mbl_into :: "orderL2 option dataResponse \<Rightarrow> 'o any_cache \<Rightarrow> 'o table_msg \<times> 'o any_cache" where
  "mbl_into rsp cache =
     (case cache of
        AnyMBL c \<Rightarrow>
          (case alloc_rows (Data rsp) (objs (table c)) of (refs, st') \<Rightarrow>
             (MBLResponse (retype rsp refs), AnyMBL (c\<lparr>table := (table c)\<lparr>objs := st'\<rparr>\<rparr>)))
      | _ \<Rightarrow> (MBLResponse (retype rsp (fst (alloc_rows (Data rsp) []))), cache))"

definition handleInsMsg :: "decoders \<Rightarrow> string \<Rightarrow> 'o client_state \<Rightarrow> 'o client_state go" where
  "handleInsMsg dec msg s =
     (case dec_ins dec msg of Inl _ \<Rightarrow> Ret s | Inr rsp \<Rightarrow> pass_on (\<lambda>cache. (InstrumentResponse rsp, cache)) (Table rsp) s)"

definition handleTdMsg :: "decoders \<Rightarrow> string \<Rightarrow> 'o client_state \<Rightarrow> 'o client_state go" where
  "handleTdMsg dec msg s =
     (case dec_td dec msg of Inl _ \<Rightarrow> Ret s | Inr rsp \<Rightarrow> pass_on (\<lambda>cache. (TradeResponse rsp, cache)) (Table rsp) s)"

definition handleMblMsg :: "decoders \<Rightarrow> string \<Rightarrow> 'o client_state \<Rightarrow> 'o client_state go" where
  "handleMblMsg dec msg s =
     (case dec_mbl dec msg of Inl _ \<Rightarrow> Ret s | Inr rsp \<Rightarrow> pass_on (mbl_into rsp) (Table rsp) s)"

text \<open>The switch of \<open>messageHandler\<close>.\<close>

definition client_message :: "decoders \<Rightarrow> string \<Rightarrow> 'o client_state \<Rightarrow> ('o client_state \<times> client_event list) go" where
  "client_message dec msg s =
     (case s of (c, w) \<Rightarrow>
        if InfoPattern msg then Ret (s, handleInfoMsg dec msg c)
        else if SubPattern msg then (let (c', evs) = handlSubMsg dec msg c in Ret ((c', w), evs))
        else if ErrPattern msg then Ret (s, handleErrMsg dec msg c)
        else if AuthPattern msg then Ret ((handleAuthMsg dec msg c, w), [])
        else if InstrumentPattern msg then go_bind (handleInsMsg dec msg s) (\<lambda>s'. Ret (s', []))
        else if MBLPattern msg then go_bind (handleMblMsg dec msg s) (\<lambda>s'. Ret (s', []))
        else if TradePattern msg then go_bind (handleTdMsg dec msg s) (\<lambda>s'. Ret (s', []))
        else Ret (s, []))"

lemma readMessage_shorter: "readMessage fs = (hbs, Some (r, fs')) \<Longrightarrow> length fs' < length fs"
  by (induction fs arbitrary: hbs rule: readMessage.induct) (auto split: if_splits prod.splits)

text \<open>The loop, until the frames run out or a read fails; its results are the heartbeats it
  queued and the calls it made, in order.\<close>

function messageHandler :: "decoders \<Rightarrow> ws_frame list \<Rightarrow> 'o client_state \<Rightarrow> ('o client_state \<times> string list \<times> client_event list) go" where
  "messageHandler dec fs s =
     (case readMessage fs of
        (hbs, None) \<Rightarrow> Ret (s, hbs, [])
      | (hbs, Some (Inl err, _)) \<Rightarrow> Ret ((closeHandler (fst s), snd s), hbs, [])
      | (hbs, Some (Inr msg, fs')) \<Rightarrow>
          go_bind (client_message dec msg s) (\<lambda>(s1, evs).
          go_bind (messageHandler dec fs' s1) (\<lambda>(s2, hbs', evs'). Ret (s2, hbs @ hbs', evs @ evs'))))"
  by pat_completeness auto
termination
  by (relation "measure (\<lambda>(dec, fs, s). length fs)") (auto dest: readMessage_shorter [OF sym])

declare messageHandler.simps [simp del]

section \<open>Facts on topics\<close>

lemma valid_topic_names:
  "IsValidTopic t \<longleftrightarrow> (\<exists>name\<in>set (PublicTopics @ PrivateTopics). ToLower name = ToLower t)"
  by (auto simp: IsValidTopic_def IsPublicTopic_def IsPrivateTopic_def list_ex_iff eq_commute)

lemma symbolSubs_valid: "set symbolSubs \<subseteq> set (PublicTopics @ PrivateTopics)"
  by (auto simp: symbolSubs_def PublicTopics_def PrivateTopics_def)

lemma topic_names_nonempty: "[] \<notin> set (PublicTopics @ PrivateTopics)" "[] \<notin> set symbolSubs"
  by (auto simp: PublicTopics_def PrivateTopics_def symbolSubs_def)

lemma find_member: "find P xs = Some x \<Longrightarrow> x \<in> set xs \<and> P x"
  by (induction xs) (auto split: if_splits)

lemma normalizeTopic_cfg: "cl_cfg c' = cl_cfg c \<Longrightarrow> normalizeTopic c' = normalizeTopic c"
  by (simp add: normalizeTopic_def fun_eq_iff split: option.split)

lemma normalizeTopic_case: "ToLower t = ToLower t' \<Longrightarrow> normalizeTopic c t = normalizeTopic c t'"
  by (simp add: normalizeTopic_def cong: option.case_cong)

lemma normalizeTopic_valid: "normalizeTopic c t \<noteq> [] \<longleftrightarrow> IsValidTopic t"
proof (cases "find (\<lambda>name. ToLower name = ToLower t) symbolSubs")
  case None
  then show ?thesis
  proof (cases "find (\<lambda>name. ToLower name = ToLower t) (PublicTopics @ PrivateTopics)")
    case None': None
    then have "\<not> IsValidTopic t" by (auto simp: valid_topic_names find_None_iff)
    then show ?thesis using None None' by (simp add: normalizeTopic_def)
  next
    case (Some name)
    then have "name \<in> set (PublicTopics @ PrivateTopics)" "ToLower name = ToLower t"
      using find_member by fast+
    moreover then have "name \<noteq> []" using topic_names_nonempty by blast
    ultimately show ?thesis using None Some by (auto simp: normalizeTopic_def valid_topic_names)
  qed
next
  case (Some name)
  then have "name \<in> set symbolSubs" "ToLower name = ToLower t" using find_member by fast+
  then show ?thesis using Some symbolSubs_valid by (auto simp: normalizeTopic_def valid_topic_names)
qed

section \<open>Facts on subscriptions\<close>

lemma isSubscribed_new [simp]:
  "\<not> isSubscribed c t \<Longrightarrow>
    isSubscribed (c\<lparr>cl_SubscribedTopics := AList.update t None (cl_SubscribedTopics c)\<rparr>) u = isSubscribed c u"
  by (auto simp: isSubscribed_def)

lemma normalizeTopic_topics [simp]: "normalizeTopic (c\<lparr>cl_SubscribedTopics := m\<rparr>) t = normalizeTopic c t"
  by (simp add: normalizeTopic_def split: option.split)

text \<open>What a call of \<open>Subscribe\<close> asks for.\<close>

definition wanted :: "'o client \<Rightarrow> string list \<Rightarrow> string list" where
  "wanted c topics = filter (\<lambda>t. IsValidTopic t \<and> \<not> isSubscribed c t) topics"

lemma subscribe_topics_spec:
  "subscribe_topics topics c args = (c', args') \<Longrightarrow>
    args' = args @ map (normalizeTopic c) (wanted c topics) \<and> (\<forall>t. isSubscribed c' t = isSubscribed c t)
    \<and> fst ` set (cl_SubscribedTopics c') = fst ` set (cl_SubscribedTopics c) \<union> set (wanted c topics)
    \<and> c' = c\<lparr>cl_SubscribedTopics := cl_SubscribedTopics c'\<rparr>"
proof (induction topics arbitrary: c args)
  case Nil
  then show ?case by (simp add: wanted_def)
next
  case (Cons t ts)
  let ?c = "c\<lparr>cl_SubscribedTopics := AList.update t None (cl_SubscribedTopics c)\<rparr>"
  show ?case
  proof (cases "IsValidTopic t \<and> \<not> isSubscribed c t")
    case False
    then show ?thesis using Cons by (simp add: wanted_def) blast
  next
    case True
    then have "subscribe_topics ts ?c (args @ [normalizeTopic c t]) = (c', args')" using Cons.prems by auto
    from Cons.IH [OF this] True
    show ?thesis
      by (simp add: wanted_def dom_update image_Un Un_assoc Un_commute del: map_of_update)
  qed
qed

lemma handlSubMsg_spec:
  assumes "dec_sub dec msg = Inr sub" and "topic = hd (go_split (CHR '':'') (Subscribe sub))"
    and "handlSubMsg dec msg c = (c', evs)"
  shows "isSubscribed c' t = (if t = topic then Success sub else isSubscribed c t)"
  using assms by (cases "Success sub") (auto simp: handlSubMsg_def isSubscribed_def Let_def)

section \<open>Facts on connecting\<close>

text \<open>The topics a connection creates a cache for, and the ones it can create one for.\<close>

definition needs_cache :: "'o client \<Rightarrow> string \<Rightarrow> bool" where
  "needs_cache c t \<longleftrightarrow> IsPublicTopic t \<or> (IsPrivateTopic t \<and> hasAuth c)"

definition has_cache :: "'o client \<Rightarrow> string \<Rightarrow> bool" where
  "has_cache c t \<longleftrightarrow> map_of (cl_rspCache c) t \<noteq> None"

definition mapped_topic :: "string \<Rightarrow> bool" where
  "mapped_topic t \<longleftrightarrow> t \<in> {''orderBookL2'', ''orderBookL2_25'', ''trade'', ''instrument''}"

lemma cacheMapper_None: "cacheMapper t = None \<Longrightarrow> \<not> mapped_topic t"
  by (auto simp: cacheMapper_def mapped_topic_def split: if_splits)

lemma cacheMapper_Some: "cacheMapper t = Some mk \<Longrightarrow> mapped_topic t"
  by (auto simp: cacheMapper_def mapped_topic_def split: if_splits)

lemma cacheMapper_returns:
  fixes w :: "'o table_msg world"
  assumes "cacheMapper t = Some mk"
  shows "\<exists>cache w'. mk n w = Ret (cache, w')"
proof -
  obtain c1 w1 where 1: "NewMBLCache n w = Ret (c1 :: (mbl, 'o table_msg, 'o table_msg) tableCache, w1)"
    using new_cache_ok [of newMBL n w] by (auto simp: NewMBLCache_def)
  obtain c2 w2 where 2: "NewTradeCache n w = Ret (c2 :: (tradeCache, 'o table_msg, 'o table_msg) tableCache, w2)"
    using new_cache_ok [of "\<lparr>historyTrade = []\<rparr>" n w] by (auto simp: NewTradeCache_def)
  obtain c3 w3 where 3: "NewInstrumentCache n w = Ret (c3 :: (instrumentCache, 'o table_msg, 'o table_msg) tableCache, w3)"
    using new_cache_ok [of newInstrumentCache n w] by (auto simp: NewInstrumentCache_def)
  from assms 1 2 3 show ?thesis by (auto simp: cacheMapper_def split: if_splits)
qed

text \<open>Two clients that differ in their caches only.\<close>

definition only_caches :: "'o client \<Rightarrow> 'o client \<Rightarrow> bool" where
  "only_caches c c' \<longleftrightarrow> c'\<lparr>cl_rspCache := cl_rspCache c, cl_next := cl_next c\<rparr> = c"

lemma only_caches_refl [simp]: "only_caches c c"
  by (simp add: only_caches_def)

lemma only_caches_put [simp]: "only_caches c (c\<lparr>cl_rspCache := m, cl_next := k\<rparr>)"
  by (simp add: only_caches_def)

lemma only_caches_trans: "only_caches a b \<Longrightarrow> only_caches b c \<Longrightarrow> only_caches a c"
  unfolding only_caches_def by (cases a, cases b, cases c) simp

lemma only_cachesD:
  assumes "only_caches c c'"
  shows "cl_cfg c' = cl_cfg c" "cl_ctx c' = cl_ctx c" "cl_SubscribedTopics c' = cl_SubscribedTopics c"
    "cl_connected c' = cl_connected c" "cl_ws c' = cl_ws c"
  using arg_cong [OF assms [unfolded only_caches_def], of cl_cfg]
    arg_cong [OF assms [unfolded only_caches_def], of cl_ctx]
    arg_cong [OF assms [unfolded only_caches_def], of cl_SubscribedTopics]
    arg_cong [OF assms [unfolded only_caches_def], of cl_connected]
    arg_cong [OF assms [unfolded only_caches_def], of cl_ws]
  by simp_all

lemma createCache_cases:
  "(has_cache c t \<or> mapped_topic t) \<and> (\<exists>c' w'. createCache t (c, w) = Ret (c', w') \<and> has_cache c' t
      \<and> (\<forall>u. u \<noteq> t \<longrightarrow> map_of (cl_rspCache c') u = map_of (cl_rspCache c) u)
      \<and> only_caches c c')
   \<or> \<not> has_cache c t \<and> \<not> mapped_topic t \<and> createCache t (c, w) = Panic NilFunctionCall"
proof (cases "map_of (cl_rspCache c) t")
  case (Some x)
  then show ?thesis by (auto simp: createCache_def has_cache_def)
next
  case None
  show ?thesis
  proof (cases "cacheMapper t :: (nat \<Rightarrow> 'a table_msg world \<Rightarrow> ('a any_cache \<times> 'a table_msg world) go) option")
    case None': None
    then have "\<not> mapped_topic t" by (rule cacheMapper_None)
    then show ?thesis using None None' by (simp add: createCache_def has_cache_def)
  next
    case (Some mk)
    then have m: "mapped_topic t" by (rule cacheMapper_Some)
    obtain cache w' where "mk (cl_next c) w = Ret (cache, w')" using cacheMapper_returns [OF Some] by blast
    then show ?thesis using None Some m by (simp add: createCache_def has_cache_def)
  qed
qed

lemma connect_topics_spec:
  "if \<forall>t\<in>set topics. needs_cache c t \<longrightarrow> has_cache c t \<or> mapped_topic t
   then \<exists>c' w'. connect_topics topics (c, w) args =
          Ret ((c', w'), args @ map (normalizeTopic c) (filter (needs_cache c) topics))
        \<and> only_caches c c'
        \<and> (\<forall>t. has_cache c' t \<longleftrightarrow> has_cache c t \<or> t \<in> set topics \<and> needs_cache c t)
   else connect_topics topics (c, w) args = Panic NilFunctionCall"
proof (induction topics arbitrary: c w args)
  case Nil
  then show ?case by simp
next
  case (Cons t ts)
  show ?case
  proof (cases "needs_cache c t")
    case False
    then have "connect_topics (t # ts) (c, w) args = connect_topics ts (c, w) args"
      by (auto simp: needs_cache_def)
    with Cons.IH [of c w args] False show ?thesis by (auto split: if_splits)
  next
    case True
    then have step: "connect_topics (t # ts) (c, w) args =
        go_bind (createCache t (c, w)) (\<lambda>s'. connect_topics ts s' (args @ [normalizeTopic (fst s') t]))"
      by (auto simp: needs_cache_def)
    consider (made) c' w' where "createCache t (c, w) = Ret (c', w')" "has_cache c' t"
        "\<forall>u. u \<noteq> t \<longrightarrow> map_of (cl_rspCache c') u = map_of (cl_rspCache c) u" "only_caches c c'"
        "has_cache c t \<or> mapped_topic t"
      | (none) "\<not> has_cache c t" "\<not> mapped_topic t" "createCache t (c, w) = Panic NilFunctionCall"
      using createCache_cases [of c t w] by blast
    then show ?thesis
    proof cases
      case made
      note c' = made(1-4) and ok = made(5)
      have same: "needs_cache c' = needs_cache c" "normalizeTopic c' = normalizeTopic c"
        by (simp add: needs_cache_def hasAuth_def fun_eq_iff only_cachesD(2) [OF c'(4)])
          (rule normalizeTopic_cfg [OF only_cachesD(1) [OF c'(4)]])
      have has: "has_cache c' u \<longleftrightarrow> has_cache c u \<or> u = t" for u
        using c'(2,3) by (cases "u = t") (auto simp: has_cache_def)
      have st: "connect_topics (t # ts) (c, w) args = connect_topics ts (c', w') (args @ [normalizeTopic c t])"
        unfolding step by (simp add: c'(1) same(2))
      have goal: "(\<forall>u\<in>set (t # ts). needs_cache c u \<longrightarrow> has_cache c u \<or> mapped_topic u) \<longleftrightarrow>
          (\<forall>u\<in>set ts. needs_cache c' u \<longrightarrow> has_cache c' u \<or> mapped_topic u)"
        using ok by (auto simp: same has)
      show ?thesis
      proof (cases "\<forall>u\<in>set ts. needs_cache c' u \<longrightarrow> has_cache c' u \<or> mapped_topic u")
        case A: True
        from Cons.IH [of c' w' "args @ [normalizeTopic c t]", unfolded if_P [OF A]] obtain c2 w2 where
          r: "connect_topics ts (c', w') (args @ [normalizeTopic c t]) =
            Ret ((c2, w2), (args @ [normalizeTopic c t]) @ map (normalizeTopic c') (filter (needs_cache c') ts))"
          "only_caches c' c2"
          "\<forall>u. has_cache c2 u \<longleftrightarrow> has_cache c' u \<or> u \<in> set ts \<and> needs_cache c' u" by blast
        have "only_caches c c2"
          by (rule only_caches_trans [OF c'(4) r(2)])
        moreover have "\<forall>u. has_cache c2 u \<longleftrightarrow> has_cache c u \<or> u \<in> set (t # ts) \<and> needs_cache c u"
          using r(3) True by (auto simp: has same)
        moreover have "connect_topics (t # ts) (c, w) args =
            Ret ((c2, w2), args @ map (normalizeTopic c) (filter (needs_cache c) (t # ts)))"
          unfolding st using r(1) True by (simp add: same)
        ultimately show ?thesis unfolding if_P [OF iffD2 [OF goal A]] by blast
      next
        case B: False
        then have "\<not> (\<forall>u\<in>set (t # ts). needs_cache c u \<longrightarrow> has_cache c u \<or> mapped_topic u)" using goal by blast
        then show ?thesis using Cons.IH [of c' w' "args @ [normalizeTopic c t]", unfolded if_not_P [OF B]]
          by (simp only: if_False st) 
      qed
    next
      case none
      then have "\<not> (\<forall>u\<in>set (t # ts). needs_cache c u \<longrightarrow> has_cache c u \<or> mapped_topic u)" using True by auto
      then show ?thesis unfolding step using none(3) by simp
    qed
  qed
qed

end
