(* ===== verification/ClientStreams.thy ===== *)
theory ClientStreams
  imports Client Delivery
begin

text \<open>
  The client as a whole: what connecting does, and the way of trade messages from the
  websocket through the cache of their table to the Go channel of a user.
\<close>

section \<open>Connecting\<close>

lemma Connect_cases:
  fixes c :: "'o client" and auth :: "APIKeyAuth option"
  defines "c1 \<equiv> c\<lparr>cl_ctx := Some auth\<rparr>" and "topics \<equiv> gokeys (cl_SubscribedTopics c)"
  assumes auth: "auth = (case ctx of None \<Rightarrow> None | Some a \<Rightarrow> a)"
    and subs: "subs = map (normalizeTopic c) (filter (needs_cache c1) topics)"
    and remote: "remote = (GetURL (cl_cfg c))\<lparr>url_RawQuery := (if subs = [] then [] else ''subscribe='' @ go_join '','' subs)\<rparr>"
  shows "if \<forall>t\<in>set topics. needs_cache c1 t \<longrightarrow> has_cache c t \<or> mapped_topic t
    then \<exists>c' w'. client_Connect dial ctx (c, w) = Ret ((c', w'), map_option (\<lambda>e. ''Fail to connect: '' @ e) (dial remote), remote)
      \<and> IsConnected c' = (dial remote = None \<or> IsConnected c) \<and> cl_SubscribedTopics c' = cl_SubscribedTopics c
      \<and> (\<forall>t. has_cache c' t \<longleftrightarrow> has_cache c t \<or> t \<in> set topics \<and> needs_cache c1 t)
    else client_Connect dial ctx (c, w) = Panic NilFunctionCall"
proof -
  have has1: "has_cache c1 = has_cache c" "normalizeTopic c1 = normalizeTopic c"
    by (simp add: c1_def has_cache_def fun_eq_iff) (rule normalizeTopic_cfg, simp add: c1_def)
  have keys: "gokeys (cl_SubscribedTopics c1) = topics" "cl_cfg c1 = cl_cfg c" by (simp_all add: c1_def topics_def)
  have def: "client_Connect dial ctx (c, w) = go_bind (connect_topics topics (c1, w) []) (\<lambda>((c2, w2), subList).
       let remote' = (if subList \<noteq> [] then (GetURL (cl_cfg c))\<lparr>url_RawQuery := ''subscribe='' @ go_join '','' subList\<rparr> else GetURL (cl_cfg c))
       in case dial remote' of
            Some err \<Rightarrow> Ret ((c2, w2), Some (''Fail to connect: '' @ err), remote')
          | None \<Rightarrow> Ret ((c2\<lparr>cl_ws := True, cl_connected := True\<rparr>, w2), None, remote'))"
    unfolding client_Connect_def prod.case Let_def auth [symmetric] c1_def [symmetric] keys ..
  have rem: "(if subs \<noteq> [] then (GetURL (cl_cfg c))\<lparr>url_RawQuery := ''subscribe='' @ go_join '','' subs\<rparr> else GetURL (cl_cfg c)) = remote"
    by (simp add: remote GetURL_def)
  show ?thesis
  proof (cases "\<forall>t\<in>set topics. needs_cache c1 t \<longrightarrow> has_cache c t \<or> mapped_topic t")
    case True
    have "\<forall>t\<in>set topics. needs_cache c1 t \<longrightarrow> has_cache c1 t \<or> mapped_topic t" using True by (simp add: has1)
    from connect_topics_spec [of topics c1 w "[]", unfolded if_P [OF this]] obtain c2 w2 where
      r: "connect_topics topics (c1, w) [] = Ret ((c2, w2), [] @ map (normalizeTopic c1) (filter (needs_cache c1) topics))"
      "only_caches c1 c2" "\<forall>t. has_cache c2 t \<longleftrightarrow> has_cache c1 t \<or> t \<in> set topics \<and> needs_cache c1 t" by blast
    have f: "cl_SubscribedTopics c2 = cl_SubscribedTopics c" "IsConnected c2 = IsConnected c"
      using only_cachesD [OF r(2)] by (simp_all add: c1_def IsConnected_def)
    let ?c3 = "if dial remote = None then c2\<lparr>cl_ws := True, cl_connected := True\<rparr> else c2"
    have "client_Connect dial ctx (c, w) =
        Ret ((?c3, w2), map_option (\<lambda>e. ''Fail to connect: '' @ e) (dial remote), remote)"
      unfolding def r(1) has1 append_Nil subs [symmetric] go_bind.simps prod.case Let_def rem
      by (cases "dial remote") simp_all
    moreover have "IsConnected ?c3 = (dial remote = None \<or> IsConnected c)"
      using f(2) by (cases "dial remote") (simp_all add: IsConnected_def)
    moreover have "cl_SubscribedTopics ?c3 = cl_SubscribedTopics c" using f(1) by simp
    moreover have "\<forall>t. has_cache ?c3 t \<longleftrightarrow> has_cache c t \<or> t \<in> set topics \<and> needs_cache c1 t"
      using r(3) by (simp add: has1) (simp add: has_cache_def)
    ultimately show ?thesis unfolding if_P [OF True] by blast
  next
    case False
    have "\<not> (\<forall>t\<in>set topics. needs_cache c1 t \<longrightarrow> has_cache c1 t \<or> mapped_topic t)" using False by (simp add: has1)
    from connect_topics_spec [of topics c1 w "[]", unfolded if_not_P [OF this]]
    show ?thesis unfolding if_not_P [OF False] def by simp
  qed
qed

section \<open>The way of a message\<close>

definition is_heartbeat :: "string \<Rightarrow> bool" where
  "is_heartbeat msg \<longleftrightarrow> PongPattern msg \<or> PingPattern msg"

definition heartbeat_type :: "string \<Rightarrow> string" where
  "heartbeat_type msg = (if PongPattern msg then ''Pong'' else ''Ping'')"

lemma messageHandler_heartbeat:
  assumes "is_heartbeat msg"
  shows "messageHandler dec (Frame msg # fs) s =
    go_bind (messageHandler dec fs s) (\<lambda>(s', hbs, evs). Ret (s', heartbeat_type msg # hbs, evs))"
proof -
  obtain hbs r where r: "readMessage fs = (hbs, r)" by (cases "readMessage fs")
  then have r': "readMessage (Frame msg # fs) = (heartbeat_type msg # hbs, r)"
    using assms by (auto simp: is_heartbeat_def heartbeat_type_def)
  show ?thesis
  proof (cases r)
    case None
    then show ?thesis using r r' by (simp add: messageHandler.simps [of dec "Frame msg # fs"] messageHandler.simps [of dec fs])
  next
    case (Some x)
    obtain e fs' where x: "x = (e, fs')" by (cases x)
    have assoc: "go_bind (go_bind m f) g = go_bind m (\<lambda>a. go_bind (f a) g)"
      for m :: "('o client_state \<times> client_event list) go" and f and g :: "_ \<Rightarrow> ('o client_state \<times> string list \<times> client_event list) go"
      by (cases m) auto
    show ?thesis
      using r r' Some x
      by (cases e)
        (simp_all add: messageHandler.simps [of dec "Frame msg # fs"] messageHandler.simps [of dec fs]
          go_bind_assoc case_prod_unfold)
  qed
qed

lemma messageHandler_message:
  assumes "\<not> is_heartbeat msg"
  shows "messageHandler dec (Frame msg # fs) s =
    go_bind (client_message dec msg s) (\<lambda>(s1, evs).
    go_bind (messageHandler dec fs s1) (\<lambda>(s2, hbs', evs'). Ret (s2, hbs', evs @ evs')))"
proof -
  have "readMessage (Frame msg # fs) = ([], Some (Inr msg, fs))" using assms by (simp add: is_heartbeat_def)
  then show ?thesis by (simp add: messageHandler.simps [of dec "Frame msg # fs"])
qed

text \<open>A frame with a trade message and nothing else.\<close>

definition trade_only :: "string \<Rightarrow> bool" where
  "trade_only msg \<longleftrightarrow> \<not> is_heartbeat msg \<and> \<not> InfoPattern msg \<and> \<not> SubPattern msg \<and> \<not> ErrPattern msg
     \<and> \<not> AuthPattern msg \<and> \<not> InstrumentPattern msg \<and> \<not> MBLPattern msg \<and> TradePattern msg"

lemma client_message_trade:
  assumes "trade_only msg" and "dec_td dec msg = Inr td" and "map_of (cl_rspCache c) (Table td) = Some (AnyTrade tc)"
    and "\<not> cfg_disableCache (cl_cfg c)" and "\<not> pipelineClosed tc"
  shows "client_message dec msg (c, w) = Ret ((c\<lparr>cl_rspCache := AList.update (Table td)
    (AnyTrade (tc\<lparr>pipeline := pipeline tc @ [Some (CacheMsg (Some (TradeResponse td)))]\<rparr>)) (cl_rspCache c)\<rparr>, w), [])"
  using assms
  by (simp add: client_message_def trade_only_def handleTdMsg_def pass_on_def any_Append_def Append_def
      send_pipeline_def NewCacheInput_def)

text \<open>The frames a client gets: heartbeats and trade messages of one table, in any order.\<close>

fun trade_frames :: "decoders \<Rightarrow> string \<Rightarrow> ws_frame list \<Rightarrow> (string list \<times> trade dataResponse list) option" where
  "trade_frames dec tbl [] = Some ([], [])"
| "trade_frames dec tbl (ReadError e # fs) = None"
| "trade_frames dec tbl (Frame msg # fs) =
     (case trade_frames dec tbl fs of
        None \<Rightarrow> None
      | Some (hbs, tds) \<Rightarrow>
          if is_heartbeat msg then Some (heartbeat_type msg # hbs, tds)
          else if trade_only msg then
            (case dec_td dec msg of Inl _ \<Rightarrow> None | Inr td \<Rightarrow> if Table td = tbl then Some (hbs, td # tds) else None)
          else None)"

lemma trades_queued:
  assumes "trade_frames dec tbl fs = Some (hbs, tds)" and "map_of (cl_rspCache c) tbl = Some (AnyTrade tc)"
    and "\<not> cfg_disableCache (cl_cfg c)" and "\<not> pipelineClosed tc"
  shows "\<exists>c'. messageHandler dec fs (c, w) = Ret ((c', w), hbs, [])
    \<and> map_of (cl_rspCache c') tbl = Some (AnyTrade (tc\<lparr>pipeline := pipeline tc @ map (\<lambda>td. Some (CacheMsg (Some (TradeResponse td)))) tds\<rparr>))
    \<and> (\<forall>t. t \<noteq> tbl \<longrightarrow> map_of (cl_rspCache c') t = map_of (cl_rspCache c) t)"
  using assms
proof (induction dec tbl fs arbitrary: c tc hbs tds rule: trade_frames.induct)
  case (1 dec tbl)
  then show ?case by (simp add: messageHandler.simps [of dec "[]"])
next
  case (2 dec tbl e fs)
  then show ?case by simp
next
  case (3 dec tbl msg fs)
  obtain hbs0 tds0 where rest: "trade_frames dec tbl fs = Some (hbs0, tds0)"
    using "3.prems"(1) by (auto split: option.splits)
  show ?case
  proof (cases "is_heartbeat msg")
    case True
    then have eq: "hbs = heartbeat_type msg # hbs0" "tds = tds0" using "3.prems"(1) rest by auto
    from "3.IH" [OF rest "3.prems"(2-4)] eq show ?thesis by (auto simp: messageHandler_heartbeat [OF True])
  next
    case False
    then obtain td where td: "trade_only msg" "dec_td dec msg = Inr td" "Table td = tbl" "hbs = hbs0" "tds = td # tds0"
      using "3.prems"(1) rest by (auto split: if_splits sum.splits)
    let ?tc = "tc\<lparr>pipeline := pipeline tc @ [Some (CacheMsg (Some (TradeResponse td)))]\<rparr>"
    let ?c = "c\<lparr>cl_rspCache := AList.update tbl (AnyTrade ?tc) (cl_rspCache c)\<rparr>"
    have "client_message dec msg (c, w) = Ret ((?c, w), [])"
      using client_message_trade [OF td(1,2), of c tc w] "3.prems"(2-4) td(3) by simp
    moreover from "3.IH" [OF rest, of ?c ?tc] "3.prems"(3,4) obtain c' where
      "messageHandler dec fs (?c, w) = Ret ((c', w), hbs0, [])"
      "map_of (cl_rspCache c') tbl = Some (AnyTrade (?tc\<lparr>pipeline := pipeline ?tc @ map (\<lambda>td. Some (CacheMsg (Some (TradeResponse td)))) tds0\<rparr>))"
      "\<forall>t. t \<noteq> tbl \<longrightarrow> map_of (cl_rspCache c') t = map_of (cl_rspCache ?c) t" by auto
    ultimately show ?thesis using td(4,5) by (simp add: messageHandler_message [OF False])
  qed
qed

text \<open>The trade cache passes every insertion on.\<close>

lemma feed_insertions:
  "\<forall>td\<in>set tds. Action td = InsertAction \<Longrightarrow>
    \<exists>t'. feed trade_handle rt t (map (\<lambda>td. Some (TradeResponse td)) tds) =
      Ret (t', map (\<lambda>td. (0, TradeResponse td :: 'o table_msg)) tds)"
proof (induction tds arbitrary: t)
  case (Cons td tds)
  obtain t1 where h: "trade_applyData t td = (t1, True)"
    using Cons.prems by (simp add: trade_applyData_def action_defs Let_def)
  obtain t2 where "feed trade_handle rt t1 (map (\<lambda>td. Some (TradeResponse td)) tds) =
      Ret (t2, map (\<lambda>td. (0, TradeResponse td :: 'o table_msg)) tds)"
    using Cons.IH [of t1] Cons.prems by auto
  moreover have "trade_handle rt t (Some (TradeResponse td)) = Ret (t1, [(0, TradeResponse td :: 'o table_msg)])"
    by (simp add: trade_handle_def trade_handleInput_def h)
  ultimately show ?case by simp
qed simp

lemma insertions_accepted:
  assumes "\<forall>td\<in>set tds. Action td = InsertAction" and zero: "0 \<in> fst ` set rt"
  shows "accepts_all trade_handle trade_accepts rt t (map (\<lambda>td. Some (TradeResponse td)) tds)"
  using assms(1)
proof (induction tds arbitrary: t)
  case (Cons td tds)
  obtain t1 where "trade_applyData t td = (t1, True)"
    using Cons.prems by (simp add: trade_applyData_def action_defs Let_def)
  then show ?case using Cons zero by (simp add: trade_handle_def trade_handleInput_def trade_accepts_def action_defs)
qed simp

lemma at_depth_all: "at_depth 0 (map (\<lambda>x. (0, f x)) xs) = map f xs"
  by (induction xs) (simp_all add: at_depth_def)

lemma trades_reach_user:
  fixes c :: "'o client"
  assumes fr: "trade_frames dec tbl fs = Some (hbs, tds)" and ins: "\<forall>td\<in>set tds. Action td = InsertAction"
    and cache: "map_of (cl_rspCache c) tbl = Some (AnyTrade tc)" and on: "\<not> cfg_disableCache (cl_cfg c)" "\<not> pipelineClosed tc"
    and tc: "history_ok (table tc)" "pipeline tc = []" "realtime_group tc = [(0, n)]"
    and w: "world_ok w" "chan_open (chans w n)" "source (chans w n) = Some []" "childChannels (chans w n) = []"
    and s: "(s, Some r) \<in> set (destinations (chans w n))" and room: "\<And>r. room r"
  shows "\<exists>c' tc' tc'' w' w''. messageHandler dec fs (c, w) = Ret ((c', w), hbs, [])
    \<and> map_of (cl_rspCache c') tbl = Some (AnyTrade tc')
    \<and> cache_run trade_handle trade_snap (length tds) (tc', w) = Ret (tc'', w')
    \<and> loop_turns room n (length tds) w' = Ret w''
    \<and> sent (streams w'' r) = sent (streams w r) @ map TradeResponse tds"
proof -
  define ms :: "'o table_msg option list" where "ms = map (\<lambda>td. Some (TradeResponse td)) tds"
  let ?tc = "tc\<lparr>pipeline := map (\<lambda>m. Some (CacheMsg m)) ms\<rparr>"
  from trades_queued [OF fr cache on, of w] tc(2) obtain c' where
    c': "messageHandler dec fs (c, w) = Ret ((c', w), hbs, [])" "map_of (cl_rspCache c') tbl = Some (AnyTrade ?tc)"
    by (auto simp: o_def ms_def)
  obtain t' where f: "feed trade_handle (realtime_group ?tc) (table ?tc) ms =
      Ret (t', map (\<lambda>td. (0, TradeResponse td :: 'o table_msg)) tds)"
    using feed_insertions [OF ins] unfolding ms_def by blast
  have g: "realtime_group ?tc = [(0, n)]" using tc(3) by (simp add: realtime_group_def)
  have acc: "accepts_all trade_handle trade_accepts [(0, n)] (table tc) ms"
    using insertions_accepted [OF ins, of "[(0, n)]"] by (simp add: ms_def)
  have "\<exists>t ps w' w''. feed trade_handle (realtime_group ?tc) (table ?tc) ms = Ret (t, ps) \<and> history_ok t
    \<and> cache_run trade_handle trade_snap (length ms) (?tc, w) = Ret (?tc\<lparr>table := t, pipeline := []\<rparr>, w')
    \<and> loop_turns room n (length (at_depth 0 ps)) w' = Ret w''
    \<and> sent (streams w'' r) = sent (streams w r) @ at_depth 0 ps"
    by (rule trades.session_receives) (use tc w s room acc in \<open>simp_all add: g\<close>)
  then obtain t ps w' w'' where run: "feed trade_handle (realtime_group ?tc) (table ?tc) ms = Ret (t, ps)"
    "cache_run trade_handle trade_snap (length ms) (?tc, w) = Ret (?tc\<lparr>table := t, pipeline := []\<rparr>, w')"
    "loop_turns room n (length (at_depth 0 ps)) w' = Ret w''"
    "sent (streams w'' r) = sent (streams w r) @ at_depth 0 ps" by blast
  have "at_depth 0 ps = map TradeResponse tds" using run(1) f by (simp add: at_depth_all)
  moreover have "length ms = length tds" by (simp add: ms_def)
  ultimately show ?thesis using run(2-4) c' by (metis length_map)
qed

end
