(* ===== verification/Replica.thy ===== *)
theory Replica
  imports ClientStreams
begin

text \<open>
  Two order books at the ends of a connection. A message travels as its rows, not as references:
  the receiver makes objects of its own for them. \<open>receive\<close> is one message through
  \<open>handleInput\<close> of a cache, and \<open>relay\<close> a list of them through the cache of the server, with the
  rows its full channel publishes, read when they are published.
\<close>

section \<open>Rows and references\<close>

text \<open>The rows a message of references stands for, as an encoder of the message sees them.\<close>

definition resolve :: "orderL2 list \<Rightarrow> order_ref dataResponse \<Rightarrow> orderL2 option dataResponse" where
  "resolve st m = retype m (map (map_option ((!) st)) (Data m))"

lemma retype_simps [simp]:
  "Data (retype r xs) = xs" "retype (retype r xs) ys = retype r ys" "retype r (Data r) = r"
  "Action (retype r xs) = Action r" "Table (retype r xs) = Table r"
  by (cases r, simp add: retype_def tableResponse.defs dataResponse.defs)+

lemma alloc_rows_resolve:
  "alloc_rows rows st = (refs, st') \<Longrightarrow>
    (\<exists>new. st' = st @ new) \<and> (\<forall>more. map (map_option ((!) (st' @ more))) refs = rows)"
proof (induction rows arbitrary: st refs)
  case (Cons row rows)
  show ?case
  proof (cases row)
    case None
    then obtain refs' where "alloc_rows rows st = (refs', st')" "refs = None # refs'"
      using Cons.prems by (auto split: prod.splits)
    then show ?thesis using Cons.IH None by fastforce
  next
    case (Some o')
    then obtain refs' where r: "alloc_rows rows (st @ [o']) = (refs', st')" "refs = Some (length st) # refs'"
      using Cons.prems by (auto split: prod.splits)
    obtain new where n: "st' = (st @ [o']) @ new" and m: "\<forall>more. map (map_option ((!) (st' @ more))) refs' = rows"
      using Cons.IH [OF r(1)] by blast
    have "(st' @ more) ! length st = o'" for more by (simp add: n nth_append)
    then show ?thesis using m n by (auto simp: r(2) Some)
  qed
qed simp

lemma alloc_rows_Some:
  "alloc_rows (map Some os) st = (map Some [length st..<length st + length os], st @ os)"
proof (induction os arbitrary: st)
  case (Cons o' os)
  have "[length st..<length st + length (o' # os)] = length st # [Suc (length st)..<Suc (length st) + length os]"
    by (simp add: upt_conv_Cons del: upt_Suc)
  then show ?case using Cons.IH [of "st @ [o']"] by simp
qed simp

lemma nth_new_rows: "map (\<lambda>r. (st @ os) ! r) [length st..<length st + length os] = os"
  by (auto intro: nth_equalityI simp: nth_append)

section \<open>One message\<close>

definition receive :: "(float64 list \<Rightarrow> float64 list) \<Rightarrow> orderL2 option dataResponse \<Rightarrow> mbl \<Rightarrow> (mbl \<times> pubs) go" where
  "receive rng x c =
     (case alloc_rows (Data x) (objs c) of (refs, st) \<Rightarrow> mbl_message rng (c\<lparr>objs := st\<rparr>) (retype x refs))"


text \<open>The full channel after a list of messages.\<close>

fun relay :: "(float64 list \<Rightarrow> float64 list) \<Rightarrow> orderL2 option dataResponse list \<Rightarrow> mbl
    \<Rightarrow> (mbl \<times> orderL2 option dataResponse list) go" where
  "relay rng [] c = Ret (c, [])"
| "relay rng (x # xs) c =
     go_bind (receive rng x c) (\<lambda>(c1, ps).
     go_bind (relay rng xs c1) (\<lambda>(c2, ys).
       Ret (c2, map (\<lambda>p. resolve (objs c1) (snd p)) (filter (\<lambda>p. fst p = 0) ps) @ ys)))"

definition is_change :: "string \<Rightarrow> bool" where
  "is_change a \<longleftrightarrow> a = DeleteAction \<or> a = InsertAction \<or> a = UpdateAction"

text \<open>Changes that fit a book, one after the other, and where they lead.\<close>

definition change_effect :: "orderL2 option dataResponse \<Rightarrow> book \<Rightarrow> book" where
  "change_effect x b = fold (row_effect (Action x)) (map the (Data x)) b"

fun changes_ok :: "book \<Rightarrow> orderL2 option dataResponse list \<Rightarrow> bool" where
  "changes_ok b [] = True"
| "changes_ok b (x # xs) \<longleftrightarrow> is_change (Action x) \<and> None \<notin> set (Data x)
     \<and> rows_ok (Action x) b (map the (Data x)) \<and> changes_ok (change_effect x b) xs"

section \<open>New objects\<close>

lemma book_ok_alloc:
  assumes "book_ok c"
  shows "book_ok (c\<lparr>objs := objs c @ new\<rparr>)" "l2_book (c\<lparr>objs := objs c @ new\<rparr>) = l2_book c"
    "quote_ok (c\<lparr>objs := objs c @ new\<rparr>) = quote_ok c"
proof -
  let ?c = "c\<lparr>objs := objs c @ new\<rparr>"
  have g: "l2_get ?c = l2_get c" by (simp add: l2_get_def fun_eq_iff)
  have l: "side_list ?c s = side_list c s" "side_quote ?c s = side_quote c s" for s
    by (simp_all add: side_list_def side_quote_def)
  have lv: "levels_ok c" using assms by (simp add: book_ok_def)
  show b: "l2_book ?c = l2_book c"
  proof (rule ext)
    fix p show "l2_book ?c p = l2_book c p"
      using lv by (cases "l2_get c p") (auto simp: l2_book_def g levels_ok_def nth_append)
  qed
  have "levels_ok ?c" using lv by (fastforce simp: levels_ok_def g nth_append)
  then show "book_ok ?c" using assms by (simp add: book_ok_def b l)
  show "quote_ok ?c = quote_ok c" by (simp add: quote_ok_def quote_at_def b l)
qed

section \<open>A change goes through unchanged\<close>

lemma update_keeps_rows:
  assumes ok: "book_ok c" "fits c data" "Action data = UpdateAction"
    and run: "applyChange c data = Ret (c1, lim1, err)"
  shows "rows_of c1 data = rows_of c data"
proof -
  let ?R = "\<lambda>c'. \<forall>ref\<in>set (Data data). objs c' ! the ref = objs c ! the ref \<and> (\<forall>p. l2_get c' p \<noteq> ref)"
  let ?I = "\<lambda>c' rows. rows_inv UpdateAction (realtime c) (quote_ok c) (read_msg c data (l2_book c)) c' rows
    \<and> ?R c' \<and> set rows \<subseteq> set (Data data)"
  have "\<exists>c' limits'. apply_rows handleUpdate limit_plain c (limit_responses c data) (Data data) = Ret (c', Some limits', None)
    \<and> ?I c' [] \<and> map fst limits' = map fst (limit_responses c data) \<and> (\<forall>e\<in>set limits'. True)"
  proof (rule apply_rows_inv [where I = ?I])
    show "?I c (Data data)" using fits_inv [OF ok(2,1)] ok(2,3) by (simp add: fits_def)
    fix c1 ref rest assume inv: "?I c1 (ref # rest)"
    then have inv1: "rows_inv UpdateAction (realtime c) (quote_ok c) (read_msg c data (l2_book c)) c1 (ref # rest)"
      by simp
    from rows_inv_step [OF inv1] obtain c2 r where r: "ref = Some r"
      and h: "handleUpdate c1 (Some r) = Ret (c2, int (level c1 (objs c1 ! r)), None)"
      and c2: "rows_inv UpdateAction (realtime c) (quote_ok c) (read_msg c data (l2_book c)) c2 rest"
        "uncached_kept c1 c2" "l2_get c2 = l2_get c1"
      by (auto simp: handler_def)
    have "?R c2"
    proof
      fix ref' assume m: "ref' \<in> set (Data data)"
      then obtain k where k: "ref' = Some k" using ok(2) by (auto simp: fits_def)
      with m inv have "objs c1 ! k = objs c ! k" "\<forall>p. l2_get c1 p \<noteq> Some k" by auto
      then show "objs c2 ! the ref' = objs c ! the ref' \<and> (\<forall>p. l2_get c2 p \<noteq> ref')"
        using c2(2,3) by (simp add: uncached_kept_def k)
    qed
    then show "\<exists>c' d. handleUpdate c1 ref = Ret (c', d, None) \<and> ?I c' rest
      \<and> (\<forall>e. True \<longrightarrow> (\<exists>e'. (if d \<le> fst e then limit_plain c' ref e else Ret e) = Ret e' \<and> fst e' = fst e \<and> True))"
      using h c2(1) inv unfolding r
      by (intro exI [of _ c2] exI [of _ "int (level c1 (objs c1 ! r))"]) (auto simp: limit_plain_def split: prod.splits)
  qed simp
  then obtain c' limits where
    "apply_rows handleUpdate limit_plain c (limit_responses c data) (Data data) = Ret (c', Some limits, None)" "?I c' []"
    by blast
  then show ?thesis using run ok(3) by (simp add: applyChange_def rows_of_def)
qed

lemma change_keeps_rows:
  assumes "book_ok c" "fits c data" "applyChange c data = Ret (c1, lim1, err)"
  shows "rows_of c1 data = rows_of c data"
proof -
  have "Action data = DeleteAction \<or> Action data = InsertAction \<or> Action data = UpdateAction"
    using assms(2) by (simp add: fits_def)
  then show ?thesis
  proof (elim disjE)
    assume "Action data = DeleteAction"
    then have "objs c1 = objs c" using applyChange_delete [OF assms(1,2)] assms(3) by auto
    then show ?thesis by (rule rows_of_objs)
  next
    assume "Action data = InsertAction"
    then have "objs c1 = objs c" using applyChange_insert [OF assms(1,2)] assms(3) by auto
    then show ?thesis by (rule rows_of_objs)
  qed (rule update_keeps_rows [OF assms(1,2) _ assms(3)])
qed

lemma change_published:
  assumes ok: "book_ok c" "depths_ok c" "fits c data" and run: "mbl_message rng c data = Ret (c', ps)"
  shows "rows_of c' data = rows_of c data" "filter (\<lambda>p. fst p = 0) ps = [(0, data)]"
proof -
  let ?c0 = "c\<lparr>historyCount := wrap64 (historyCount c + int (length (Data data)))\<rparr>"
  have keep: "objs ?c0 = objs c" "l2Cache ?c0 = l2Cache c" "side_list ?c0 s = side_list c s" for s
    by (simp_all add: side_list_def)
  note cong = book_ok_cong [OF keep]
  have get: "l2_get ?c0 = l2_get c" by (simp add: l2_get_def fun_eq_iff)
  have b0: "book_ok ?c0" using ok(1) cong(1) by simp
  have f0: "fits ?c0 data" using ok(3) by (simp add: fits_def cong(2) get rows_of_def)
  from applyChange_fits [OF b0 f0] obtain c1 limits where
    c1: "applyChange ?c0 data = Ret (c1, Some limits, None)" "realtime c1 = realtime c" by auto
  obtain c2 qs where d: "dispatchRsp c1 data (Some limits) = (c2, qs)" by fastforce
  have "Action data \<noteq> PartialAction" using ok(3) by (auto simp: fits_def)
  then have eq: "c' = c2" "ps = qs" using run c1(1) d by (simp_all add: mbl_message_def applyData_def Let_def)
  have "c2 = fst (IsQuoteChange c1)" using d dispatchRsp_state [of c1 data "Some limits"] by simp
  then have "rows_of c' data = rows_of c1 data" by (simp add: eq rows_of_def IsQuoteChange_keeps)
  also have "\<dots> = rows_of ?c0 data" by (rule change_keeps_rows [OF b0 f0 c1(1)])
  finally show "rows_of c' data = rows_of c data" by (simp add: rows_of_def)
  show "filter (\<lambda>p. fst p = 0) ps = [(0, data)]"
    using dispatchRsp_full [of c1 data limits] ok(2) d by (simp add: c1(2) eq(2) depths_ok_def)
qed

lemma receive_change:
  assumes ok: "book_ok c" "quote_ok c" "depths_ok c"
    and x: "is_change (Action x)" "None \<notin> set (Data x)" "rows_ok (Action x) (l2_book c) (map the (Data x))"
  shows "\<exists>c' ps. receive rng x c = Ret (c', ps) \<and> book_ok c' \<and> quote_ok c' \<and> depths_ok c'
    \<and> l2_book c' = change_effect x (l2_book c)
    \<and> map (\<lambda>p. resolve (objs c') (snd p)) (filter (\<lambda>p. fst p = 0) ps) = [x]"
proof -
  define os where "os = map the (Data x)"
  define rs where "rs = [length (objs c)..<length (objs c) + length os]"
  define c0 where "c0 = c\<lparr>objs := objs c @ os\<rparr>"
  define data where "data = retype x (map Some rs)"
  have dx: "Data x = map Some os"
    unfolding os_def map_map comp_def using x(2) by (intro map_idI [symmetric]) (metis option.collapse)
  have run: "receive rng x c = mbl_message rng c0 data"
    by (simp add: receive_def dx alloc_rows_Some c0_def data_def rs_def)
  have b0: "book_ok c0" "quote_ok c0" "l2_book c0 = l2_book c" "depths_ok c0" "realtime c0 = realtime c"
    using ok book_ok_alloc [OF ok(1), of os] by (simp_all add: c0_def depths_ok_def)
  have rows: "rows_of c0 data = os" by (simp add: rows_of_def data_def c0_def rs_def nth_new_rows comp_def)
  have f: "fits c0 data"
  proof -
    have "l2_get c0 p \<noteq> Some r" if "r \<in> set rs" for r p
    proof -
      have "l2_get c0 p = l2_get c p" by (simp add: c0_def l2_get_def)
      moreover have "\<forall>r. l2_get c p = Some r \<longrightarrow> r < length (objs c)" using ok(1) by (simp add: book_ok_def levels_ok_def)
      ultimately show ?thesis using that by (auto simp: rs_def)
    qed
    then show ?thesis using x(1,3) rows b0(3)
      by (auto simp: fits_def is_change_def data_def os_def rs_def c0_def)
  qed
  from mbl_message_change [of c0 data rng] b0 f obtain c' ps where
    c': "mbl_message rng c0 data = Ret (c', ps)" "book_ok c'" "quote_ok c'"
      "l2_book c' = read_msg c0 data (l2_book c0)" "realtime c' = realtime c0"
    by (auto simp: depths_ok_def)
  have pub: "rows_of c' data = os" "filter (\<lambda>p. fst p = 0) ps = [(0, data)]"
    using change_published [OF b0(1,4) f c'(1)] rows by simp_all
  have "map (map_option ((!) (objs c'))) (Data data) = map Some os"
    using pub(1) by (auto simp: rows_of_def data_def)
  then have "resolve (objs c') data = retype data (Data x)" by (simp add: resolve_def dx)
  also have "\<dots> = x" by (simp add: data_def)
  finally have "map (\<lambda>p. resolve (objs c') (snd p)) (filter (\<lambda>p. fst p = 0) ps) = [x]" by (simp add: pub(2))
  moreover have "l2_book c' = change_effect x (l2_book c)"
    unfolding change_effect_def c'(4) read_msg_def rows b0(3) os_def by (simp add: data_def)
  ultimately show ?thesis using run c' b0 ok(3) by (intro exI [of _ c'] exI [of _ ps]) (simp add: depths_ok_def)
qed

section \<open>A replica\<close>

lemma relay_changes:
  assumes "book_ok c" "quote_ok c" "depths_ok c" "changes_ok (l2_book c) xs"
  shows "\<exists>c'. relay rng xs c = Ret (c', xs) \<and> book_ok c' \<and> quote_ok c'
    \<and> l2_book c' = fold change_effect xs (l2_book c)"
  using assms
proof (induction xs arbitrary: c)
  case (Cons x xs)
  from receive_change [OF Cons.prems(1,2,3), of x rng] Cons.prems(4) obtain c1 ps where
    c1: "receive rng x c = Ret (c1, ps)" "book_ok c1" "quote_ok c1" "depths_ok c1"
      "l2_book c1 = change_effect x (l2_book c)"
      "map (\<lambda>p. resolve (objs c1) (snd p)) (filter (\<lambda>p. fst p = 0) ps) = [x]" by auto
  have "changes_ok (l2_book c1) xs" using Cons.prems(4) by (simp add: c1(5))
  from Cons.IH [OF c1(2,3,4) this] obtain c' where "relay rng xs c1 = Ret (c', xs)" "book_ok c'" "quote_ok c'"
      "l2_book c' = fold change_effect xs (l2_book c1)" by blast
  then show ?case using c1(1,5,6) by (intro exI [of _ c']) simp
qed simp

text \<open>What the levels of a book determine.\<close>

lemma sorted_lists_eq:
  fixes xs ys :: "float64 list"
  assumes "sorted_wrt (better s) xs" "sorted_wrt (better s) ys" "set xs = set ys"
  shows "xs = ys"
proof (cases "s = ''Buy''")
  case True
  then have "sorted_wrt (<) xs" "sorted_wrt (<) ys" using assms by simp_all
  then show ?thesis using assms(3) by (simp add: strict_sorted_equal)
next
  case False
  then have b: "better s = (\<lambda>p q. q < p)" by (simp add: better_def fun_eq_iff)
  have "sorted_wrt (<) (rev xs)" "sorted_wrt (<) (rev ys)" using assms(1,2) by (simp_all add: sorted_wrt_rev b)
  then have "rev xs = rev ys" using assms(3) by (intro strict_sorted_equal) simp_all
  then show ?thesis by simp
qed

lemma same_book:
  assumes "book_ok c" "book_ok d" "l2_book d = l2_book c"
  shows "valid_side s \<Longrightarrow> side_list d s = side_list c s" "bidPrices d = bidPrices c" "askPrices d = askPrices c"
proof -
  show l: "side_list d s = side_list c s" if "valid_side s" for s
    using book_ok_sorted [OF assms(1) that] book_ok_sorted [OF assms(2) that] book_ok_set [OF assms(1) that]
      book_ok_set [OF assms(2) that] assms(3) by (intro sorted_lists_eq) simp_all
  show "bidPrices d = bidPrices c" "askPrices d = askPrices c"
    using l [of "''Buy''"] l [of "''Sell''"] by (simp_all add: side_list_def)
qed

lemma same_quotes:
  assumes ok: "book_ok c" "quote_ok c" and d: "book_ok d" "quote_ok d" "l2_book d = l2_book c"
    and s: "valid_side s" "side_list c s \<noteq> []"
  shows "bestPrice (side_quote d s) = bestPrice (side_quote c s)" "bestSize (side_quote d s) = bestSize (side_quote c s)"
proof -
  have l: "side_list d s = side_list c s" by (rule same_book(1) [OF ok(1) d(1,3) s(1)])
  have "quote_at c s" "quote_at d s" using ok(2) d(2) s(1) by (simp_all add: quote_ok_def)
  then show "bestPrice (side_quote d s) = bestPrice (side_quote c s)" "bestSize (side_quote d s) = bestSize (side_quote c s)"
    using s(2) d(3) by (auto simp: quote_at_def l)
qed

text \<open>A partial means the same in another store.\<close>

lemma partial_moved:
  assumes "map (\<lambda>r. objs d ! r) rs' = map (\<lambda>r. objs c ! r) rs" "\<forall>r\<in>set rs'. r < length (objs d)"
  shows "partial_ok c rs \<Longrightarrow> partial_ok d rs'" "partial_book d rs' = partial_book c rs"
proof -
  have p: "partial_prices c s rs = map ord_Price (filter (\<lambda>o'. ord_Side o' = s) (map (\<lambda>r. objs c ! r) rs))" for c s rs
    by (simp add: partial_prices_def filter_map comp_def)
  have pp: "partial_prices d s rs' = partial_prices c s rs" for s by (simp only: p assms(1))
  have "map ord_Price (map (\<lambda>r. objs d ! r) rs') = map ord_Price (map (\<lambda>r. objs c ! r) rs)"
    "valid_side ` ord_Side ` set (map (\<lambda>r. objs d ! r) rs') = valid_side ` ord_Side ` set (map (\<lambda>r. objs c ! r) rs)"
    by (simp_all only: assms(1))
  then show "partial_ok c rs \<Longrightarrow> partial_ok d rs'"
    using assms(2) by (auto simp: partial_ok_def pp comp_def image_iff)
  show "partial_book d rs' = partial_book c rs" by (simp only: partial_book_def assms(1))
qed

lemma snapshot_book:
  assumes "book_ok c" "bidPrices c \<noteq> []" "askPrices c \<noteq> []"
  shows "partial_book c (snapshot_rows c) = l2_book c"
  using snapshot_restores [OF assms refl] partial_first_run [OF snapshot_rows_ok(2) [OF assms]]
    snapshot_rows_ok(1) [OF assms] by auto

lemma receive_first:
  assumes c: "book_ok c" "bidPrices c \<noteq> []" "askPrices c \<noteq> []" and d: "empty_book d" "depths_ok d"
  shows "\<exists>d' ps. receive rng (resolve (objs c) (snapshot c 0)) d = Ret (d', ps) \<and> book_ok d' \<and> quote_ok d'
    \<and> depths_ok d' \<and> l2_book d' = l2_book c"
proof -
  let ?x = "resolve (objs c) (snapshot c 0)"
  define os where "os = map (\<lambda>r. objs c ! r) (snapshot_rows c)"
  define rs where "rs = [length (objs d)..<length (objs d) + length os]"
  define d0 where "d0 = d\<lparr>objs := objs d @ os,
    historyCount := wrap64 (historyCount d + int (length rs))\<rparr>"
  have dx: "Data ?x = map Some os" "Action ?x = PartialAction"
    by (simp_all add: resolve_def snapshot_rows_ok(1) [OF c] os_def snapshot_head)
  have same: "map (\<lambda>r. objs d0 ! r) rs = map (\<lambda>r. objs c ! r) (snapshot_rows c)"
    by (simp add: d0_def rs_def nth_new_rows) (simp add: os_def)
  have p: "partial_ok d0 rs" "partial_book d0 rs = l2_book c"
    using partial_moved [OF same] snapshot_rows_ok(2) [OF c] snapshot_book [OF c] by (auto simp: d0_def rs_def)
  have "handlePartial rng d0 (map Some rs) = partial_first d0 (map Some rs)"
    using d(1) by (auto simp: handlePartial_def empty_book_def d0_def split: option.splits)
  with partial_first_run [OF p(1)] obtain d1 ps where
    d1: "handlePartial rng d0 (map Some rs) = Ret (d1, ps)" "book_ok d1" "quote_ok d1" "l2_book d1 = l2_book c"
      "realtime d1 = realtime d0"
    by (auto simp: p(2))
  have "receive rng ?x d = mbl_message rng (d\<lparr>objs := objs d @ os\<rparr>) (retype ?x (map Some rs))"
    by (simp add: receive_def dx(1) alloc_rows_Some rs_def)
  also have "\<dots> = Ret (fst (IsQuoteChange d1), ps)"
    using d1(1) dx(2) by (simp add: mbl_message_def applyData_def dispatchRsp_def Let_def d0_def)
  finally have "receive rng ?x d = Ret (fst (IsQuoteChange d1), ps)" .
  then show ?thesis
    using d1 d(2) IsQuoteChange_book IsQuoteChange_quote
    by (intro exI [of _ "fst (IsQuoteChange d1)"] exI [of _ ps]) (simp add: IsQuoteChange_keeps d0_def depths_ok_def)
qed

lemma replica_follows:
  assumes c: "book_ok c" "quote_ok c" "depths_ok c" and two: "bidPrices c \<noteq> []" "askPrices c \<noteq> []"
    and d: "empty_book d" "depths_ok d" and xs: "changes_ok (l2_book c) xs"
  shows "\<exists>c' d' ys. relay rng xs c = Ret (c', xs)
    \<and> relay rng (resolve (objs c) (snapshot c 0) # xs) d = Ret (d', ys)
    \<and> book_ok c' \<and> book_ok d' \<and> quote_ok c' \<and> quote_ok d' \<and> l2_book d' = l2_book c'"
proof -
  from relay_changes [OF c xs] obtain c' where c': "relay rng xs c = Ret (c', xs)" "book_ok c'" "quote_ok c'"
    "l2_book c' = fold change_effect xs (l2_book c)" by blast
  from receive_first [OF c(1) two d] obtain d1 ps where
    d1: "receive rng (resolve (objs c) (snapshot c 0)) d = Ret (d1, ps)" "book_ok d1" "quote_ok d1" "depths_ok d1"
      "l2_book d1 = l2_book c" by blast
  from relay_changes [OF d1(2,3,4), of xs rng] xs obtain d' where "relay rng xs d1 = Ret (d', xs)" "book_ok d'" "quote_ok d'"
    "l2_book d' = fold change_effect xs (l2_book d1)" by (auto simp: d1(5))
  then show ?thesis using c' d1(1,5) by (intro exI [of _ c'] exI [of _ d']) simp
qed

end
