(* ===== verification/Demo.thy ===== *)
theory Demo
  imports Delivery HeartbeatPair Replica
begin

text \<open>
  A small concrete book on which the hypotheses of the properties are shown to hold: three
  bids, two asks, a full channel and one of depth 1. The objects 5 to 9 are rows of messages
  that have not been applied yet.
\<close>

definition mk_order :: "int \<Rightarrow> string \<Rightarrow> float32 \<Rightarrow> float64 \<Rightarrow> orderL2" where
  "mk_order i s sz p = \<lparr>ord_Symbol = ''XBTUSD'', ord_ID = i, ord_Side = s, ord_Size = sz, ord_Price = p\<rparr>"

definition mk_quote :: "float64 \<Rightarrow> float32 \<Rightarrow> quote" where
  "mk_quote p sz = \<lparr>bestPrice = p, lastPrice = p, bestSize = sz, lastSize = sz\<rparr>"

definition demo :: mbl where
  "demo = \<lparr>objs =
       [mk_order 1 ''Buy'' 5 100, mk_order 2 ''Buy'' 6 98, mk_order 3 ''Buy'' 7 96,
        mk_order 4 ''Sell'' 8 104, mk_order 5 ''Sell'' 9 106,
        mk_order 6 ''Buy'' 4 102, mk_order 2 ''Buy'' 60 98, mk_order 1 ''Buy'' 5 100, mk_order 2 ''Buy'' 6 98,
        mk_order 7 ''Sell'' 2 105],
     realtime = [(0, 0), (1, 1)], historyCount = 5,
     askPrices = [106, 104], bidPrices = [96, 98, 100],
     askQuote = mk_quote 104 8, bidQuote = mk_quote 100 5,
     l2Cache = Some [(104, 3), (106, 4), (100, 0), (98, 1), (96, 2)]\<rparr>"

definition demo_msg :: "string \<Rightarrow> nat list \<Rightarrow> mbl_msg" where
  "demo_msg action rs = emptyResponse\<lparr>Table := ''orderBookL2'', Action := action, Data := map Some rs\<rparr>"

lemma demo_msg_simps [simp]:
  "Action (demo_msg a rs) = a" "Data (demo_msg a rs) = map Some rs" "Table (demo_msg a rs) = ''orderBookL2''"
  by (simp_all add: demo_msg_def)

lemma demo_simps:
  "realtime demo = [(0, 0), (1, 1)]" "askPrices demo = [106, 104]" "bidPrices demo = [96, 98, 100]"
  "bidQuote demo = mk_quote 100 5" "askQuote demo = mk_quote 104 8"
  "l2Cache demo = Some [(104, 3), (106, 4), (100, 0), (98, 1), (96, 2)]"
  by (simp_all add: demo_def)

lemma demo_objs:
  "length (objs demo) = 10"
  "objs demo ! 0 = mk_order 1 ''Buy'' 5 100" "objs demo ! 1 = mk_order 2 ''Buy'' 6 98"
  "objs demo ! 2 = mk_order 3 ''Buy'' 7 96" "objs demo ! 3 = mk_order 4 ''Sell'' 8 104"
  "objs demo ! 4 = mk_order 5 ''Sell'' 9 106" "objs demo ! 5 = mk_order 6 ''Buy'' 4 102"
  "objs demo ! 6 = mk_order 2 ''Buy'' 60 98" "objs demo ! 7 = mk_order 1 ''Buy'' 5 100"
  "objs demo ! 8 = mk_order 2 ''Buy'' 6 98" "objs demo ! 9 = mk_order 7 ''Sell'' 2 105"
  by (simp_all add: demo_def)

lemma demo_get:
  "l2_get demo p = (if p = 104 then Some 3 else if p = 106 then Some 4 else if p = 100 then Some 0
     else if p = 98 then Some 1 else if p = 96 then Some 2 else None)"
  by (auto simp: l2_get_def demo_simps)

lemma demo_book:
  "l2_book demo p = (if p = 104 then Some (mk_order 4 ''Sell'' 8 104) else if p = 106 then Some (mk_order 5 ''Sell'' 9 106)
     else if p = 100 then Some (mk_order 1 ''Buy'' 5 100) else if p = 98 then Some (mk_order 2 ''Buy'' 6 98)
     else if p = 96 then Some (mk_order 3 ''Buy'' 7 96) else None)"
  using demo_objs by (simp add: l2_book_def demo_get)

lemma mk_order_simps [simp]:
  "ord_Price (mk_order i s z p) = p" "ord_Side (mk_order i s z p) = s" "ord_Size (mk_order i s z p) = z"
  by (simp_all add: mk_order_def)

lemma demo_book_ok: "book_ok demo"
proof (rule book_okI)
  show "l2Cache demo = Some [(104, 3), (106, 4), (100, 0), (98, 1), (96, 2)]" by (simp add: demo_simps)
  show "levels_ok demo" using demo_objs by (auto simp: levels_ok_def demo_get split: if_splits)
  show "set (bidPrices demo) = book_prices (l2_book demo) ''Buy''"
    by (auto simp: book_prices_def demo_book demo_simps split: if_splits)
  show "set (askPrices demo) = book_prices (l2_book demo) ''Sell''"
    by (auto simp: book_prices_def demo_book demo_simps split: if_splits)
qed (simp_all add: demo_simps)

lemma demo_quote_ok: "quote_ok demo"
  by (simp add: quote_ok_def all_sides quote_at_def demo_simps demo_book mk_quote_def)

lemma demo_depths_ok: "depths_ok demo"
  by (simp add: depths_ok_def gokeys_def demo_simps)

lemma demo_fits_insert: "fits demo (demo_msg InsertAction [5, 9])"
  using demo_objs by (simp add: fits_def rows_of_def row_ok_def demo_book row_effect_def)

lemma demo_fits_update: "fits demo (demo_msg UpdateAction [6])"
  using demo_objs by (simp add: fits_def rows_of_def row_ok_def demo_book row_effect_def demo_get)

lemma demo_buys: "book_prices (l2_book demo) ''Buy'' = {96, 98, 100}"
  using book_okD(5) [OF demo_book_ok] by (simp add: demo_simps)

lemma demo_fits_delete: "fits demo (demo_msg DeleteAction [7])" "fits demo (demo_msg DeleteAction [7, 8])"
proof -
  have mem: "106 \<in> book_prices (l2_book demo) ''Sell''" "96 \<in> book_prices (l2_book demo) ''Buy''"
    by (simp_all add: book_prices_def demo_book)
  have left: "\<exists>q\<in>book_prices (l2_book demo) s. q \<notin> {100, 98}" if "valid_side s" for s
  proof (cases "s = ''Buy''")
    case True
    then show ?thesis using mem(2) by (intro bexI [of _ 96]) simp_all
  next
    case False
    then have "s = ''Sell''" using that by (simp add: valid_side_def)
    then show ?thesis using mem(1) by (intro bexI [of _ 106]) simp_all
  qed
  have left': "\<exists>q\<in>book_prices (l2_book demo) s. q \<notin> {100}" if "valid_side s" for s
    using left [OF that] by blast
  have rows: "rows_of demo (demo_msg DeleteAction [7]) = [mk_order 1 ''Buy'' 5 100]"
    "rows_of demo (demo_msg DeleteAction [7, 8]) = [mk_order 1 ''Buy'' 5 100, mk_order 2 ''Buy'' 6 98]"
    using demo_objs by (simp_all add: rows_of_def)
  have "rows_ok DeleteAction (l2_book demo) [mk_order 1 ''Buy'' 5 100]"
    by (rule rows_ok_delete) (use left' in \<open>simp_all add: demo_book\<close>)
  moreover have "rows_ok DeleteAction (l2_book demo) [mk_order 1 ''Buy'' 5 100, mk_order 2 ''Buy'' 6 98]"
  proof (rule rows_ok_delete)
    fix o' assume "o' \<in> set [mk_order 1 ''Buy'' 5 100, mk_order 2 ''Buy'' 6 98]"
    then consider "o' = mk_order 1 ''Buy'' 5 100" | "o' = mk_order 2 ''Buy'' 6 98" by auto
    then show "valid_side (ord_Side o') \<and> (\<exists>x. l2_book demo (ord_Price o') = Some x \<and> ord_Side x = ord_Side o')"
      by cases (simp_all add: demo_book)
  qed (use left in simp_all)
  ultimately show "fits demo (demo_msg DeleteAction [7])" "fits demo (demo_msg DeleteAction [7, 8])"
    unfolding fits_def demo_msg_simps rows by (simp_all add: demo_objs(1))
qed

text \<open>A partial for the concrete book: 105 and 102 are new, 98 changes its size, three levels go.\<close>

lemma demo_partial_prices:
  "partial_prices demo ''Buy'' [9, 3, 5, 6] = [102, 98]" "partial_prices demo ''Sell'' [9, 3, 5, 6] = [105, 104]"
  by (simp_all add: partial_prices_def demo_objs)

lemma demo_partial:
  "partial_ok demo [9, 3, 5, 6]" "no_flip demo [9, 3, 5, 6]" "overlaps demo [9, 3, 5, 6]"
proof -
  show "partial_ok demo [9, 3, 5, 6]"
    unfolding partial_ok_def demo_partial_prices by (simp add: demo_objs valid_side_def)
  show "no_flip demo [9, 3, 5, 6]" by (simp add: no_flip_def demo_objs demo_book)
  show "overlaps demo [9, 3, 5, 6]"
    by (auto simp: overlaps_def valid_side_def demo_partial_prices side_list_def demo_simps)
qed

text \<open>A book with one bid.\<close>

definition one_bid :: mbl where
  "one_bid = newMBL\<lparr>objs := [mk_order 1 ''Buy'' 5 100], bidPrices := [100], l2Cache := Some [(100, 0)]\<rparr>"

lemma one_bid_simps:
  "objs one_bid = [mk_order 1 ''Buy'' 5 100]" "bidPrices one_bid = [100]" "askPrices one_bid = []"
  "l2Cache one_bid = Some [(100, 0)]"
  by (simp_all add: one_bid_def newMBL_def)

lemma one_bid_ok: "book_ok one_bid"
proof (rule book_okI)
  show "l2Cache one_bid = Some [(100, 0)]" by (simp add: one_bid_def)
  have g: "l2_get one_bid p = (if p = 100 then Some 0 else None)" for p
    by (simp add: one_bid_def l2_get_def)
  then show "levels_ok one_bid" by (simp add: levels_ok_def one_bid_def valid_side_def)
  have b: "l2_book one_bid p = (if p = 100 then Some (mk_order 1 ''Buy'' 5 100) else None)" for p
    by (simp add: l2_book_def g) (simp add: one_bid_def)
  have p: "bidPrices one_bid = [100]" "askPrices one_bid = []" by (simp_all add: one_bid_def newMBL_def)
  show "set (bidPrices one_bid) = book_prices (l2_book one_bid) ''Buy''"
    "set (askPrices one_bid) = book_prices (l2_book one_bid) ''Sell''"
    by (auto simp: book_prices_def b p split: if_splits)
qed (simp_all add: one_bid_def newMBL_def)

text \<open>Three messages for the concrete book, as their rows, and a new cache to receive them.\<close>

definition wire_msg :: "string \<Rightarrow> orderL2 list \<Rightarrow> orderL2 option dataResponse" where
  "wire_msg action os = emptyResponse\<lparr>Table := ''orderBookL2'', Action := action, Data := map Some os\<rparr>"

definition demo_changes :: "orderL2 option dataResponse list" where
  "demo_changes = [wire_msg InsertAction [mk_order 6 ''Buy'' 4 102, mk_order 7 ''Sell'' 2 105],
     wire_msg UpdateAction [mk_order 2 ''Buy'' 60 98], wire_msg InsertAction [mk_order 8 ''Buy'' 1 97]]"

definition demo_replica :: mbl where "demo_replica = newMBL\<lparr>realtime := [(0, 0)]\<rparr>"

lemma demo_replica_ok: "empty_book demo_replica" "depths_ok demo_replica"
  by (simp_all add: demo_replica_def newMBL_def empty_book_def depths_ok_def gokeys_def)

lemma demo_changes_ok: "changes_ok (l2_book demo) demo_changes"
  by (simp add: demo_changes_def wire_msg_def is_change_def change_effect_def row_ok_def row_effect_def demo_book valid_side_def)

section \<open>A concrete store\<close>

text \<open>Channel 0 is open, with the queue \<open>q\<close> and the destinations \<open>ds\<close>; all others are new.\<close>

definition demo_world :: "'m channel_input list \<Rightarrow> (string, nat option) gomap \<Rightarrow> 'm world" where
  "demo_world q ds = \<lparr>chans = (\<lambda>n. if n = 0 then newRspChannel\<lparr>source := Some q, IsReady := True, destinations := ds\<rparr>
     else newRspChannel), streams = (\<lambda>_. \<lparr>sent = [], closed = False\<rparr>)\<rparr>"

definition demo_dests :: "(string, nat option) gomap" where
  "demo_dests = [(''a'', Some 1), (''b'', Some 2)]"

lemma demo_world_simps [simp]:
  "source (chans (demo_world q ds) 0) = Some q" "destinations (chans (demo_world q ds) 0) = ds"
  "childChannels (chans (demo_world q ds) 0) = []" "IsReady (chans (demo_world q ds) 0)"
  "\<not> IsClosed (chans (demo_world q ds) 0)" "\<not> sourceClosed (chans (demo_world q ds) 0)"
  "sent (streams (demo_world q ds) r) = []" "\<not> closed (streams (demo_world q ds) r)"
  "chan_open (chans (demo_world q ds) 0)"
  by (simp_all add: demo_world_def newRspChannel_def chan_open_def)

lemma demo_world_ok: "dests_ok (ds @ pending q) \<Longrightarrow> world_ok (demo_world q ds)"
proof -
  assume d: "dests_ok (ds @ pending q)"
  have other: "chans (demo_world q ds) n = newRspChannel" if "n \<noteq> 0" for n using that by (simp add: demo_world_def)
  have new: "all_dests (newRspChannel :: 'a rspChannel) = []" "\<not> IsClosed newRspChannel"
    by (simp_all add: all_dests_def newRspChannel_def)
  have refs: "chan_refs (chans (demo_world q ds) n) = {}" if "n \<noteq> 0" for n
    using other [OF that] new by (simp add: chan_refs_def refs_of_def)
  have "chan_ok (demo_world q ds) n" for n
  proof (cases "n = 0")
    case True
    then show ?thesis using d by (simp add: chan_ok_def chan_phase_defs all_dests_def)
  next
    case False
    then show ?thesis by (simp add: chan_ok_def other new refs dests_ok_def)
  qed
  moreover have "chan_refs (chans (demo_world q ds) n) \<inter> chan_refs (chans (demo_world q ds) m) = {}" if "n \<noteq> m" for n m
    using refs [of n] refs [of m] that by (cases "n = 0") auto
  ultimately show ?thesis by (simp add: world_ok_def)
qed

text \<open>A store in which one channel was started and got a message.\<close>

definition started_world :: "int world" where
  "started_world = put_chan 0 (newRspChannel\<lparr>source := Some [DataIn [] [] 7], IsReady := True\<rparr>)
     \<lparr>chans = (\<lambda>_. newRspChannel), streams = (\<lambda>_. \<lparr>sent = [], closed = False\<rparr>)\<rparr>"

lemma started_world_open: "chan_open (chans started_world 0)"
  by (simp add: started_world_def chan_open_def put_chan_def newRspChannel_def)

lemma started_world_reachable: "reachable_world started_world"
proof -
  let ?w = "\<lparr>chans = (\<lambda>_. newRspChannel), streams = (\<lambda>_. \<lparr>sent = [], closed = False\<rparr>)\<rparr> :: int world"
  have "reachable_world ?w" by (rule reachable_world.init) simp
  then have r: "reachable_world (put_chan 0 (fst (Start (chans ?w 0))) ?w)"
    by (rule reachable_world.step) (rule chan_step.start)
  have "PublishData 7 (chans (put_chan 0 (fst (Start (chans ?w 0))) ?w) 0) =
      Ret (newRspChannel\<lparr>source := Some [DataIn [] [] 7], IsReady := True\<rparr>, None)"
    by (simp add: put_chan_def PublishData_def send_source_def Start_def newRspChannel_def)
  from reachable_world.step [OF r chan_step.publish [OF this]]
  show ?thesis by (simp add: started_world_def put_chan_def)
qed

section \<open>Concrete caches\<close>

definition demo_cache :: "(mbl, 'i, 'm) tableCache" where
  "demo_cache = \<lparr>table = demo, channelGroup = [Some [(0, 0)], None, None], pipeline = [], pipelineClosed = False,
     readyClosed = True, cacheReady = True, cacheClosed = False, answers = []\<rparr>"

definition trade_demo :: "(tradeCache, 'i, 'm) tableCache" where
  "trade_demo = \<lparr>table = \<lparr>historyTrade = []\<rparr>, channelGroup = [Some [(0, 0)], None, None], pipeline = [],
     pipelineClosed = False, readyClosed = True, cacheReady = True, cacheClosed = False, answers = []\<rparr>"

lemma demo_cache_simps [simp]:
  "table demo_cache = demo" "pipeline demo_cache = []" "realtime_group demo_cache = [(0, 0)]"
  "realtime_group (demo_cache\<lparr>pipeline := q\<rparr>) = [(0, 0)]"
  by (simp_all add: demo_cache_def realtime_group_def)

definition demo_in :: "nat table_msg option" where
  "demo_in = Some (MBLResponse (demo_msg DeleteAction [7]))"

lemma demo_in_accepted: "accepts_all (mbl_handle (\<lambda>ks. ks)) mbl_accepts [(0, 0)] demo [demo_in]"
proof -
  have a: "mbl_accepts [(0, 0)] demo demo_in"
    using demo_fits_delete(1) by (simp add: mbl_accepts_def demo_in_def action_defs demo_simps)
  moreover have "mbl_ok demo" by (simp add: mbl_ok_def demo_book_ok demo_quote_ok)
  ultimately show ?thesis using mbl_contract [of "\<lambda>ks. ks" demo "[(0, 0)]" demo_in] by auto
qed

definition demo_trade :: trade where
  "demo_trade = \<lparr>td_Timestamp = None, td_Symbol = ''XBTUSD'', td_Side = ''Buy'', td_Size = 1, td_Price = 100,
     td_TickDirection = ''PlusTick'', td_TrdMatchID = [], td_GrossValue = 1, td_HomeNotional = 1, td_ForeignNotional = 1\<rparr>"

definition zero_ins :: instrument where
  "zero_ins = \<lparr>ins_Symbol = ''XBTUSD'', IndicativeSettlePrice = 0, MarkPrice = 0, FairBasis = 0, FairPrice = 0,
     PrevMarkPrice24H = 0, BidPrice = 0, AskPrice = 0, LastPrice = 0, PrevPrice24h = 0, LastChangePcnt = 0,
     LastTickDirection = [], Volume = 0, Volume24h = 0, TotalVolume = 0, PrevTotalVolume = 0, Turnover = 0,
     Turnover24h = 0, TotalTurnover = 0, PrevTotalTurnover = 0, FundingRate = 0, FundingTimestamp = None\<rparr>"

definition demo_ins :: instrument where "demo_ins = zero_ins\<lparr>MarkPrice := 6\<rparr>"

definition ins_demo :: instrumentCache where
  "ins_demo = newInstrumentCache\<lparr>insCache := Some [(''XBTUSD'', demo_ins)]\<rparr>"

lemma ins_demo_ok: "ins_ok ins_demo"
  by (auto simp: ins_ok_def ins_demo_def ins_get_def demo_ins_def zero_ins_def newInstrumentCache_def
      maxInsLength_def maxMultiple_def split: if_splits)

lemma ins_demo_get: "ins_get ins_demo t = (if t = ''XBTUSD'' then Some demo_ins else None)"
  by (simp add: ins_demo_def ins_get_def)

lemma ins_demo_merge:
  "ins_merge (demo_ins\<lparr>LastPrice := 7\<rparr>) demo_ins = (demo_ins\<lparr>LastPrice := 7\<rparr>, True)"
  "ins_merge zero_ins (demo_ins\<lparr>LastPrice := 7\<rparr>) = (demo_ins\<lparr>LastPrice := 7\<rparr>, False)"
  by (simp_all add: ins_merge_def merge_mark_def merge_quote_def merge_last_def merge_funding_def demo_ins_def zero_ins_def)

lemma demo_ins_Symbol [simp]: "ins_Symbol demo_ins = ''XBTUSD''" "ins_Symbol zero_ins = ''XBTUSD''"
  by (simp_all add: demo_ins_def zero_ins_def)

text \<open>A connection on which one ping is on its way.\<close>

definition hb_demo :: hb_pair where
  "hb_demo = hb_start\<lparr>cl_count := 1, to_server := [PingFrame]\<rparr>"

lemma hb_demo_reach: "hb_reach False 3 False 5 hb_demo" "(hb_pair_step False 3 True 5 ^^ 1) hb_start hb_demo"
  "hb_closed hb_demo = None"
proof -
  have d: "hb_demo = client_turn False 3 (NewPing 0, True) hb_start"
    by (simp add: hb_demo_def hb_start_def hb_turns)
  show "hb_closed hb_demo = None" by (simp add: hb_demo_def hb_start_def)
  have "hb_closed hb_start = None" by (simp add: hb_start_def)
  then have s: "hb_pair_step False 3 r 5 hb_start hb_demo" for r
    unfolding d by (rule hb_pair_step.client_tick) simp
  show "hb_reach False 3 False 5 hb_demo" by (rule hb_reach.hb_next [OF hb_reach.hb_init s])
  show "(hb_pair_step False 3 True 5 ^^ 1) hb_start hb_demo" using s [of True] by (simp add: eq_OO)
qed

end
