(* ===== verification/Session.thy ===== *)
theory Session
  imports Channels Heartbeats
begin

text \<open>
  \<open>server/config.go\<close>, \<open>server/errors.go\<close>, \<open>server/notify.go\<close> and \<open>server/session.go\<close>: the
  configuration of the server, the notifications, and the session of one websocket client
  with its goroutine for writing and its heartbeats (the counting is in
  \<^theory_text>\<open>Heartbeats\<close>).

  Outcomes of writing to the websocket are an argument \<open>wr\<close>, a function of what was sent
  before and of the message; a closed connection refuses every write. \<open>sendChan\<close> is not
  buffered: a write hands its message to the goroutine, which handles it at once, and
  waits for ever when the goroutine is gone. The same holds for \<open>hbChan\<close>. Frames that arrive
  are an argument of the reader. The version 3 UUIDs are an argument.
\<close>

section \<open>Configuration\<close>

text \<open>\<open>net.IP\<close>: the four numbers of a version 4 address, or nil. \<open>net.ParseIP\<close> on a text without a
  colon reads a version 4 address (leading zeros are allowed, as in the Go of \<open>go.mod\<close>).\<close>

type_synonym ip = "nat list option"

definition parse_octet :: "string \<Rightarrow> nat option" where
  "parse_octet s = (if all_digits s \<and> digits_val s \<le> 255 then Some (digits_val s) else None)"

fun all_some :: "'a option list \<Rightarrow> 'a list option" where
  "all_some [] = Some []"
| "all_some (None # xs) = None"
| "all_some (Some x # xs) = map_option ((#) x) (all_some xs)"

definition ParseIP :: "string \<Rightarrow> ip" where
  "ParseIP s = (let parts = go_split (CHR ''.'') s in
     if length parts = 4 then all_some (map parse_octet parts) else None)"

definition IP_String :: "ip \<Rightarrow> string" where
  "IP_String i = (case i of None \<Rightarrow> ''<nil>'' | Some os \<Rightarrow> go_join ''.'' (map show_nat_digits os))"

record server_Config =
  Listen :: ip
  Port :: int
  BaseURI :: string
  SignatureURI :: string
  WelcomMsg :: string
  DocsURI :: string
  cfg_FrontID :: string
  ConnectLimit :: int
  HeartbeatInterval :: int
  ReversHeartbeat :: bool
  HeartbeatFailCount :: int

definition server_NewConfig :: server_Config where
  "server_NewConfig = \<lparr>Listen = ParseIP ''0.0.0.0'', Port = 9988, BaseURI = ''/realtime'',
     SignatureURI = ''/api/v1/signature'', WelcomMsg = ''Welcome to the BTCMEX Realtime API.'',
     DocsURI = ''https://docs.btcmex.com'', cfg_FrontID = ''0'', ConnectLimit = 40,
     HeartbeatInterval = 15, ReversHeartbeat = False, HeartbeatFailCount = 3\<rparr>"

text \<open>The address is stored before the port is read.\<close>

definition ChangeListen :: "string \<Rightarrow> server_Config \<Rightarrow> server_Config \<times> error option" where
  "ChangeListen addr c =
     (let errInvalidAddr = ''invalid addr: '' @ addr; addrTuple = go_split (CHR '':'') addr in
      if length addrTuple \<noteq> 2 then (c, Some errInvalidAddr)
      else
        (case ParseIP (addrTuple ! 0) of
           None \<Rightarrow> (c, Some errInvalidAddr)
         | Some ip \<Rightarrow>
             (let c1 = c\<lparr>Listen := Some ip\<rparr> in
              case ParseInt (addrTuple ! 1) of
                (port, Some err) \<Rightarrow> (c1, Some err)
              | (port, None) \<Rightarrow> (c1\<lparr>Port := port\<rparr>, None))))"

definition GetListenAddr :: "server_Config \<Rightarrow> string" where
  "GetListenAddr c = IP_String (Listen c) @ '':'' @ show_int (Port c)"

text \<open>\<open>hash\<close> is the MD5 sum as a UUID.\<close>

definition GetNS :: "(string \<Rightarrow> 'ns) \<Rightarrow> server_Config \<Rightarrow> 'ns" where
  "GetNS hash c = hash (cfg_FrontID c @ '':'' @ GetListenAddr c)"

section \<open>Notifications\<close>

text \<open>The types of notifications differ in the type of their content; \<open>ParseNotify\<close> never makes the last.\<close>

datatype notify_kind = MarginKind | PositionKind | ExecutionKind | OrderKind | TradeKind | MBLKind

record ('c) notify =
  nt_kind :: notify_kind
  nt_ClientID :: string
  nt_AccountID :: string
  nt_Content :: "'c option"

definition IsPrivate :: "'c notify \<Rightarrow> bool" where
  "IsPrivate n \<longleftrightarrow> nt_ClientID n \<noteq> [] \<and> nt_AccountID n \<noteq> []"

definition GetClientID :: "'c notify \<Rightarrow> string" where "GetClientID n = nt_ClientID n"
definition GetAccountID :: "'c notify \<Rightarrow> string" where "GetAccountID n = nt_AccountID n"
definition GetContent :: "'c notify \<Rightarrow> 'c option" where "GetContent n = nt_Content n"

text \<open>The patterns in the order of the switch; \<open>unmarshal\<close> is the JSON decoder of each kind.\<close>

definition notify_patterns :: "(string \<times> notify_kind) list" where
  "notify_patterns = [(''margin'', MarginKind), (''position'', PositionKind), (''execution'', ExecutionKind),
     (''order'', OrderKind), (''trade'', TradeKind)]"

definition ParseNotify :: "(notify_kind \<Rightarrow> string \<Rightarrow> error + 'c notify) \<Rightarrow> string \<Rightarrow> 'c notify option \<times> error option" where
  "ParseNotify unmarshal msg =
     (case find (\<lambda>p. keyed msg ''type'' (quoted (fst p))) notify_patterns of
        None \<Rightarrow> (None, Some (''Unkonw notify message: '' @ msg))
      | Some (_, kind) \<Rightarrow>
          (case unmarshal kind msg of Inl err \<Rightarrow> (None, Some err) | Inr n \<Rightarrow> (Some n, None)))"

section \<open>Sessions\<close>

datatype 'o sv_msg =
    SvInfo InfoResponse
  | SvSub SubscribeResponse
  | SvErr ErrResponse
  | SvTable "'o table_msg"

datatype 'o wire = WireJSON "'o sv_msg" | WireText string

text \<open>The outcome of a write: an error, or none.\<close>

type_synonym 'o writer = "'o wire list \<Rightarrow> 'o wire \<Rightarrow> error option"

record 'o conn =
  cn_remote :: string
  cn_out :: "'o wire list"
  cn_closed :: bool

record 'o message =
  msg_json :: "'o sv_msg option"
  msg_txt :: string
  msg_sync :: bool

record 'o session =
  se_cfg :: server_Config
  se_ID :: string
  se_clientID :: string
  se_accountID :: string
  se_addr :: string
  se_conn :: "'o conn option"
  se_isClosed :: bool
  se_closeOnce :: bool
  se_done :: bool
  se_cleanup :: "(nat \<times> string) option"
  se_sending :: bool
  se_sendErr :: "error option"
  se_beating :: bool
  se_hbCounter :: int

type_synonym 'o session_state = "'o session \<times> 'o table_msg world"

definition errNetClosed :: error where "errNetClosed = ''use of closed network connection''"

definition conn_write :: "'o writer \<Rightarrow> 'o wire \<Rightarrow> 'o conn \<Rightarrow> 'o conn \<times> error option" where
  "conn_write wr x conn =
     (if cn_closed conn then (conn, Some errNetClosed)
      else (case wr (cn_out conn) x of
              None \<Rightarrow> (conn\<lparr>cn_out := cn_out conn @ [x]\<rparr>, None)
            | Some e \<Rightarrow> (conn, Some e)))"

text \<open>\<open>Close\<close>: the cleanup function is always a \<open>ShutdownRetrive\<close>, of the session and the
  channel it captured.\<close>

definition session_Close :: "'o session_state \<Rightarrow> ('o session_state \<times> error option) go" where
  "session_Close s =
     (case s of (c, w) \<Rightarrow>
        case se_conn c of
          None \<Rightarrow> Ret (s, Some (''missing connection in current session: '' @ se_ID c))
        | Some conn \<Rightarrow>
            if se_closeOnce c then Ret (s, None)
            else
              (let c1 = c\<lparr>se_closeOnce := True, se_isClosed := True, se_done := True\<rparr>
               in go_bind (case se_cleanup c1 of
                      None \<Rightarrow> Ret w
                    | Some (n, session) \<Rightarrow> go_bind (ShutdownRetrive session (chans w n)) (\<lambda>(ch, _). Ret (put_chan n ch w)))
                    (\<lambda>w'. Ret ((c1\<lparr>se_conn := Some (conn\<lparr>cn_closed := True\<rparr>)\<rparr>, w'), None))))"

text \<open>One message in \<open>sendMessageLoop\<close>. \<open>err\<close> is declared outside of the loop, so a message that
  is neither JSON nor text meets the error of the message before it.\<close>

definition write_out :: "'o writer \<Rightarrow> 'o message \<Rightarrow> 'o session \<Rightarrow> ('o session \<times> error option) go" where
  "write_out wr m c =
     (if msg_json m \<noteq> None \<or> msg_txt m \<noteq> [] then
        go_bind (go_deref (se_conn c)) (\<lambda>conn.
          let x = (case msg_json m of Some j \<Rightarrow> WireJSON j | None \<Rightarrow> WireText (msg_txt m));
              (conn', err) = conn_write wr x conn
          in Ret (c\<lparr>se_conn := Some conn', se_sendErr := err\<rparr>, err))
      else Ret (c, se_sendErr c))"

definition sendMessage :: "'o writer \<Rightarrow> 'o message \<Rightarrow> 'o session_state \<Rightarrow> ('o session_state \<times> error option) go" where
  "sendMessage wr m s =
     (case s of (c, w) \<Rightarrow>
        go_bind (write_out wr m c) (\<lambda>(c1, err).
          if err \<noteq> None then go_bind (session_Close (c1, w)) (\<lambda>(s', _). Ret (s', err))
          else Ret ((c1, w), err)))"

text \<open>Handing a message to the goroutine; only a synchronous write learns its outcome.\<close>

definition session_write :: "'o writer \<Rightarrow> 'o message \<Rightarrow> 'o session_state \<Rightarrow> ('o session_state \<times> error option) go" where
  "session_write wr m s =
     (if \<not> se_sending (fst s) then Blocked
      else go_bind (sendMessage wr m s) (\<lambda>(s', err). Ret (s', if msg_sync m then err else None)))"

definition WriteTextMessage :: "'o writer \<Rightarrow> string \<Rightarrow> bool \<Rightarrow> 'o session_state \<Rightarrow> ('o session_state \<times> error option) go" where
  "WriteTextMessage wr txt sync = session_write wr \<lparr>msg_json = None, msg_txt = txt, msg_sync = sync\<rparr>"

definition WriteJSONMessage :: "'o writer \<Rightarrow> 'o sv_msg \<Rightarrow> bool \<Rightarrow> 'o session_state \<Rightarrow> ('o session_state \<times> error option) go" where
  "WriteJSONMessage wr obj sync = session_write wr \<lparr>msg_json = Some obj, msg_txt = [], msg_sync = sync\<rparr>"

definition Welcome :: "'o writer \<Rightarrow> int \<Rightarrow> 'o session_state \<Rightarrow> ('o session_state \<times> error option) go" where
  "Welcome wr now s =
     (let cfg = se_cfg (fst s) in
      WriteJSONMessage wr (SvInfo \<lparr>Info = WelcomMsg cfg, Version = ''wstester mock server v0.1'', info_Timestamp = now,
        Docs = DocsURI cfg, Limit = [], FrontID = cfg_FrontID cfg, SessionID = se_ID (fst s)\<rparr>) True s)"

definition Authorize :: "string \<Rightarrow> string \<Rightarrow> 'o session \<Rightarrow> 'o session" where
  "Authorize clientID accountID c = c\<lparr>se_accountID := accountID, se_clientID := clientID\<rparr>"

definition IsAuthorized :: "'o session \<Rightarrow> bool" where
  "IsAuthorized c \<longleftrightarrow> se_clientID c \<noteq> [] \<and> se_accountID c \<noteq> []"

definition SetCleanup :: "nat \<times> string \<Rightarrow> 'o session \<Rightarrow> 'o session" where
  "SetCleanup fn c = c\<lparr>se_cleanup := Some fn\<rparr>"

definition session_IsClosed :: "'o session \<Rightarrow> bool" where "session_IsClosed c = se_isClosed c"
definition GetID :: "'o session \<Rightarrow> string" where "GetID c = se_ID c"
definition GetAddr :: "'o session \<Rightarrow> string" where "GetAddr c = se_addr c"

text \<open>One heartbeat in \<open>heartbeatLoop\<close>: the write its type calls for, then the count.\<close>

definition heartbeat :: "'o writer \<Rightarrow> HeartBeat \<Rightarrow> 'o session_state \<Rightarrow> 'o session_state go" where
  "heartbeat wr hb s =
     (if \<not> se_beating (fst s) then Blocked
      else
        (let cfg = se_cfg (fst s) in
         go_bind (if hb_Type hb = ''Ping''
               then WriteTextMessage wr (if ReversHeartbeat cfg then ''ping'' else ''pong'') True s
               else Ret (s, None))
           (\<lambda>((c1, w1), err).
              case server_hb_step (ReversHeartbeat cfg) (HeartbeatFailCount cfg) (se_hbCounter c1) (hb, err = None) of
                HbGo counter _ \<Rightarrow> Ret (c1\<lparr>se_hbCounter := counter\<rparr>, w1)
              | HbClose reason _ \<Rightarrow>
                  go_bind (session_Close (c1, w1)) (\<lambda>((c2, w2), _). Ret (c2\<lparr>se_beating := False\<rparr>, w2)))))"

text \<open>\<open>ReadMessage\<close>: heartbeats are taken out on the way to the next message. Without a frame
  left it goes on waiting (\<open>None\<close>).\<close>

fun session_ReadMessage :: "'o writer \<Rightarrow> int \<Rightarrow> ws_frame list \<Rightarrow> 'o session_state
    \<Rightarrow> ('o session_state \<times> ((error + string) \<times> ws_frame list) option) go" where
  "session_ReadMessage wr now [] s =
     go_bind (go_deref (se_conn (fst s))) (\<lambda>conn.
       Ret (s, if cn_closed conn then Some (Inl errNetClosed, []) else None))"
| "session_ReadMessage wr now (f # fs) s =
     go_bind (go_deref (se_conn (fst s))) (\<lambda>conn.
       if cn_closed conn then Ret (s, Some (Inl errNetClosed, f # fs))
       else
         (case f of
            ReadError e \<Rightarrow> Ret (s, Some (Inl e, fs))
          | Frame msg \<Rightarrow>
              if PingPattern msg then go_bind (heartbeat wr (NewPing now) s) (session_ReadMessage wr now fs)
              else if PongPattern msg then go_bind (heartbeat wr (NewPong now) s) (session_ReadMessage wr now fs)
              else Ret (s, Some (Inr msg, fs))))"

text \<open>\<open>NewSession\<close>: \<open>forwarded\<close> is the value the request has under the key \<open>x-forwared-for\<close>; a nil
  connection has no remote address.\<close>

definition NewSession :: "(string \<Rightarrow> 'ns) \<Rightarrow> ('ns \<Rightarrow> string \<Rightarrow> string) \<Rightarrow> server_Config \<Rightarrow> string option \<Rightarrow> 'o conn option
    \<Rightarrow> 'o session go" where
  "NewSession hash uuid3 cfg forwarded conn =
     go_bind (case forwarded of Some ip \<Rightarrow> Ret ip | None \<Rightarrow> go_bind (go_deref conn) (\<lambda>cn. Ret (cn_remote cn))) (\<lambda>ip.
     go_bind (go_deref conn) (\<lambda>cn.
       Ret \<lparr>se_cfg = cfg, se_ID = uuid3 (GetNS hash cfg) ip, se_clientID = [], se_accountID = [], se_addr = cn_remote cn,
         se_conn = Some cn, se_isClosed = False, se_closeOnce = False, se_done = False, se_cleanup = None,
         se_sending = True, se_sendErr = None, se_beating = True, se_hbCounter = 0\<rparr>))"

text \<open>The goroutines that end with the context, and the timer of a silent peer.\<close>

definition send_exit :: "'o session \<Rightarrow> 'o session option" where
  "send_exit c = (if se_done c then Some (c\<lparr>se_sending := False\<rparr>) else None)"

definition heartbeat_timeout :: "'o session_state \<Rightarrow> ('o session_state \<times> error option) go" where
  "heartbeat_timeout s = session_Close s"

section \<open>Facts on the configuration\<close>

lemma all_some_map: "(\<And>x. x \<in> set xs \<Longrightarrow> f (g x) = Some x) \<Longrightarrow> all_some (map f (map g xs)) = Some xs"
  by (induction xs) auto

lemma digits_no_char: "all_digits ds \<Longrightarrow> \<not> is_digit x \<Longrightarrow> x \<notin> set ds"
  by (auto simp: all_digits_def list_all_iff)

lemma parse_octet_show: "n \<le> 255 \<Longrightarrow> parse_octet (show_nat_digits n) = Some n"
  using show_nat_digits_ok [of n] by (simp add: parse_octet_def)

lemma join_no_char: "x \<notin> set sep \<Longrightarrow> \<forall>p\<in>set ps. x \<notin> set p \<Longrightarrow> x \<notin> set (go_join sep ps)"
  by (induction sep ps rule: go_join.induct) auto

lemma ParseIP_show:
  assumes "length os = 4" and "\<forall>n\<in>set os. n \<le> 255"
  shows "ParseIP (IP_String (Some os)) = Some os"
proof -
  have "CHR ''.'' \<notin> set (show_nat_digits n)" for n
    using digits_no_char [of "show_nat_digits n"] show_nat_digits_ok by (simp add: is_digit_def)
  then have "go_split (CHR ''.'') (go_join ''.'' (map show_nat_digits os)) = map show_nat_digits os"
    using assms(1) by (intro go_split_join) auto
  then show ?thesis
    using assms by (simp add: ParseIP_def IP_String_def all_some_map parse_octet_show del: map_map)
qed

lemma ChangeListen_GetListenAddr:
  assumes "Listen c = Some os" and "length os = 4" and "\<forall>n\<in>set os. n \<le> 255"
    and "- (2 ^ 63) \<le> Port c" and "Port c < 2 ^ 63"
  shows "ChangeListen (GetListenAddr c) d = (d\<lparr>Listen := Listen c, Port := Port c\<rparr>, None)"
proof -
  have "CHR '':'' \<notin> set (show_nat_digits n)" for n
    using digits_no_char [of "show_nat_digits n"] show_nat_digits_ok by (simp add: is_digit_def)
  then have "CHR '':'' \<notin> set (IP_String (Listen c))" "CHR '':'' \<notin> set (show_int (Port c))"
    using assms(1) by (simp_all add: IP_String_def join_no_char show_int_def)
  then have "go_split (CHR '':'') (GetListenAddr c) = [IP_String (Listen c), show_int (Port c)]"
    by (simp add: GetListenAddr_def go_split_append go_split_no_sep)
  then show ?thesis
    using ParseIP_show [OF assms(2,3)] ParseInt_show [OF assms(4,5)] assms(1) by (simp add: ChangeListen_def)
qed

section \<open>The life of a session\<close>

definition shut :: "'o session \<Rightarrow> bool" where
  "shut c \<longleftrightarrow> se_closeOnce c \<and> se_isClosed c \<and> se_done c \<and> (\<exists>conn. se_conn c = Some conn \<and> cn_closed conn)"

definition alive :: "'o session \<Rightarrow> bool" where
  "alive c \<longleftrightarrow> \<not> se_closeOnce c \<and> \<not> se_isClosed c \<and> \<not> se_done c \<and> se_sending c
     \<and> (\<exists>conn. se_conn c = Some conn \<and> \<not> cn_closed conn)"

definition session_ok :: "'o session \<Rightarrow> bool" where
  "session_ok c \<longleftrightarrow> alive c \<or> shut c"

inductive session_step :: "'o writer \<Rightarrow> 'o session_state \<Rightarrow> 'o session_state \<Rightarrow> bool" for wr where
  close: "session_Close s = Ret (s', e) \<Longrightarrow> session_step wr s s'"
| put: "session_write wr m s = Ret (s', e) \<Longrightarrow> session_step wr s s'"
| beat: "heartbeat wr hb s = Ret s' \<Longrightarrow> session_step wr s s'"
| read: "session_ReadMessage wr now fs s = Ret (s', r) \<Longrightarrow> session_step wr s s'"
| timeout: "heartbeat_timeout s = Ret (s', e) \<Longrightarrow> session_step wr s s'"
| authorize: "session_step wr (c, w) (Authorize clientID accountID c, w)"
| cleanup: "session_step wr (c, w) (SetCleanup fn c, w)"
| exit: "send_exit c = Some c' \<Longrightarrow> session_step wr (c, w) (c', w)"

text \<open>What no step on a closed session changes.\<close>

definition frozen :: "'o session_state \<Rightarrow> 'o session_state \<Rightarrow> bool" where
  "frozen s s' \<longleftrightarrow> snd s' = snd s \<and> se_conn (fst s') = se_conn (fst s) \<and> shut (fst s')"

lemma frozen_refl: "shut (fst s) \<Longrightarrow> frozen s s" by (simp add: frozen_def)

lemma frozen_trans: "frozen a b \<Longrightarrow> frozen b c \<Longrightarrow> frozen a c" by (simp add: frozen_def)

lemma frozen_shut: "frozen a b \<Longrightarrow> shut (fst b)" by (simp add: frozen_def)

lemma Close_shut: "shut (fst s) \<Longrightarrow> session_Close s = Ret (s, None)"
  by (cases s) (auto simp: session_Close_def shut_def)

lemma write_out_shut: "shut c \<Longrightarrow> write_out wr m c = Ret (c1, e) \<Longrightarrow> shut c1 \<and> se_conn c1 = se_conn c"
  by (auto simp: write_out_def conn_write_def shut_def go_bind_Ret_iff Let_def split: if_splits)

lemma session_write_Ret:
  assumes "session_write wr m (c, w) = Ret (s', e)"
  obtains c1 err where "write_out wr m c = Ret (c1, err)"
    "err = None \<and> s' = (c1, w) \<or> err \<noteq> None \<and> (\<exists>e'. session_Close (c1, w) = Ret (s', e'))"
  using assms
  by (auto simp: session_write_def sendMessage_def go_bind_Ret_iff simp del: split_paired_Ex split: if_splits prod.splits)
    (metis not_Some_eq surj_pair)+

lemma session_write_shut: 
  assumes "shut (fst s)" and "session_write wr m s = Ret (s', e)"
  shows "frozen s s'"
proof -
  obtain c w where s: "s = (c, w)" by (cases s)
  obtain c1 err where c1: "write_out wr m c = Ret (c1, err)"
    "err = None \<and> s' = (c1, w) \<or> err \<noteq> None \<and> (\<exists>e'. session_Close (c1, w) = Ret (s', e'))"
    using session_write_Ret [OF assms(2) [unfolded s]] .
  have f: "shut c1" "se_conn c1 = se_conn c" using write_out_shut [OF _ c1(1)] assms(1) s by simp_all
  then have "s' = (c1, w)" using c1(2) Close_shut [of "(c1, w)"] by auto
  then show ?thesis using f by (simp add: frozen_def s)
qed

lemma heartbeat_shut:
  assumes "shut (fst s)" and "heartbeat wr hb s = Ret s'"
  shows "frozen s s'"
proof -
  let ?cfg = "se_cfg (fst s)"
  obtain s1 e where w: "(if hb_Type hb = ''Ping'' then WriteTextMessage wr (if ReversHeartbeat ?cfg then ''ping'' else ''pong'') True s
      else Ret (s, None)) = Ret (s1, e)"
    using assms(2) by (auto simp: heartbeat_def go_bind_Ret_iff Let_def split: if_splits prod.splits)
  then have f: "frozen s s1"
    using session_write_shut [OF assms(1)] frozen_refl [OF assms(1)]
    by (cases "hb_Type hb = ''Ping''") (auto simp: WriteTextMessage_def)
  obtain c1 w1 where s1: "s1 = (c1, w1)" by (cases s1)
  have "shut c1" using f s1 by (simp add: frozen_def)
  then have "frozen s1 s'"
    using assms(2) unfolding heartbeat_def Let_def w
    by (auto simp: s1 Close_shut frozen_def shut_def split: if_splits hb_result.splits)
  then show ?thesis using f frozen_trans by blast
qed

lemma ReadMessage_shut:
  assumes "shut (fst s)" and "session_ReadMessage wr now fs s = Ret (s', r)"
  shows "s' = s"
  using assms by (cases fs) (auto simp: shut_def)

lemma session_step_shut: "session_step wr s s' \<Longrightarrow> shut (fst s) \<Longrightarrow> frozen s s'"
proof (induction rule: session_step.induct)
  case (beat hb s s')
  then show ?case using heartbeat_shut by blast
next
  case (read now fs s s' r)
  then show ?case using ReadMessage_shut frozen_refl by metis
next
  case (put m s s' e)
  then show ?case using session_write_shut by blast
qed (auto simp: Close_shut heartbeat_timeout_def frozen_def shut_def Authorize_def SetCleanup_def
    send_exit_def split: if_splits)

lemma session_steps_shut: "(session_step wr)\<^sup>*\<^sup>* s s' \<Longrightarrow> shut (fst s) \<Longrightarrow> frozen s s'"
proof (induction rule: rtranclp_induct)
  case (step y z)
  then show ?case using session_step_shut frozen_shut frozen_trans by blast
qed (rule frozen_refl)

lemma Close_alive:
  assumes "session_Close s = Ret (s', e)" and "alive (fst s)"
  shows "shut (fst s')" "e = None" "the (se_conn (fst s')) = (the (se_conn (fst s)))\<lparr>cn_closed := True\<rparr>"
  using assms by (cases s; auto simp: session_Close_def alive_def shut_def go_bind_Ret_iff Let_def)+

lemma shut_ok: "shut c \<Longrightarrow> session_ok c" by (simp add: session_ok_def)

lemma Close_ok:
  assumes "session_Close s = Ret (s', e)" and "session_ok (fst s)"
  shows "shut (fst s')"
proof (cases "shut (fst s)")
  case True
  then show ?thesis using assms(1) Close_shut [OF True] by simp
next
  case False
  then show ?thesis using Close_alive(1) [OF assms(1)] assms(2) by (simp add: session_ok_def)
qed

lemmas Close_keeps = shut_ok [OF Close_ok]

lemma write_out_alive: "alive c \<Longrightarrow> write_out wr m c = Ret (c1, e) \<Longrightarrow> alive c1"
  by (auto simp: write_out_def conn_write_def alive_def go_bind_Ret_iff Let_def split: if_splits option.splits prod.splits)

lemma session_write_ok:
  assumes w: "session_write wr m s = Ret (s', e)" and ok: "session_ok (fst s)"
  shows "session_ok (fst s')"
proof -
  obtain c w0 where s: "s = (c, w0)" by (cases s)
  obtain c1 err where c1: "write_out wr m c = Ret (c1, err)"
    "err = None \<and> s' = (c1, w0) \<or> err \<noteq> None \<and> (\<exists>e'. session_Close (c1, w0) = Ret (s', e'))"
    using session_write_Ret [OF w [unfolded s]] .
  have ok1: "session_ok c1"
    using ok write_out_alive [OF _ c1(1)] write_out_shut [OF _ c1(1)] by (auto simp: s session_ok_def)
  from c1(2) show ?thesis
  proof (elim disjE conjE exE)
    fix e' assume "session_Close (c1, w0) = Ret (s', e')"
    then show ?thesis by (rule Close_keeps) (simp add: ok1)
  qed (simp add: ok1)
qed

lemma session_ok_fields [simp]:
  "session_ok (c\<lparr>se_hbCounter := n\<rparr>) = session_ok c" "session_ok (c\<lparr>se_beating := b\<rparr>) = session_ok c"
  "shut (c\<lparr>se_hbCounter := n\<rparr>) = shut c" "shut (c\<lparr>se_beating := b\<rparr>) = shut c"
  by (simp_all add: session_ok_def alive_def shut_def)

lemma heartbeat_ok:
  assumes "heartbeat wr hb s = Ret s'" and "session_ok (fst s)"
  shows "session_ok (fst s')"
proof -
  let ?cfg = "se_cfg (fst s)"
  obtain c1 w1 e where w: "(if hb_Type hb = ''Ping'' then WriteTextMessage wr (if ReversHeartbeat ?cfg then ''ping'' else ''pong'') True s
      else Ret (s, None)) = Ret ((c1, w1), e)"
    using assms(1) by (auto simp: heartbeat_def go_bind_Ret_iff Let_def split: if_splits prod.splits)
  then have ok: "session_ok c1"
  proof (cases "hb_Type hb = ''Ping''")
    case True
    then show ?thesis using session_write_ok [OF _ assms(2), of wr _ "(c1, w1)"] w by (auto simp: WriteTextMessage_def)
  qed (use w assms(2) in auto)
  show ?thesis
  proof (cases "server_hb_step (ReversHeartbeat ?cfg) (HeartbeatFailCount ?cfg) (se_hbCounter c1) (hb, e = None)")
    case (HbGo counter out)
    then show ?thesis using assms(1) ok unfolding heartbeat_def Let_def w by (auto split: if_splits)
  next
    case (HbClose r out)
    then obtain c2 w2 e2 where "session_Close (c1, w1) = Ret ((c2, w2), e2)" "s' = (c2\<lparr>se_beating := False\<rparr>, w2)"
      using assms(1) unfolding heartbeat_def Let_def w by (auto simp: go_bind_Ret_iff split: if_splits prod.splits)
    then show ?thesis using Close_keeps [of "(c1, w1)"] ok by simp
  qed
qed

lemma ReadMessage_ok:
  "session_ReadMessage wr now fs s = Ret (s', r) \<Longrightarrow> session_ok (fst s) \<Longrightarrow> session_ok (fst s')"
proof (induction fs arbitrary: s)
  case (Cons f fs)
  have beat: "session_ok (fst s')"
    if b: "go_bind (heartbeat wr hb s) (session_ReadMessage wr now fs) = Ret (s', r)" for hb
  proof -
    obtain s1 where "heartbeat wr hb s = Ret s1" "session_ReadMessage wr now fs s1 = Ret (s', r)"
      using b unfolding go_bind_Ret_iff by blast
    then show ?thesis using heartbeat_ok Cons.IH Cons.prems(2) by blast
  qed
  obtain conn where "se_conn (fst s) = Some conn"
    using Cons.prems(1) by (cases "se_conn (fst s)") simp_all
  then show ?case
    using Cons.prems beat by (cases f) (simp_all split: if_splits)
qed (auto simp: go_bind_Ret_iff)

lemma session_step_ok: "session_step wr s s' \<Longrightarrow> session_ok (fst s) \<Longrightarrow> session_ok (fst s')"
proof (induction rule: session_step.induct)
  case (close s s' e)
  then show ?case by (rule Close_keeps)
next
  case (timeout s s' e)
  then show ?case unfolding heartbeat_timeout_def by (rule Close_keeps)
next
  case (beat hb s s')
  then show ?case by (rule heartbeat_ok)
next
  case (read now fs s s' r)
  then show ?case by (rule ReadMessage_ok)
next
  case (put m s s' e)
  then show ?case by (rule session_write_ok)
qed (auto simp: session_ok_def alive_def shut_def Authorize_def SetCleanup_def send_exit_def split: if_splits)

lemma session_steps_ok: "(session_step wr)\<^sup>*\<^sup>* s s' \<Longrightarrow> session_ok (fst s) \<Longrightarrow> session_ok (fst s')"
  by (induction rule: rtranclp_induct) (auto intro: session_step_ok)

section \<open>Reading\<close>

lemma write_alive:
  assumes "alive c" and "wr (cn_out (the (se_conn c))) x = None"
    and "x = (case msg_json m of Some j \<Rightarrow> WireJSON j | None \<Rightarrow> WireText (msg_txt m))" and "msg_json m \<noteq> None \<or> msg_txt m \<noteq> []"
  shows "session_write wr m (c, w) =
    Ret ((c\<lparr>se_conn := Some ((the (se_conn c))\<lparr>cn_out := cn_out (the (se_conn c)) @ [x]\<rparr>), se_sendErr := None\<rparr>, w), None)"
  using assms by (auto simp: session_write_def sendMessage_def write_out_def alive_def conn_write_def)

text \<open>The session after it wrote some frames.\<close>

definition wrote :: "'o session \<Rightarrow> 'o wire list \<Rightarrow> 'o session" where
  "wrote c xs = c\<lparr>se_conn := Some ((the (se_conn c))\<lparr>cn_out := cn_out (the (se_conn c)) @ xs\<rparr>),
     se_sendErr := (if xs = [] then se_sendErr c else None)\<rparr>"

lemma wrote_simps [simp]:
  "alive c \<Longrightarrow> wrote c [] = c" "wrote (wrote c xs) ys = wrote c (xs @ ys)"
  "alive (wrote c xs) \<longleftrightarrow> alive (c\<lparr>se_conn := Some (the (se_conn c))\<rparr>)"
  "alive c \<Longrightarrow> alive (c\<lparr>se_conn := Some (the (se_conn c))\<rparr>)"
  "se_cfg (wrote c xs) = se_cfg c" "se_beating (wrote c xs) = se_beating c" "se_hbCounter (wrote c xs) = se_hbCounter c"
  "se_ID (wrote c xs) = se_ID c" "se_cleanup (wrote c xs) = se_cleanup c"
  "cn_out (the (se_conn (wrote c xs))) = cn_out (the (se_conn c)) @ xs"
  by (auto simp: wrote_def alive_def)

lemma write_alive_JSON:
  "alive c \<Longrightarrow> (\<And>xs x. wr xs x = None) \<Longrightarrow> WriteJSONMessage wr obj sync (c, w) = Ret ((wrote c [WireJSON obj], w), None)"
  by (simp add: WriteJSONMessage_def write_alive wrote_def)

lemma write_alive_Text:
  "alive c \<Longrightarrow> (\<And>xs x. wr xs x = None) \<Longrightarrow> txt \<noteq> [] \<Longrightarrow>
    WriteTextMessage wr txt sync (c, w) = Ret ((wrote c [WireText txt], w), None)"
  by (simp add: WriteTextMessage_def write_alive wrote_def)

text \<open>Pings are answered one by one, and the message after them is returned.\<close>

lemma ReadMessage_pings:
  assumes "alive c" and "se_beating c" and wr: "\<And>xs x. wr xs x = None"
    and "\<not> ReversHeartbeat (se_cfg c)" and "0 \<le> se_hbCounter c" and "se_hbCounter c < HeartbeatFailCount (se_cfg c)"
    and "\<forall>p\<in>set pings. PingPattern p" and msg: "\<not> PingPattern msg" "\<not> PongPattern msg"
  shows "session_ReadMessage wr now (map Frame pings @ Frame msg # fs) (c, w) =
    Ret ((wrote c (replicate (length pings) (WireText ''pong'')), w), Some (Inr msg, fs))"
  using assms(1,2,4-7)
proof (induction pings arbitrary: c)
  case Nil
  then show ?case using msg by (auto simp: alive_def wrote_def)
next
  case (Cons p ps)
  let ?c = "wrote c [WireText ''pong'']"
  have "heartbeat wr (NewPing now) (c, w) = Ret (?c, w)"
    using Cons.prems write_alive_Text [OF Cons.prems(1) wr, of "''pong''"]
    by (simp add: heartbeat_def server_hb_step_def hb_check_def)
  moreover have "\<exists>conn. se_conn c = Some conn \<and> \<not> cn_closed conn" using Cons.prems(1) by (auto simp: alive_def)
  ultimately show ?case using Cons.prems Cons.IH [of ?c] by (auto simp: msg)
qed

end
