(* ===== verification/Server.thy ===== *)
theory Server
  imports Session ClientStreams
begin

text \<open>
  \<open>server/server.go\<close>: the sessions of the server and their counter, the requests of a
  client, and the goroutines that pass the messages of a cache to a session.

  The caches and the sessions are shared by pointer: \<open>dataCaches\<close> and \<open>clients\<close> have numbers,
  the positions in \<open>sv_caches\<close> and \<open>sv_sessions\<close>. A goroutine started by a subscription is an
  entry of \<open>sv_subscribers\<close>, put there when the Go channel it waits on is closed. Steps of
  different goroutines do not overlap; the code has no lock for \<open>clients\<close>.

  The request of the upgrade, the clock, the JSON decoder, the UUIDs and the outcomes of
  writes are arguments. Logging is left out.
\<close>

section \<open>State\<close>

record subscriber =
  sub_session :: nat
  sub_cache :: nat
  sub_topic :: string
  sub_depth :: int
  sub_req :: OperationRequest

record 'o server =
  sv_cfg :: server_Config
  sv_done :: bool
  sv_Startup :: "int option"
  sv_Clients :: int
  sv_clients :: "(string, nat) gomap"
  sv_dataCaches :: "(string, nat) gomap"
  sv_caches :: "'o any_cache list"
  sv_sessions :: "'o session list"
  sv_world :: "'o table_msg world"
  sv_subscribers :: "subscriber list"

text \<open>The configuration is overwritten in place, and every session has the same pointer to it.\<close>

definition ReloadCfg :: "server_Config \<Rightarrow> 'o server \<Rightarrow> 'o server" where
  "ReloadCfg cfg s = s\<lparr>sv_cfg := cfg, sv_sessions := map (\<lambda>c. c\<lparr>se_cfg := cfg\<rparr>) (sv_sessions s)\<rparr>"

text \<open>An operation of session \<open>i\<close>.\<close>

definition on_session :: "nat \<Rightarrow> ('o session_state \<Rightarrow> ('o session_state \<times> 'a) go) \<Rightarrow> 'o server \<Rightarrow> ('o server \<times> 'a) go" where
  "on_session i f s =
     go_bind (f (sv_sessions s ! i, sv_world s)) (\<lambda>((c, w), x).
       Ret (s\<lparr>sv_sessions := (sv_sessions s)[i := c], sv_world := w\<rparr>, x))"

section \<open>Clients\<close>

text \<open>The request of an upgrade: headers, the query, and the connection the upgrader gives.\<close>

record 'o upgrade_request =
  rq_header :: "string \<Rightarrow> string"
  rq_forwarded :: "string option"
  rq_query :: "(string, string list) gomap"
  rq_host :: string
  rq_conn :: "'o conn option"

record ('o, 'ns) server_env =
  env_hash :: "string \<Rightarrow> 'ns"
  env_uuid3 :: "'ns \<Rightarrow> string \<Rightarrow> string"
  env_now :: int
  env_wr :: "'o writer"
  env_dec :: "string \<Rightarrow> error + OperationRequest"
  env_origin :: "string \<Rightarrow> string option"

definition incClients :: "('o, 'ns) server_env \<Rightarrow> 'o upgrade_request \<Rightarrow> 'o server \<Rightarrow> ('o server \<times> nat option) go" where
  "incClients env r s =
     go_bind (NewSession (env_hash env) (env_uuid3 env) (sv_cfg s) (rq_forwarded r) (rq_conn r)) (\<lambda>session.
       let i = length (sv_sessions s) in
       go_bind (on_session i (Welcome (env_wr env) (env_now env)) (s\<lparr>sv_sessions := sv_sessions s @ [session]\<rparr>)) (\<lambda>(s1, err).
         if err \<noteq> None then go_bind (on_session i session_Close s1) (\<lambda>(s2, _). Ret (s2, None))
         else Ret (s1\<lparr>sv_clients := AList.update (GetID session) i (sv_clients s1),
                      sv_Clients := wrap64 (sv_Clients s1 + 1)\<rparr>, Some i)))"

text \<open>The argument of \<open>decClients\<close>: nil, an id, or a session.\<close>

datatype dec_arg = NilClient | ClientID string | ClientSession nat

definition decClients :: "dec_arg \<Rightarrow> 'o server \<Rightarrow> 'o server" where
  "decClients session s =
     (let client = (case session of NilClient \<Rightarrow> None | ClientID k \<Rightarrow> map_of (sv_clients s) k | ClientSession i \<Rightarrow> Some i)
      in case client of
           None \<Rightarrow> s
         | Some i \<Rightarrow> s\<lparr>sv_clients := AList.delete (GetID (sv_sessions s ! i)) (sv_clients s),
                       sv_Clients := wrap64 (sv_Clients s - 1)\<rparr>)"

section \<open>Requests of the upgrade\<close>

text \<open>
  The check of the origin, as \<open>NewServer\<close> gives it to the upgrader. \<open>env_origin\<close> is \<open>url.Parse\<close>
  followed by \<open>Hostname\<close>; it has no value when parsing gives a nil pointer, whose error is
  ignored. \<open>Upgrade\<close> is the upgrader, which fails when the check does.
\<close>

definition CheckOrigin :: "(string \<Rightarrow> string option) \<Rightarrow> 'o upgrade_request \<Rightarrow> (bool \<times> 'o upgrade_request) go" where
  "CheckOrigin origin r =
     go_bind (go_deref (origin (rq_header r ''origin''))) (\<lambda>host.
       Ret (True, if rq_host r \<noteq> host then r\<lparr>rq_header := (rq_header r)(''Cookie'' := [])\<rparr> else r))"

definition Upgrade :: "(string \<Rightarrow> string option) \<Rightarrow> 'o upgrade_request \<Rightarrow> 'o upgrade_request go" where
  "Upgrade origin r =
     go_bind (CheckOrigin origin r) (\<lambda>(allowed, r'). Ret (if allowed then r' else r'\<lparr>rq_conn := None\<rparr>))"

text \<open>The error of an expired signature has no text. A header that is no number gives 0, one out
  of range the nearest limit.\<close>

definition getReqAuth :: "int \<Rightarrow> (string \<Rightarrow> string) \<Rightarrow> error option" where
  "getReqAuth now header =
     (let apiExpires = fst (ParseInt (header ''api-expires'')) in if apiExpires > now then Some [] else None)"

text \<open>A session that is nil is asked for its id in the log line.\<close>

definition getReqSubscribe :: "'o upgrade_request \<Rightarrow> nat option \<Rightarrow> OperationRequest option go" where
  "getReqSubscribe r c =
     (case map_of (rq_query r) ''subscribe'' of
        None \<Rightarrow> Ret None
      | Some topicStrList \<Rightarrow>
          go_bind (go_deref c) (\<lambda>_.
            Ret (Some \<lparr>Operation = ''subscribe'', Args = concat (map (go_split (CHR '','')) topicStrList)\<rparr>)))"

definition parseOperation :: "(string \<Rightarrow> error + OperationRequest) \<Rightarrow> string \<Rightarrow> error + OperationRequest" where
  "parseOperation unmarshal msg = unmarshal msg"

definition handleAuth :: "OperationRequest \<Rightarrow> nat \<Rightarrow> 'o response option" where
  "handleAuth req client = None"

section \<open>Subscriptions\<close>

text \<open>The leftmost match of \<open>(?:L2_)(\d+)\<close>: the digits after the first \<open>L2_\<close> that has some.\<close>

fun depth_match :: "string \<Rightarrow> string option" where
  "depth_match [] = None"
| "depth_match (x # xs) =
     (if HasPrefix (x # xs) ''L2_'' \<and> takeWhile is_digit (drop 3 (x # xs)) \<noteq> []
      then Some (takeWhile is_digit (drop 3 (x # xs))) else depth_match xs)"

definition depthTopic :: "string list" where "depthTopic = [''orderBook'']"

definition topic_depth :: "string \<Rightarrow> int" where
  "topic_depth topicName =
     fold (\<lambda>topic depth.
       if HasPrefix topicName topic then
         (case depth_match (drop (length topic) topicName) of
            Some digits \<Rightarrow> fst (ParseInt digits)
          | None \<Rightarrow> depth)
       else depth) depthTopic 0"

definition topic_name :: "string \<Rightarrow> string" where
  "topic_name topicStr = hd (go_split (CHR '':'') topicStr)"

text \<open>One argument of a subscription: the response is written, then the goroutine may go on.\<close>

definition subscribe_one :: "('o, 'ns) server_env \<Rightarrow> OperationRequest \<Rightarrow> nat \<Rightarrow> string \<Rightarrow> 'o server
    \<Rightarrow> ('o server \<times> SubscribeResponse) go" where
  "subscribe_one env req i topicStr s =
     (let topicName = topic_name topicStr;
          cache = map_of (sv_dataCaches s) topicName;
          rsp = \<lparr>Success = (cache \<noteq> None), Subscribe = topicStr, sub_Request = req\<rparr>
      in go_bind (on_session i (WriteJSONMessage (env_wr env) (SvSub rsp) False) s) (\<lambda>(s1, _).
           Ret (case cache of
                  None \<Rightarrow> s1
                | Some k \<Rightarrow> s1\<lparr>sv_subscribers := sv_subscribers s1 @
                    [\<lparr>sub_session = i, sub_cache = k, sub_topic = topicName, sub_depth = topic_depth topicName, sub_req = req\<rparr>]\<rparr>,
                rsp)))"

fun subscribe_all :: "('o, 'ns) server_env \<Rightarrow> OperationRequest \<Rightarrow> nat \<Rightarrow> string list \<Rightarrow> 'o server
    \<Rightarrow> ('o server \<times> SubscribeResponse list) go" where
  "subscribe_all env req i [] s = Ret (s, [])"
| "subscribe_all env req i (t # ts) s =
     go_bind (subscribe_one env req i t s) (\<lambda>(s1, rsp).
     go_bind (subscribe_all env req i ts s1) (\<lambda>(s2, rsps). Ret (s2, rsp # rsps)))"

definition handleSubscribe :: "('o, 'ns) server_env \<Rightarrow> OperationRequest \<Rightarrow> nat \<Rightarrow> 'o server
    \<Rightarrow> ('o server \<times> SubscribeResponse list) go" where
  "handleSubscribe env req i s = subscribe_all env req i (Args req) s"

definition any_GetRspChannel :: "nat \<Rightarrow> int \<Rightarrow> 'o any_cache \<Rightarrow> nat option go" where
  "any_GetRspChannel chType depth cache =
     (case cache of AnyMBL c \<Rightarrow> GetRspChannel chType depth c | AnyTrade c \<Rightarrow> GetRspChannel chType depth c
      | AnyInstrument c \<Rightarrow> GetRspChannel chType depth c)"

definition any_TakeSnapshot :: "int \<Rightarrow> nat option \<Rightarrow> string \<Rightarrow> nat \<Rightarrow> 'o any_cache \<Rightarrow> 'o any_cache go" where
  "any_TakeSnapshot depth publish session k cache =
     (case cache of
        AnyMBL c \<Rightarrow> go_bind (TakeSnapshot depth publish session k c) (\<lambda>c'. Ret (AnyMBL c'))
      | AnyTrade c \<Rightarrow> go_bind (TakeSnapshot depth publish session k c) (\<lambda>c'. Ret (AnyTrade c'))
      | AnyInstrument c \<Rightarrow> go_bind (TakeSnapshot depth publish session k c) (\<lambda>c'. Ret (AnyInstrument c')))"

text \<open>The goroutine of a subscription up to the snapshot: it registers with the channel, leaves a
  cleanup function in the session, and asks for the snapshot. \<open>session\<close>, \<open>r\<close> and \<open>k\<close> are the
  new session id and Go channels. Without a channel of the depth the session is closed.\<close>

definition subscriber_start :: "('o, 'ns) server_env \<Rightarrow> string \<Rightarrow> nat \<Rightarrow> nat \<Rightarrow> subscriber \<Rightarrow> 'o server
    \<Rightarrow> ('o server \<times> nat option) go" where
  "subscriber_start env session r k sub s =
     (let cache = sv_caches s ! sub_cache sub; i = sub_session sub in
      go_bind (any_GetRspChannel Realtime (sub_depth sub) cache) (\<lambda>rspChan.
        case rspChan of
          None \<Rightarrow>
            (let err = \<lparr>Error = ''Fail to get response Channel for '' @ sub_topic sub @ '' on depth '' @ show_int (sub_depth sub),
                        Status = 0, Meta = [], err_Request = sub_req sub\<rparr>
             in go_bind (on_session i (WriteJSONMessage (env_wr env) (SvErr err) False) s) (\<lambda>(s1, _).
                go_bind (on_session i session_Close s1) (\<lambda>(s2, _). Ret (s2, None))))
        | Some n \<Rightarrow>
            go_bind (RetriveData session r (chans (sv_world s) n)) (\<lambda>(ch, session', dataChan).
              let s1 = s\<lparr>sv_world := put_chan n ch (sv_world s),
                         sv_sessions := (sv_sessions s)[i := SetCleanup (n, session') (sv_sessions s ! i)]\<rparr>
              in go_bind (any_TakeSnapshot (sub_depth sub) (Some n) session' k cache) (\<lambda>cache'.
                   Ret (s1\<lparr>sv_caches := (sv_caches s1)[sub_cache sub := cache']\<rparr>, dataChan)))))"

text \<open>The loop over the Go channel, for the messages it received.\<close>

fun subscriber_forward :: "('o, 'ns) server_env \<Rightarrow> nat \<Rightarrow> 'o table_msg list \<Rightarrow> 'o server \<Rightarrow> 'o server go" where
  "subscriber_forward env i [] s = Ret s"
| "subscriber_forward env i (data # rest) s =
     go_bind (on_session i (WriteJSONMessage (env_wr env) (SvTable data) False) s) (\<lambda>(s1, _).
       subscriber_forward env i rest s1)"

section \<open>The handler of a connection\<close>

definition opPattern :: "string \<Rightarrow> bool" where "opPattern msg = Contains msg (quoted ''op'')"

text \<open>One message; what is not understood is only logged.\<close>

definition handle_request :: "('o, 'ns) server_env \<Rightarrow> nat \<Rightarrow> string \<Rightarrow> 'o server \<Rightarrow> 'o server go" where
  "handle_request env i msg s =
     (if opPattern msg then
        (case parseOperation (env_dec env) msg of
           Inl err \<Rightarrow> Ret s
         | Inr req \<Rightarrow>
             if Operation req = ''subscribe'' then go_bind (handleSubscribe env req i s) (\<lambda>(s1, _). Ret s1)
             else Ret s)
      else Ret s)"

lemma session_ReadMessage_shorter:
  "session_ReadMessage wr now fs s = Ret (s', Some (Inr msg, fs')) \<Longrightarrow> length fs' < length fs"
proof (induction fs arbitrary: s)
  case (Cons f fs)
  obtain conn where "se_conn (fst s) = Some conn"
    using Cons.prems by (cases "se_conn (fst s)") simp_all
  moreover have "length fs' < Suc (length fs)"
    if "go_bind (heartbeat wr hb s) (session_ReadMessage wr now fs) = Ret (s', Some (Inr msg, fs'))" for hb
    using that Cons.IH by (force simp: go_bind_Ret_iff)
  ultimately show ?case using Cons.prems by (cases f) (simp_all split: if_splits)
qed (auto simp: go_bind_Ret_iff split: if_splits)

text \<open>The loop, for the frames that arrive; it ends when the server is stopped or a read fails, or
  goes on waiting (the flag). \<open>fuel\<close> bounds the messages; the number of frames is enough.\<close>

fun ws_loop :: "('o, 'ns) server_env \<Rightarrow> nat \<Rightarrow> nat \<Rightarrow> ws_frame list \<Rightarrow> 'o server \<Rightarrow> ('o server \<times> bool) go" where
  "ws_loop env i 0 fs s = Ret (s, True)"
| "ws_loop env i (Suc fuel) fs s =
     (if sv_done s then go_bind (on_session i session_Close s) (\<lambda>(s1, _). Ret (s1, False))
      else
        go_bind (on_session i (session_ReadMessage (env_wr env) (env_now env) fs) s) (\<lambda>(s1, r).
          case r of
            None \<Rightarrow> Ret (s1, True)
          | Some (Inl err, _) \<Rightarrow> go_bind (on_session i session_Close s1) (\<lambda>(s2, _). Ret (s2, False))
          | Some (Inr msg, fs') \<Rightarrow> go_bind (handle_request env i msg s1) (ws_loop env i fuel fs')))"

declare ws_loop.simps [simp del]

text \<open>\<open>wsUpgrader\<close>. A failed upgrade gives a nil connection, and the handler goes on with it; a
  failed welcome gives a nil session, whose methods panic.\<close>

definition ws_open :: "('o, 'ns) server_env \<Rightarrow> 'o upgrade_request \<Rightarrow> 'o server \<Rightarrow> ('o server \<times> nat option) go" where
  "ws_open env r s =
     (if getReqAuth (env_now env) (rq_header r) \<noteq> None then Ret (s, None)
      else
        go_bind (Upgrade (env_origin env) r) (\<lambda>r'.
        go_bind (incClients env r' s) (\<lambda>(s1, client).
        go_bind (getReqSubscribe r' client) (\<lambda>headerSub.
        go_bind (go_deref client) (\<lambda>i.
        go_bind (case headerSub of None \<Rightarrow> Ret s1 | Some op \<Rightarrow> go_bind (handleSubscribe env op i s1) (\<lambda>(s2, _). Ret s2))
          (\<lambda>s2. Ret (s2, Some i)))))))"

definition wsUpgrader :: "('o, 'ns) server_env \<Rightarrow> 'o upgrade_request \<Rightarrow> ws_frame list \<Rightarrow> 'o server \<Rightarrow> ('o server \<times> bool) go" where
  "wsUpgrader env r fs s =
     go_bind (ws_open env r s) (\<lambda>(s1, client).
       case client of
         None \<Rightarrow> Ret (s1, False)
       | Some i \<Rightarrow>
           go_bind (ws_loop env i (Suc (length fs)) fs s1) (\<lambda>(s2, goes).
             Ret (if goes then s2 else decClients (ClientSession i) s2, goes)))"

section \<open>The server\<close>

text \<open>\<open>NewDepthChannel\<close> on the group of channels of a cache.\<close>

definition cache_NewDepthChannel :: "int \<Rightarrow> nat \<Rightarrow> (mbl, 'i, 'm) tableCache \<times> 'm world
    \<Rightarrow> (((mbl, 'i, 'm) tableCache \<times> 'm world) \<times> error option) go" where
  "cache_NewDepthChannel depth n s =
     (case s of (c, w) \<Rightarrow>
        go_bind (NewDepthChannel depth n ((table c)\<lparr>realtime := realtime_group c\<rparr>, w)) (\<lambda>((t, w'), err).
          Ret ((c\<lparr>channelGroup := (channelGroup c)[0 := Some (realtime t)]\<rparr>, w'), err)))"

definition NewServer :: "server_Config \<Rightarrow> 'o table_msg world \<Rightarrow> 'o server go" where
  "NewServer cfg w =
     go_bind (NewTradeCache 0 w) (\<lambda>(td, w1).
     go_bind (NewInstrumentCache 1 w1) (\<lambda>(ins, w2).
     go_bind (NewMBLCache 2 w2) (\<lambda>(mbl0, w3).
     go_bind (cache_NewDepthChannel 25 3 (mbl0, w3)) (\<lambda>((mbl1, w4), err).
       case err of
         Some e \<Rightarrow> Panic (LogPanic e)
       | None \<Rightarrow>
           Ret \<lparr>sv_cfg = cfg, sv_done = False, sv_Startup = None, sv_Clients = 0, sv_clients = [],
             sv_dataCaches = [(''trade'', 0), (''instrument'', 1), (''orderBookL2'', 2), (''orderBookL2_25'', 2)],
             sv_caches = [AnyTrade td, AnyInstrument ins, AnyMBL mbl1], sv_sessions = [], sv_world = w4,
             sv_subscribers = []\<rparr>))))"

end
