(* ===== verification/Subscription.thy ===== *)
theory Subscription
  imports Server
begin

text \<open>
  A subscription from end to end: a session registers with the channel of a depth, asks for a
  snapshot, and receives first what was still on its way, then the snapshot, then the changes
  after it; the goroutine of the subscription writes them to the websocket in that order.
\<close>

section \<open>The stream of a new session\<close>

lemma feed_append:
  "feed handle rt t (xs @ ys) =
    go_bind (feed handle rt t xs) (\<lambda>(t1, ps). go_bind (feed handle rt t1 ys) (\<lambda>(t2, qs). Ret (t2, ps @ qs)))"
proof (induction xs arbitrary: t)
  case Nil
  show ?case by (cases "feed handle rt t ys") auto
next
  case (Cons x xs)
  then show ?case by (simp add: go_bind_assoc case_prod_unfold)
qed

lemma accepts_all_append:
  "accepts_all handle accepts rt t (xs @ ys) \<Longrightarrow> feed handle rt t xs = Ret (t1, ps) \<Longrightarrow>
    accepts_all handle accepts rt t xs \<and> accepts_all handle accepts rt t1 ys"
  by (induction xs arbitrary: t ps) (auto simp: go_bind_Ret_iff split: prod.splits go.splits)

lemma accepts_all_prefix:
  "accepts_all handle accepts rt t (xs @ ys) \<Longrightarrow> accepts_all handle accepts rt t xs"
  by (induction xs arbitrary: t) (auto split: go.splits)

lemma delivered_all: "delivered s r reg (map (DataIn [] []) ms @ q) = (if reg then ms else []) @ delivered s r reg q"
  by (induction ms) auto

text \<open>The queue of one channel grows by the publications of its depth; everything else the
  dispatch looks at stays.\<close>

definition queued :: "(int, nat) gomap \<Rightarrow> nat \<Rightarrow> 'm world \<Rightarrow> 'm channel_input list \<Rightarrow> 'm world \<Rightarrow> bool" where
  "queued rt n w q w' \<longleftrightarrow> world_ok w' \<and> streams w' = streams w \<and> (\<forall>(d, n)\<in>set rt. chan_open (chans w' n))
     \<and> chans w' n = (chans w n)\<lparr>source := Some (the (source (chans w n)) @ q)\<rparr>"

lemma queued_trans: "queued rt n a p b \<Longrightarrow> queued rt n b q c \<Longrightarrow> queued rt n a (p @ q) c"
  by (simp add: queued_def)

lemma emit_queued:
  assumes ps: "\<forall>p\<in>set ps. fst p \<in> fst ` set rt" and d: "distinct (map fst rt)" "distinct (map snd rt)"
    and opn: "\<forall>(d, n)\<in>set rt. chan_open (chans w n)" and w: "world_ok w" and mem: "(d, n) \<in> set rt"
  shows "\<exists>w'. emit rt ps w = Ret w' \<and> queued rt n w (map (DataIn [] []) (at_depth d ps)) w'"
proof -
  from emit_spec [OF ps d opn] obtain w' where w': "emit rt ps w = Ret w'" "streams w' = streams w"
    "\<forall>(d, n)\<in>set rt. chans w' n = (chans w n)\<lparr>source :=
         Some (the (source (chans w n)) @ map (DataIn [] []) (at_depth d ps))\<rparr>" by blast
  then have "\<forall>(d, n)\<in>set rt. chan_open (chans w' n)" using opn by (fastforce simp: chan_open_queue)
  then show ?thesis using w' mem emit_keeps_ok [OF w'(1) w] by (auto simp: queued_def)
qed

lemma PublishDataToDestination_open:
  "chan_open c \<Longrightarrow> PublishDataToDestination m s c = Ret (c\<lparr>source := Some (the (source c) @ [DataIn s [] m])\<rparr>, None)"
  by (simp add: PublishDataToDestination_def send_open) (simp add: chan_open_def)

lemma RetriveData_open:
  "chan_open c \<Longrightarrow> RetriveData s r c = Ret (c\<lparr>source := Some (the (source c) @ [Register s r])\<rparr>, s, Some r)"
  by (simp add: RetriveData_def send_open) (simp add: chan_open_def)

lemma put_queued:
  assumes "\<forall>(d, n)\<in>set rt. chan_open (chans w n)" and "chan_step w (put_chan n ((chans w n)\<lparr>source := Some (the (source (chans w n)) @ q)\<rparr>) w)"
    and "world_ok w"
  shows "queued rt n w q (put_chan n ((chans w n)\<lparr>source := Some (the (source (chans w n)) @ q)\<rparr>) w)"
  using assms chan_step_ok [OF assms(2,3)]
  by (auto simp: queued_def put_chan_def chan_open_queue)

text \<open>The turns that work off such a queue.\<close>

lemma subscription_turns:
  fixes w w' :: "'m world"
  assumes q: "queued rt n w (Register s r # map (DataIn [] []) a @ [DataIn s [] x] @ map (DataIn [] []) b) w'"
    and mem: "(d, n) \<in> set rt" and idle: "source (chans w n) = Some []" and nc: "childChannels (chans w n) = []"
    and fresh: "fresh_for s r n w" and room: "\<And>r. room r"
  shows "\<exists>w''. loop_turns room n (length a + length b + 2) w' = Ret w''
    \<and> sent (streams w'' r) = sent (streams w r) @ a @ [x] @ b"
proof -
  let ?q = "Register s r # map (DataIn [] []) a @ [DataIn s [] x] @ map (DataIn [] []) b :: 'm channel_input list"
  have src: "source (chans w' n) = Some ?q" and dst: "destinations (chans w' n) = destinations (chans w n)"
    and st: "streams w' = streams w" and ok: "world_ok w'" and opn: "chan_open (chans w' n)"
    using q idle mem by (auto simp: queued_def)
  have reg: "(s, Some r) \<in> set (all_dests (chans w' n))" by (simp add: all_dests_def src)
  have new: "(s, Some r) \<notin> set (destinations (chans w n))"
    using fresh by (force simp: fresh_for_def all_dests_def)
  have "no_children (chans w' n)"
    using nc q src by (auto simp: no_children_def queued_def)
  moreover have "Shutdown s \<notin> set ?q" by auto
  ultimately obtain w'' where "loop_turns room n (length ?q) w' = Ret w''"
    "sent (streams w'' r) = sent (streams w' r) @ delivered s r ((s, Some r) \<in> set (destinations (chans w' n))) ?q"
    using loop_turns_deliver [OF ok opn src _ reg] room by blast
  moreover have "delivered s r True (map (DataIn [] []) b) = b" using delivered_data .
  ultimately show ?thesis using new by (simp add: dst st delivered_all)
qed

context cache_contract
begin

text \<open>
  \<open>ms1\<close> is queued when the session registers, \<open>ms2\<close> comes after its request. The session
  receives what \<open>ms1\<close> publishes, the snapshot of the table \<open>ms1\<close> leads to, and what \<open>ms2\<close> publishes.
\<close>

lemma subscription_stream:
  fixes c :: "('s, 'i, 'm) tableCache"
  assumes ok: "ok (table c)" and acc: "accepts_all handle accepts (realtime_group c) (table c) (ms1 @ ms2)"
    and d: "distinct (map fst (realtime_group c))" "distinct (map snd (realtime_group c))"
    and opn: "\<forall>(d, n)\<in>set (realtime_group c). chan_open (chans w n)" and w: "world_ok w"
    and mem: "(d, n) \<in> set (realtime_group c)" and idle: "source (chans w n) = Some []" and nc: "childChannels (chans w n) = []"
    and fresh: "fresh_for s r n w" and room: "\<And>r. room r" and snap: "\<And>t. ok t \<Longrightarrow> \<exists>x. snap t d = Ret x"
    and pl: "pipeline c = map (\<lambda>m. Some (CacheMsg m)) ms1 @ Some (CacheBreak d (Some n) s k) # map (\<lambda>m. Some (CacheMsg m)) ms2"
  shows "\<exists>t1 ps1 x t2 ps2 c' w' w''. feed handle (realtime_group c) (table c) ms1 = Ret (t1, ps1) \<and> snap t1 d = Ret x
    \<and> feed handle (realtime_group c) t1 ms2 = Ret (t2, ps2) \<and> ok t1 \<and> ok t2
    \<and> cache_run handle snap (length ms1 + Suc (length ms2))
        (c, put_chan n ((chans w n)\<lparr>source := Some (the (source (chans w n)) @ [Register s r])\<rparr>) w) = Ret (c', w')
    \<and> table c' = t2 \<and> pipeline c' = []
    \<and> loop_turns room n (length (at_depth d ps1) + length (at_depth d ps2) + 2) w' = Ret w''
    \<and> sent (streams w'' r) = sent (streams w r) @ at_depth d ps1 @ [x] @ at_depth d ps2"
proof -
  let ?rt = "realtime_group c"
  let ?tail = "map (\<lambda>m. Some (CacheMsg m)) ms2 :: 'i cache_input option list"
  let ?break = "Some (CacheBreak d (Some n) s k) :: 'i cache_input option"
  let ?w0 = "put_chan n ((chans w n)\<lparr>source := Some (the (source (chans w n)) @ [Register s r])\<rparr>) w"
  have on: "chan_open (chans w n)" using opn mem by blast
  have q0: "queued ?rt n w [Register s r] ?w0"
    by (rule put_queued [OF opn chan_step.retrive [OF fresh RetriveData_open [OF on]] w])
  obtain t1 ps1 where f1: "feed handle ?rt (table c) ms1 = Ret (t1, ps1)" "ok t1" "\<forall>p\<in>set ps1. fst p \<in> fst ` set ?rt"
    using feed_total [OF ok accepts_all_prefix [OF acc]] by blast
  obtain t2 ps2 where f2: "feed handle ?rt t1 ms2 = Ret (t2, ps2)" "ok t2" "\<forall>p\<in>set ps2. fst p \<in> fst ` set ?rt"
    using feed_total [OF f1(2)] accepts_all_append [OF acc f1(1)] by blast
  obtain x where x: "snap t1 d = Ret x" using snap [OF f1(2)] by blast
  obtain w1 where e1: "emit ?rt ps1 ?w0 = Ret w1" "queued ?rt n ?w0 (map (DataIn [] []) (at_depth d ps1)) w1"
    using emit_queued [OF f1(3) d _ _ mem, of ?w0] q0 by (auto simp: queued_def)
  let ?w2 = "put_chan n ((chans w1 n)\<lparr>source := Some (the (source (chans w1 n)) @ [DataIn s [] x])\<rparr>) w1"
  have on1: "chan_open (chans w1 n)" "\<forall>(d, n)\<in>set ?rt. chan_open (chans w1 n)" "world_ok w1"
    using e1(2) mem by (auto simp: queued_def)
  note pub = PublishDataToDestination_open [OF on1(1), of x s]
  have q2: "queued ?rt n w1 [DataIn s [] x] ?w2"
    by (rule put_queued [OF on1(2) chan_step.publish_dest [OF pub] on1(3)])
  obtain w3 where e3: "emit ?rt ps2 ?w2 = Ret w3" "queued ?rt n ?w2 (map (DataIn [] []) (at_depth d ps2)) w3"
    using emit_queued [OF f2(3) d _ _ mem, of ?w2] q2 by (auto simp: queued_def)
  have "queued ?rt n w (Register s r # map (DataIn [] []) (at_depth d ps1) @ [DataIn s [] x] @ map (DataIn [] []) (at_depth d ps2)) w3"
    using queued_trans [OF queued_trans [OF queued_trans [OF q0 e1(2)] q2] e3(2)] by simp
  from subscription_turns [OF this mem idle nc fresh, of room] room obtain w'' where
    turns: "loop_turns room n (length (at_depth d ps1) + length (at_depth d ps2) + 2) w3 = Ret w''"
    "sent (streams w'' r) = sent (streams w r) @ at_depth d ps1 @ [x] @ at_depth d ps2" by blast
  let ?c1 = "c\<lparr>table := t1, pipeline := ?break # ?tail\<rparr>"
  let ?c2 = "?c1\<lparr>pipeline := ?tail, answers := AList.update k x (answers c)\<rparr>"
  let ?c3 = "?c2\<lparr>table := t2, pipeline := []\<rparr>"
  have g: "realtime_group ?c2 = ?rt" by (simp add: realtime_group_def)
  have r1: "cache_run handle snap (length ms1 + Suc (length ms2)) (c, ?w0) = cache_run handle snap (Suc (length ms2)) (?c1, w1)"
    by (rule cache_run_feed [OF f1(1) e1(1) pl])
  have "cache_turn handle snap (?c1, w1) = Ret ((?c2, ?w2), True)"
    using x pub by (simp add: cache_turn_def handle_cacheInput_def run_breakpoint_def)
  then have r2: "cache_run handle snap (Suc (length ms2)) (?c1, w1) = cache_run handle snap (length ms2) (?c2, ?w2)" by simp
  have r3: "cache_run handle snap (length ms2) (?c2, ?w2) = Ret (?c3, w3)"
    using cache_run_feed [of handle ?c2 ms2 t2 ps2 ?w2 w3 "[]" snap 0] f2(1) e3(1) g by simp
  have "cache_run handle snap (length ms1 + Suc (length ms2)) (c, ?w0) = Ret (?c3, w3)"
    unfolding r1 r2 r3 ..
  moreover have "table ?c3 = t2" "pipeline ?c3 = []" by simp_all
  ultimately show ?thesis using f1(1,2) f2(1,2) x turns by blast
qed

end

end
