(* ===== verification/ServerFacts.thy ===== *)
theory ServerFacts
  imports Subscription
begin

text \<open>
  Facts on the server: the answers to a subscription and the goroutines it starts, the count of
  the sessions, what a new server offers, and the way of a cache's messages to a websocket.
\<close>

section \<open>Writing to a session\<close>

text \<open>The server after session \<open>i\<close> wrote some frames.\<close>

definition told :: "'o server \<Rightarrow> nat \<Rightarrow> 'o wire list \<Rightarrow> 'o server" where
  "told s i xs = s\<lparr>sv_sessions := (sv_sessions s)[i := wrote (sv_sessions s ! i) xs]\<rparr>"

definition up :: "'o server \<Rightarrow> nat \<Rightarrow> bool" where
  "up s i \<longleftrightarrow> i < length (sv_sessions s) \<and> alive (sv_sessions s ! i)"

lemma alive_wrote: "alive c \<Longrightarrow> alive (wrote c xs)" by simp

lemma told_simps [simp]:
  "up s i \<Longrightarrow> told s i [] = s"
  "up s i \<Longrightarrow> told (told s i xs) i ys = told s i (xs @ ys)"
  "up s i \<Longrightarrow> up (told s i xs) i"
  "sv_dataCaches (told s i xs) = sv_dataCaches s" "sv_caches (told s i xs) = sv_caches s"
  "sv_world (told s i xs) = sv_world s" "sv_subscribers (told s i xs) = sv_subscribers s"
  "sv_clients (told s i xs) = sv_clients s" "sv_Clients (told s i xs) = sv_Clients s"
  "length (sv_sessions (told s i xs)) = length (sv_sessions s)"
  "i < length (sv_sessions s) \<Longrightarrow> sv_sessions (told s i xs) ! i = wrote (sv_sessions s ! i) xs"
  by (auto simp: told_def up_def alive_wrote)

lemma told_subs: "told (s\<lparr>sv_subscribers := q\<rparr>) i xs = (told s i xs)\<lparr>sv_subscribers := q\<rparr>"
  "up (s\<lparr>sv_subscribers := q\<rparr>) i = up s i"
  by (simp_all add: told_def up_def)

lemma tell:
  assumes "up s i" and "\<And>xs x. wr xs x = None"
  shows "on_session i (WriteJSONMessage wr obj sync) s = Ret (told s i [WireJSON obj], None)"
  using assms write_alive_JSON [of "sv_sessions s ! i" wr obj sync "sv_world s"]
  by (simp add: on_session_def up_def told_def)

section \<open>Subscriptions\<close>

definition answer :: "'o server \<Rightarrow> OperationRequest \<Rightarrow> string \<Rightarrow> SubscribeResponse" where
  "answer s req t = \<lparr>Success = (map_of (sv_dataCaches s) (topic_name t) \<noteq> None), Subscribe = t, sub_Request = req\<rparr>"

definition started :: "'o server \<Rightarrow> OperationRequest \<Rightarrow> nat \<Rightarrow> string \<Rightarrow> subscriber list" where
  "started s req i t =
     (case map_of (sv_dataCaches s) (topic_name t) of
        None \<Rightarrow> []
      | Some k \<Rightarrow> [\<lparr>sub_session = i, sub_cache = k, sub_topic = topic_name t, sub_depth = topic_depth (topic_name t), sub_req = req\<rparr>])"

lemma subscribe_one_spec:
  assumes "up s i" and "\<And>xs x. env_wr env xs x = None"
  shows "subscribe_one env req i t s =
    Ret ((told s i [WireJSON (SvSub (answer s req t))])\<lparr>sv_subscribers := sv_subscribers s @ started s req i t\<rparr>, answer s req t)"
  by (simp add: subscribe_one_def tell [OF assms] answer_def started_def Let_def split: option.split)

lemma answer_frame [simp]:
  "answer (told s i xs) = answer s" "answer (s\<lparr>sv_subscribers := q\<rparr>) = answer s"
  "started (told s i xs) = started s" "started (s\<lparr>sv_subscribers := q\<rparr>) = started s"
  by (simp_all add: answer_def started_def fun_eq_iff)

lemma subscribe_all_spec:
  assumes "up s i" and wr: "\<And>xs x. env_wr env xs x = None"
  shows "subscribe_all env req i ts s =
    Ret ((told s i (map (\<lambda>t. WireJSON (SvSub (answer s req t))) ts))\<lparr>sv_subscribers := sv_subscribers s @ concat (map (started s req i) ts)\<rparr>,
      map (answer s req) ts)"
  using assms(1)
proof (induction ts arbitrary: s)
  case (Cons t ts)
  then show ?case by (simp add: subscribe_one_spec [OF _ wr] told_subs)
qed simp

lemma forward_spec:
  assumes "up s i" and wr: "\<And>xs x. env_wr env xs x = None"
  shows "subscriber_forward env i ms s = Ret (told s i (map (\<lambda>m. WireJSON (SvTable m)) ms))"
  using assms(1)
proof (induction ms arbitrary: s)
  case (Cons m ms)
  then show ?case by (simp add: tell [OF _ wr])
qed simp

lemma subscriber_start_spec:
  assumes k: "sv_caches s ! sub_cache sub = AnyMBL c" "sub_cache sub < length (sv_caches s)"
    and g: "channelGroup c = Some g # gs" "map_of g d = Some n" "sub_depth sub = d" "0 \<le> d" and opn: "chan_open (chans (sv_world s) n)"
    and pl: "\<not> pipelineClosed c" and up: "up s (sub_session sub)"
  shows "\<exists>s1. subscriber_start env ses r kk sub s = Ret (s1, Some r) \<and> up s1 (sub_session sub)
    \<and> sv_world s1 = put_chan n ((chans (sv_world s) n)\<lparr>source := Some (the (source (chans (sv_world s) n)) @ [Register ses r])\<rparr>) (sv_world s)
    \<and> sv_caches s1 ! sub_cache sub = AnyMBL (c\<lparr>pipeline := pipeline c @ [Some (CacheBreak d (Some n) ses kk)]\<rparr>)
    \<and> sv_sessions s1 = (sv_sessions s)[sub_session sub := SetCleanup (n, ses) (sv_sessions s ! sub_session sub)]"
proof -
  have "(if d < 1 then 0 else d) = d" using g(4) by simp
  then have get: "any_GetRspChannel Realtime d (AnyMBL c) = Ret (Some n)"
    using g by (simp add: any_GetRspChannel_def GetRspChannel_def Realtime_def go_at_def Let_def)
  show ?thesis
    using up pl k(2)
    by (simp add: subscriber_start_def Let_def k(1) get RetriveData_open [OF opn] any_TakeSnapshot_def TakeSnapshot_def send_pipeline_def g(3)
        up_def SetCleanup_def alive_def)
qed

section \<open>From the cache to the websocket\<close>

lemma subscription_wire:
  fixes c :: "(mbl, 'o table_msg, 'o table_msg) tableCache" and s :: "'o server" and sub :: subscriber
  defines "w \<equiv> sv_world s" and "i \<equiv> sub_session sub" and "q \<equiv> map (\<lambda>m :: 'o table_msg option. Some (CacheMsg m))"
  assumes k: "sv_caches s ! sub_cache sub = AnyMBL c" "sub_cache sub < length (sv_caches s)"
    and g: "channelGroup c = Some g # gs" "(d, n) \<in> set g" "sub_depth sub = d" "0 \<le> d"
    and dist: "distinct (map fst g)" "distinct (map snd g)" and opn: "\<forall>(d, n)\<in>set g. chan_open (chans w n)"
    and w: "world_ok w" and idle: "source (chans w n) = Some []" "childChannels (chans w n) = []"
    and fresh: "fresh_for ses r n w" "sent (streams w r) = []" and room: "\<And>r. room r"
    and ok: "mbl_ok (table c)" and acc: "accepts_all (mbl_handle (\<lambda>ks. ks)) mbl_accepts g (table c) (ms1 @ ms2)"
    and pl: "\<not> pipelineClosed c" "pipeline c = q ms1"
    and up: "up s i" and wr: "\<And>xs x. env_wr env xs x = None"
  shows "\<exists>s1 c1 t1 ps1 t2 ps2 c2 w2 w3. subscriber_start env ses r kk sub s = Ret (s1, Some r)
    \<and> sv_caches s1 ! sub_cache sub = AnyMBL c1
    \<and> feed (mbl_handle (\<lambda>ks. ks)) g (table c) ms1 = Ret (t1, ps1) \<and> feed (mbl_handle (\<lambda>ks. ks)) g t1 ms2 = Ret (t2, ps2)
    \<and> cache_run (mbl_handle (\<lambda>ks. ks)) mbl_snap (length ms1 + Suc (length ms2)) (c1\<lparr>pipeline := pipeline c1 @ q ms2\<rparr>, sv_world s1) = Ret (c2, w2)
    \<and> table c2 = t2
    \<and> loop_turns room n (length (at_depth d ps1) + length (at_depth d ps2) + 2) w2 = Ret w3
    \<and> subscriber_forward env i (sent (streams w3 r)) s1 = Ret (told s1 i (map (\<lambda>m. WireJSON (SvTable m))
         (at_depth d ps1 @ [MBLResponse (snapshot t1 d)] @ at_depth d ps2)))"
proof -
  have rt: "realtime_group c = g" using g(1) by (simp add: realtime_group_def)
  have map_g: "map_of g d = Some n" using g(2) dist(1) by simp
  have on: "chan_open (chans w n)" using opn g(2) by blast
  obtain s1 where s1: "subscriber_start env ses r kk sub s = Ret (s1, Some r)" "up s1 i"
    "sv_world s1 = put_chan n ((chans w n)\<lparr>source := Some (the (source (chans w n)) @ [Register ses r])\<rparr>) w"
    "sv_caches s1 ! sub_cache sub = AnyMBL (c\<lparr>pipeline := pipeline c @ [Some (CacheBreak d (Some n) ses kk)]\<rparr>)"
    using subscriber_start_spec [OF k g(1) map_g g(3,4) on [unfolded w_def] pl(1) up [unfolded i_def]]
    unfolding w_def i_def by blast
  define c1 where "c1 = c\<lparr>pipeline := pipeline c @ [Some (CacheBreak d (Some n) ses kk)]\<rparr>"
  define c0 where "c0 = c1\<lparr>pipeline := pipeline c1 @ q ms2\<rparr>"
  have rt0: "realtime_group c0 = g" "table c0 = table c" using rt by (simp_all add: c0_def c1_def realtime_group_def)
  have pl0: "pipeline c0 = map (\<lambda>m. Some (CacheMsg m)) ms1 @ Some (CacheBreak d (Some n) ses kk) # map (\<lambda>m. Some (CacheMsg m)) ms2"
    using pl(2) by (simp add: c0_def c1_def q_def)
  have snap: "\<exists>x. mbl_snap t d = Ret x" for t by (simp add: mbl_snap_def)
  from books.subscription_stream [of c0 ms1 ms2 w d n ses r room mbl_snap kk, unfolded rt0,
      OF ok acc dist opn w g(2) idle fresh(1) room snap pl0]
  obtain t1 ps1 x t2 ps2 c2 w2 w3 where run:
    "feed (mbl_handle (\<lambda>ks. ks)) g (table c) ms1 = Ret (t1, ps1)" "mbl_snap t1 d = Ret x"
    "feed (mbl_handle (\<lambda>ks. ks)) g t1 ms2 = Ret (t2, ps2)"
    "cache_run (mbl_handle (\<lambda>ks. ks)) mbl_snap (length ms1 + Suc (length ms2)) (c0, sv_world s1) = Ret (c2, w2)" "table c2 = t2"
    "loop_turns room n (length (at_depth d ps1) + length (at_depth d ps2) + 2) w2 = Ret w3"
    "sent (streams w3 r) = at_depth d ps1 @ [x] @ at_depth d ps2"
    unfolding s1(3) fresh(2) append_Nil by blast
  have "x = MBLResponse (snapshot t1 d)" using run(2) by (simp add: mbl_snap_def)
  then have fwd: "subscriber_forward env i (sent (streams w3 r)) s1 = Ret (told s1 i (map (\<lambda>m. WireJSON (SvTable m))
      (at_depth d ps1 @ [MBLResponse (snapshot t1 d)] @ at_depth d ps2)))"
    using forward_spec [OF s1(2) wr] run(7) by simp
  show ?thesis
    using s1(1,4) [folded c1_def] run(1,3,4,5,6) [unfolded c0_def] fwd by blast
qed

section \<open>The count of the sessions\<close>

text \<open>No operation of a session changes its id.\<close>

lemma Close_ID: "session_Close s = Ret (s', e) \<Longrightarrow> se_ID (fst s') = se_ID (fst s)"
  by (cases s) (auto simp: session_Close_def go_bind_Ret_iff Let_def split: option.splits if_splits)

lemma session_write_ID: 
  assumes "session_write wr m s = Ret (s', e)"
  shows "se_ID (fst s') = se_ID (fst s)"
proof -
  obtain c w where s: "s = (c, w)" by (cases s)
  obtain c1 err where c1: "write_out wr m c = Ret (c1, err)"
    "err = None \<and> s' = (c1, w) \<or> err \<noteq> None \<and> (\<exists>e'. session_Close (c1, w) = Ret (s', e'))"
    using session_write_Ret [OF assms [unfolded s]] .
  have "se_ID c1 = se_ID c"
    using c1(1) by (auto simp: write_out_def go_bind_Ret_iff Let_def case_prod_unfold split: if_splits)
  moreover have "se_ID (fst s') = se_ID c1" using c1(2) Close_ID [of "(c1, w)" s'] by auto
  ultimately show ?thesis by (simp add: s)
qed

lemma heartbeat_ID:
  assumes "heartbeat wr hb s = Ret s'"
  shows "se_ID (fst s') = se_ID (fst s)"
proof -
  let ?cfg = "se_cfg (fst s)"
  obtain c1 w1 e where w: "(if hb_Type hb = ''Ping'' then WriteTextMessage wr (if ReversHeartbeat ?cfg then ''ping'' else ''pong'') True s
      else Ret (s, None)) = Ret ((c1, w1), e)"
    using assms by (auto simp: heartbeat_def go_bind_Ret_iff Let_def split: if_splits prod.splits)
  then have id: "se_ID c1 = se_ID (fst s)"
    using session_write_ID [of wr _ s "(c1, w1)" e]
    by (cases "hb_Type hb = ''Ping''") (auto simp: WriteTextMessage_def)
  show ?thesis
    using assms id Close_ID [of "(c1, w1)"] unfolding heartbeat_def Let_def w
    by (fastforce simp: go_bind_Ret_iff split: if_splits hb_result.splits prod.splits)
qed

lemma ReadMessage_ID: "session_ReadMessage wr now fs s = Ret (s', r) \<Longrightarrow> se_ID (fst s') = se_ID (fst s)"
proof (induction fs arbitrary: s)
  case (Cons f fs)
  have beat: "se_ID (fst s') = se_ID (fst s)"
    if b: "go_bind (heartbeat wr hb s) (session_ReadMessage wr now fs) = Ret (s', r)" for hb
  proof -
    obtain s1 where "heartbeat wr hb s = Ret s1" "session_ReadMessage wr now fs s1 = Ret (s', r)"
      using b unfolding go_bind_Ret_iff by blast
    then show ?thesis using heartbeat_ID Cons.IH by metis
  qed
  obtain conn where "se_conn (fst s) = Some conn"
    using Cons.prems by (cases "se_conn (fst s)") simp_all
  then show ?case
    using Cons.prems beat by (cases f) (simp_all split: if_splits)
qed (auto simp: go_bind_Ret_iff)

text \<open>Between the registration of a session and its removal the map and the counter stay.\<close>

definition same_clients :: "'o server \<Rightarrow> 'o server \<Rightarrow> bool" where
  "same_clients s s' \<longleftrightarrow> sv_clients s' = sv_clients s \<and> sv_Clients s' = sv_Clients s
     \<and> map se_ID (sv_sessions s') = map se_ID (sv_sessions s)"

lemma same_clients_refl [simp]: "same_clients s s" by (simp add: same_clients_def)

lemma same_clients_trans: "same_clients a b \<Longrightarrow> same_clients b c \<Longrightarrow> same_clients a c"
  by (simp add: same_clients_def)

lemma on_session_same:
  assumes "on_session i f s = Ret (s', x)" and "\<And>a b y. f a = Ret (b, y) \<Longrightarrow> se_ID (fst b) = se_ID (fst a)"
  shows "same_clients s s'"
proof -
  obtain c w where f: "f (sv_sessions s ! i, sv_world s) = Ret ((c, w), x)"
    and s': "s' = s\<lparr>sv_sessions := (sv_sessions s)[i := c], sv_world := w\<rparr>"
    using assms(1) by (auto simp: on_session_def go_bind_Ret_iff)
  have "se_ID c = se_ID (sv_sessions s ! i)" using assms(2) [OF f] by simp
  then have "map se_ID ((sv_sessions s)[i := c]) = map se_ID (sv_sessions s)"
    by (cases "i < length (sv_sessions s)") (simp_all add: map_update list_update_same_conv list_update_beyond not_less)
  then show ?thesis by (simp add: same_clients_def s')
qed

lemma subscribe_one_same:
  assumes "subscribe_one env req i t s = Ret (s', rsp)"
  shows "same_clients s s'"
proof -
  let ?msg = "SvSub \<lparr>Success = map_of (sv_dataCaches s) (topic_name t) \<noteq> None, Subscribe = t, sub_Request = req\<rparr>"
  obtain s1 x where o: "on_session i (WriteJSONMessage (env_wr env) ?msg False) s = Ret (s1, x)"
    "same_clients s1 s'"
    using assms unfolding subscribe_one_def Let_def go_bind_Ret_iff by (auto simp: same_clients_def split: option.splits)
  then show ?thesis
    using on_session_same [OF o(1)] session_write_ID same_clients_trans unfolding WriteJSONMessage_def by blast
qed

lemma subscribe_all_same: "subscribe_all env req i ts s = Ret (s', rsps) \<Longrightarrow> same_clients s s'"
proof (induction ts arbitrary: s rsps)
  case (Cons t ts)
  then obtain s1 rsp rsps1 where "subscribe_one env req i t s = Ret (s1, rsp)" "subscribe_all env req i ts s1 = Ret (s', rsps1)"
    by (auto simp: go_bind_Ret_iff)
  then show ?case using Cons.IH subscribe_one_same same_clients_trans by blast
qed simp

lemma handle_request_same: "handle_request env i msg s = Ret s' \<Longrightarrow> same_clients s s'"
  by (auto simp: handle_request_def handleSubscribe_def go_bind_Ret_iff split: if_splits sum.splits dest: subscribe_all_same)

lemma ws_loop_same: "ws_loop env i fuel fs s = Ret (s', goes) \<Longrightarrow> same_clients s s'"
proof (induction fuel arbitrary: fs s)
  case (Suc fuel)
  have cl: "same_clients a b" if "go_bind (on_session i session_Close a) (\<lambda>(s2, _). Ret (s2, False)) = Ret (b, goes)" for a b
    using that on_session_same [of i session_Close a] Close_ID by (fastforce simp: go_bind_Ret_iff)
  show ?case
  proof (cases "sv_done s")
    case True
    then show ?thesis using Suc.prems cl by (simp add: ws_loop.simps)
  next
    case False
    then obtain s1 r where r: "on_session i (session_ReadMessage (env_wr env) (env_now env) fs) s = Ret (s1, r)"
      and rest: "(case r of None \<Rightarrow> Ret (s1, True)
          | Some (Inl err, _) \<Rightarrow> go_bind (on_session i session_Close s1) (\<lambda>(s2, _). Ret (s2, False))
          | Some (Inr msg, fs') \<Rightarrow> go_bind (handle_request env i msg s1) (ws_loop env i fuel fs')) = Ret (s', goes)"
      using Suc.prems by (auto simp: ws_loop.simps go_bind_Ret_iff)
    have s1: "same_clients s s1" using on_session_same [OF r] ReadMessage_ID by blast
    have "same_clients s1 s'"
    proof (cases r)
      case None
      then show ?thesis using rest by simp
    next
      case (Some x)
      obtain e fs' where x: "x = (e, fs')" by (cases x)
      show ?thesis
      proof (cases e)
        case (Inl err)
        then show ?thesis using rest Some x cl by simp
      next
        case (Inr msg)
        then obtain s2 where "handle_request env i msg s1 = Ret s2" "ws_loop env i fuel fs' s2 = Ret (s', goes)"
          using rest Some x by (auto simp: go_bind_Ret_iff)
        then show ?thesis using Suc.IH handle_request_same same_clients_trans by blast
      qed
    qed
    then show ?thesis using s1 same_clients_trans by blast
  qed
qed (simp add: ws_loop.simps)

lemma wrap64_back: "- (2 ^ 63) \<le> c \<Longrightarrow> c < 2 ^ 63 \<Longrightarrow> wrap64 (wrap64 (c + 1) - 1) = c"
proof -
  assume r: "- (2 ^ 63) \<le> c" "c < 2 ^ 63"
  have "wrap64 (wrap64 (c + 1) - 1) = wrap64 c"
    by (simp add: wrap64_def mod_simps add.commute)
  then show ?thesis using r by (simp add: wrap64_id)
qed

text \<open>The fuel of the loop is enough: with more than one unit for each frame it never runs out.\<close>

lemma ws_loop_fuel:
  "length fs < m \<Longrightarrow> length fs < n \<Longrightarrow> ws_loop env i m fs s = ws_loop env i n fs s"
proof (induction m arbitrary: n fs s)
  case (Suc m)
  then obtain k where n: "n = Suc k" by (cases n) auto
  have eq: "(case r of None \<Rightarrow> Ret (s1, True)
      | Some (Inl err, _) \<Rightarrow> go_bind (on_session i session_Close s1) (\<lambda>(s2, _). Ret (s2, False))
      | Some (Inr msg, fs') \<Rightarrow> go_bind (handle_request env i msg s1) (ws_loop env i m fs'))
    = (case r of None \<Rightarrow> Ret (s1, True)
      | Some (Inl err, _) \<Rightarrow> go_bind (on_session i session_Close s1) (\<lambda>(s2, _). Ret (s2, False))
      | Some (Inr msg, fs') \<Rightarrow> go_bind (handle_request env i msg s1) (ws_loop env i k fs'))"
    if r: "on_session i (session_ReadMessage (env_wr env) (env_now env) fs) s = Ret (s1, r)" for s1 r
  proof -
    have "length fs' < length fs" if "r = Some (Inr msg, fs')" for msg fs'
      using r that by (auto simp: on_session_def go_bind_Ret_iff dest: session_ReadMessage_shorter)
    then have "ws_loop env i m fs' = ws_loop env i k fs'" if "r = Some (Inr msg, fs')" for msg fs'
      using Suc.IH [of fs' k] Suc.prems n that by fastforce
    then show ?thesis by (auto split: option.split sum.split)
  qed
  show ?case
    by (cases "on_session i (session_ReadMessage (env_wr env) (env_now env) fs) s") (auto simp: n ws_loop.simps eq)
qed simp

lemma Welcome_ID: "Welcome wr now s = Ret (s', e) \<Longrightarrow> se_ID (fst s') = se_ID (fst s)"
  unfolding Welcome_def Let_def WriteJSONMessage_def by (rule session_write_ID)

lemma incClients_Some:
  assumes "incClients env r s = Ret (s1, Some i)"
  shows "\<exists>session. NewSession (env_hash env) (env_uuid3 env) (sv_cfg s) (rq_forwarded r) (rq_conn r) = Ret session
    \<and> i = length (sv_sessions s) \<and> map se_ID (sv_sessions s1) = map se_ID (sv_sessions s) @ [GetID session]
    \<and> sv_clients s1 = AList.update (GetID session) i (sv_clients s) \<and> sv_Clients s1 = wrap64 (sv_Clients s + 1)"
proof -
  obtain session where n: "NewSession (env_hash env) (env_uuid3 env) (sv_cfg s) (rq_forwarded r) (rq_conn r) = Ret session"
    using assms by (auto simp: incClients_def go_bind_Ret_iff)
  obtain s2 where w: "on_session (length (sv_sessions s)) (Welcome (env_wr env) (env_now env)) (s\<lparr>sv_sessions := sv_sessions s @ [session]\<rparr>) = Ret (s2, None)"
    and s1: "i = length (sv_sessions s)"
      "s1 = s2\<lparr>sv_clients := AList.update (GetID session) i (sv_clients s2), sv_Clients := wrap64 (sv_Clients s2 + 1)\<rparr>"
    using assms unfolding incClients_def n go_bind.simps Let_def go_bind_Ret_iff
    by (auto simp: go_bind_Ret_iff simp del: split_paired_Ex split: if_splits)
  have "same_clients (s\<lparr>sv_sessions := sv_sessions s @ [session]\<rparr>) s2"
    by (rule on_session_same [OF w]) (rule Welcome_ID)
  then show ?thesis using n s1 by (auto simp: same_clients_def GetID_def)
qed

lemma Upgrade_conn:
  "Upgrade origin r = Ret r' \<Longrightarrow> rq_conn r' = rq_conn r \<and> rq_forwarded r' = rq_forwarded r \<and> rq_query r' = rq_query r"
  by (auto simp: Upgrade_def CheckOrigin_def go_bind_Ret_iff)

lemma Upgrade_cases:
  "Upgrade origin r = Panic NilDereference \<or> (\<exists>r'. Upgrade origin r = Ret r' \<and> rq_conn r' = rq_conn r)"
  by (cases "origin (rq_header r ''origin'')") (simp_all add: Upgrade_def CheckOrigin_def go_deref_def)

lemma wsUpgrader_counts:
  assumes run: "wsUpgrader env r fs s = Ret (s', goes)" and auth: "getReqAuth (env_now env) (rq_header r) = None"
  shows "\<exists>session. NewSession (env_hash env) (env_uuid3 env) (sv_cfg s) (rq_forwarded r) (rq_conn r) = Ret session \<and>
    (if goes
     then sv_clients s' = AList.update (GetID session) (length (sv_sessions s)) (sv_clients s) \<and> sv_Clients s' = wrap64 (sv_Clients s + 1)
     else sv_clients s' = AList.delete (GetID session) (sv_clients s) \<and> sv_Clients s' = wrap64 (wrap64 (sv_Clients s + 1) - 1))"
proof -
  obtain s1 client where o: "ws_open env r s = Ret (s1, client)"
    and rest: "(case client of None \<Rightarrow> Ret (s1, False) | Some i \<Rightarrow>
        go_bind (ws_loop env i (Suc (length fs)) fs s1) (\<lambda>(s2, goes). Ret (if goes then s2 else decClients (ClientSession i) s2, goes))) = Ret (s', goes)"
    using run unfolding wsUpgrader_def go_bind_Ret_iff by auto
  obtain r' s0 i where up: "Upgrade (env_origin env) r = Ret r'" and inc: "incClients env r' s = Ret (s0, Some i)" and cl: "client = Some i"
    and sub: "s1 = s0 \<or> (\<exists>op rsps. handleSubscribe env op i s0 = Ret (s1, rsps))"
    using o auth by (auto simp: ws_open_def go_bind_Ret_iff go_deref_def split: option.splits) blast+
  obtain session where n: "NewSession (env_hash env) (env_uuid3 env) (sv_cfg s) (rq_forwarded r) (rq_conn r) = Ret session"
    "i = length (sv_sessions s)" "map se_ID (sv_sessions s0) = map se_ID (sv_sessions s) @ [GetID session]"
    "sv_clients s0 = AList.update (GetID session) i (sv_clients s)" "sv_Clients s0 = wrap64 (sv_Clients s + 1)"
    using incClients_Some [OF inc] Upgrade_conn [OF up] by auto
  have s01: "same_clients s0 s1" using sub subscribe_all_same unfolding handleSubscribe_def by auto
  obtain s2 where l: "ws_loop env i (Suc (length fs)) fs s1 = Ret (s2, goes)"
    and s': "s' = (if goes then s2 else decClients (ClientSession i) s2)"
    using rest unfolding cl option.case go_bind_Ret_iff by auto
  have same: "same_clients s0 s2" using s01 ws_loop_same [OF l] same_clients_trans by blast
  then have ids: "map se_ID (sv_sessions s2) = map se_ID (sv_sessions s) @ [GetID session]" using n(3) by (simp add: same_clients_def)
  then have "i < length (sv_sessions s2)" using n(2) by (metis length_append_singleton length_map lessI)
  then have "GetID (sv_sessions s2 ! i) = GetID session"
    using arg_cong [OF ids, of "\<lambda>xs. xs ! i"] n(2) by (simp add: GetID_def nth_append)
  then show ?thesis using n same s' by (auto simp: same_clients_def decClients_def delete_update_same)
qed

section \<open>Connections that cannot be set up\<close>

lemma failed_upgrade_panics:
  assumes "getReqAuth (env_now env) (rq_header r) = None" and "rq_conn r = None"
  shows "wsUpgrader env r fs s = Panic NilDereference"
  using assms Upgrade_cases [of "env_origin env" r]
  by (auto simp: wsUpgrader_def ws_open_def incClients_def NewSession_def split: option.split)

lemma getReqSubscribe_nil: "go_bind (getReqSubscribe r None) (\<lambda>h. Panic NilDereference) = Panic NilDereference"
  by (simp add: getReqSubscribe_def split: option.split)

lemma failed_welcome:
  fixes env :: "('o, 'ns) server_env"
  assumes "rq_conn r = Some conn" and "\<not> cn_closed conn" and "\<forall>x. env_wr env (cn_out conn) x \<noteq> None"
  shows "\<exists>s1. incClients env r s = Ret (s1, None)"
proof -
  obtain session where n: "NewSession (env_hash env) (env_uuid3 env) (sv_cfg s) (rq_forwarded r) (rq_conn r) = Ret session"
    and c: "se_conn session = Some conn" "se_sending session" "\<not> se_closeOnce session" "se_cleanup session = None"
    using assms(1) by (cases "rq_forwarded r") (simp_all add: NewSession_def)
  have w: "\<exists>c1 err. Welcome (env_wr env) (env_now env) (session, w) = Ret ((c1, w), Some err) \<and> shut c1" for w
  proof -
    define m :: "'o message" where "m = \<lparr>msg_json = Some (SvInfo \<lparr>Info = WelcomMsg (se_cfg session), Version = ''wstester mock server v0.1'',
      info_Timestamp = env_now env, Docs = DocsURI (se_cfg session), Limit = [], FrontID = cfg_FrontID (se_cfg session),
      SessionID = se_ID session\<rparr>), msg_txt = [], msg_sync = True\<rparr>"
    obtain err where err: "env_wr env (cn_out conn) (WireJSON (the (msg_json m))) = Some err" using assms(3) by blast
    have j: "msg_json m \<noteq> None" "msg_sync m" by (simp_all add: m_def)
    have "write_out (env_wr env) m session = Ret (session\<lparr>se_sendErr := Some err\<rparr>, Some err)"
      using err c(1) assms(2) j(1) by (cases session) (auto simp: write_out_def conn_write_def)
    then have "session_write (env_wr env) m (session, w) =
        Ret ((session\<lparr>se_sendErr := Some err, se_closeOnce := True, se_isClosed := True, se_done := True,
          se_conn := Some (conn\<lparr>cn_closed := True\<rparr>)\<rparr>, w), Some err)"
      using c j(2) by (simp add: session_write_def sendMessage_def session_Close_def Let_def)
    then show ?thesis by (simp add: Welcome_def WriteJSONMessage_def m_def Let_def shut_def)
  qed
  from w [of "sv_world s"] obtain c1 err where w1: "Welcome (env_wr env) (env_now env) (session, sv_world s) = Ret ((c1, sv_world s), Some err)"
    "shut c1" by blast
  then show ?thesis
    by (simp add: incClients_def n Let_def on_session_def Close_shut)
qed

lemma failed_welcome_panics:
  assumes "getReqAuth (env_now env) (rq_header r) = None" and "rq_conn r = Some conn" and "\<not> cn_closed conn"
    and "\<forall>x. env_wr env (cn_out conn) x \<noteq> None"
  shows "wsUpgrader env r fs s = Panic NilDereference"
proof -
  consider "Upgrade (env_origin env) r = Panic NilDereference"
    | r' where "Upgrade (env_origin env) r = Ret r'" "rq_conn r' = Some conn"
    using Upgrade_cases [of "env_origin env" r] assms(2) by auto
  then show ?thesis
  proof cases
    case 2
    obtain s1 where "incClients env r' s = Ret (s1, None)" using failed_welcome [OF 2(2) assms(3,4)] by blast
    then show ?thesis using assms(1) 2(1) by (simp add: wsUpgrader_def ws_open_def getReqSubscribe_nil)
  qed (use assms(1) in \<open>simp add: wsUpgrader_def ws_open_def\<close>)
qed

text \<open>An origin that cannot be parsed leaves a nil URL.\<close>

lemma bad_origin_panics:
  assumes "getReqAuth (env_now env) (rq_header r) = None" and "env_origin env (rq_header r ''origin'') = None"
  shows "wsUpgrader env r fs s = Panic NilDereference"
  using assms by (simp add: wsUpgrader_def ws_open_def Upgrade_def CheckOrigin_def go_deref_def)

end
