(* ===== verification/Json.thy ===== *)
theory Json
  imports Messages
begin

text \<open>
  The text of a message: what \<open>encoding/json\<close> prints for the requests and the answers of a
  subscription (the \<open>String\<close> methods of \<open>models/common.go\<close>, \<open>WriteJSON\<close>), and how it reads them
  back (\<open>parseOperation\<close> of the server, \<open>handlSubMsg\<close> of the client).

  A value keeps its strings and numbers as they are written, as the decoder of the package does
  until a field asks for them. Texts are valid UTF-8; the package replaces other bytes. The
  parser takes fuel, twice the length of the text and two.
\<close>

section \<open>Strings\<close>

definition hex_digits :: string where "hex_digits = ''0123456789abcdef''"

definition hex_val :: "char \<Rightarrow> nat option" where
  "hex_val c = (let k = length (takeWhile (\<lambda>d. d \<noteq> lower_char c) hex_digits) in if k < 16 then Some k else None)"

definition escape :: "char \<Rightarrow> string" where
  "escape c =
     (let n = (of_char c :: nat) in
      if c = CHR 0x22 \<or> c = CHR 0x5C then [CHR 0x5C, c]
      else if n = 10 then [CHR 0x5C, CHR ''n'']
      else if n = 13 then [CHR 0x5C, CHR ''r'']
      else if n = 9 then [CHR 0x5C, CHR ''t'']
      else if n < 32 \<or> c \<in> {CHR ''<'', CHR ''>'', CHR ''&''} then
        [CHR 0x5C, CHR ''u'', CHR ''0'', CHR ''0'', hex_digits ! (n div 16), hex_digits ! (n mod 16)]
      else [c])"

definition escaped :: "string \<Rightarrow> string" where "escaped s = concat (map escape s)"

text \<open>Four hexadecimal digits.\<close>

definition hex4_ok :: "string \<Rightarrow> bool" where
  "hex4_ok s \<longleftrightarrow> 4 \<le> length s \<and> list_all (\<lambda>c. hex_val c \<noteq> None) (take 4 s)"

definition hex4 :: "string \<Rightarrow> nat" where
  "hex4 s = fold (\<lambda>c n. 16 * n + (case hex_val c of Some k \<Rightarrow> k | None \<Rightarrow> 0)) (take 4 s) 0"

definition utf8 :: "nat \<Rightarrow> string" where
  "utf8 u =
     (if u < 0x80 then [char_of u]
      else if u < 0x800 then [char_of (0xC0 + u div 64), char_of (0x80 + u mod 64)]
      else if u < 0x10000 then [char_of (0xE0 + u div 4096), char_of (0x80 + u div 64 mod 64), char_of (0x80 + u mod 64)]
      else [char_of (0xF0 + u div 262144), char_of (0x80 + u div 4096 mod 64), char_of (0x80 + u div 64 mod 64), char_of (0x80 + u mod 64)])"

text \<open>The text up to the closing quote, and what follows it.\<close>

fun raw_string :: "string \<Rightarrow> (string \<times> string) option" where
  "raw_string [] = None"
| "raw_string (x # s) =
     (if x = CHR 0x22 then Some ([], s)
      else if x = CHR 0x5C then
        (case s of
           [] \<Rightarrow> None
         | c # s' \<Rightarrow>
             if c \<in> set ''bfnrt/'' \<or> c = CHR 0x22 \<or> c = CHR 0x5C \<or> (c = CHR ''u'' \<and> hex4_ok s')
             then map_option (\<lambda>(r, t). (x # c # r, t)) (raw_string s') else None)
      else if (of_char x :: nat) < 32 then None
      else map_option (\<lambda>(r, t). (x # r, t)) (raw_string s))"

definition unescape_char :: "char \<Rightarrow> char" where
  "unescape_char c =
     (if c = CHR ''b'' then char_of (8 :: nat) else if c = CHR ''f'' then char_of (12 :: nat)
      else if c = CHR ''n'' then char_of (10 :: nat) else if c = CHR ''r'' then char_of (13 :: nat)
      else if c = CHR ''t'' then char_of (9 :: nat) else c)"

text \<open>The string a text stands for. A pair of surrogates is one character, another surrogate the
  replacement character.\<close>

function unescape :: "string \<Rightarrow> string" where
  "unescape [] = []"
| "unescape [x] = [x]"
| "unescape (x # c # s) =
     (if x \<noteq> CHR 0x5C then x # unescape (c # s)
      else if c = CHR ''u'' then
        (let u = hex4 s; v = hex4 (drop 6 s) in
         if 0xD800 \<le> u \<and> u < 0xDC00 \<and> take 2 (drop 4 s) = [CHR 0x5C, CHR ''u''] \<and> 0xDC00 \<le> v \<and> v < 0xE000
         then utf8 (0x10000 + (u - 0xD800) * 1024 + (v - 0xDC00)) @ unescape (drop 10 s)
         else utf8 (if 0xD800 \<le> u \<and> u < 0xE000 then 0xFFFD else u) @ unescape (drop 4 s))
      else unescape_char c # unescape s)"
  by pat_completeness auto
termination by (relation "measure length") auto

section \<open>Values\<close>

fun json_print :: "json \<Rightarrow> string" where
  "json_print JNull = ''null''"
| "json_print (JBool b) = (if b then ''true'' else ''false'')"
| "json_print (JNum n) = n"
| "json_print (JStr r) = quoted r"
| "json_print (JArr vs) = ''['' @ go_join '','' (map json_print vs) @ '']''"
| "json_print (JObj ms) = ''{'' @ go_join '','' (map (\<lambda>(k, v). quoted k @ '':'' @ json_print v) ms) @ ''}''"

definition skip :: "string \<Rightarrow> string" where
  "skip s = dropWhile (\<lambda>c. c \<in> {CHR '' '', CHR 0x09, CHR 0x0A, CHR 0x0D}) s"

lemma length_skip: "length (skip s) \<le> length s"
  by (simp add: skip_def length_dropWhile_le)

definition json_number :: "string \<Rightarrow> bool" where
  "json_number l =
     (let s = (if HasPrefix l ''-'' then tl l else l);
          i = takeWhile is_digit s; r = dropWhile is_digit s;
          f_ok = (HasPrefix r ''.'' \<longrightarrow> takeWhile is_digit (tl r) \<noteq> []);
          e = (if HasPrefix r ''.'' then dropWhile is_digit (tl r) else r);
          d = (if tl e \<noteq> [] \<and> hd (tl e) \<in> {CHR ''+'', CHR ''-''} then tl (tl e) else tl e)
      in i \<noteq> [] \<and> (hd i = CHR ''0'' \<longrightarrow> length i = 1) \<and> f_ok
         \<and> (e = [] \<or> hd e \<in> {CHR ''e'', CHR ''E''} \<and> d \<noteq> [] \<and> list_all is_digit d))"

definition number_char :: "char \<Rightarrow> bool" where
  "number_char c \<longleftrightarrow> is_digit c \<or> c \<in> set ''+-.eE''"

text \<open>A literal or a number.\<close>

definition json_atom :: "string \<Rightarrow> (json \<times> string) option" where
  "json_atom s =
     (if HasPrefix s ''null'' then Some (JNull, drop 4 s)
      else if HasPrefix s ''true'' then Some (JBool True, drop 4 s)
      else if HasPrefix s ''false'' then Some (JBool False, drop 5 s)
      else if json_number (takeWhile number_char s) then Some (JNum (takeWhile number_char s), dropWhile number_char s)
      else None)"

text \<open>A value, the rest of an array after a bracket or a comma, and the rest of an object.\<close>

fun json_value :: "nat \<Rightarrow> string \<Rightarrow> (json \<times> string) option"
  and json_items :: "nat \<Rightarrow> string \<Rightarrow> (json list \<times> string) option"
  and json_members :: "nat \<Rightarrow> string \<Rightarrow> ((string \<times> json) list \<times> string) option" where
  "json_value 0 s = None"
| "json_value (Suc n) s =
     (case skip s of
        [] \<Rightarrow> None
      | c # s' \<Rightarrow>
          if c = CHR 0x22 then map_option (\<lambda>(r, t). (JStr r, t)) (raw_string s')
          else if c = CHR ''['' then
            (if HasPrefix (skip s') '']'' then Some (JArr [], tl (skip s'))
             else map_option (\<lambda>(vs, t). (JArr vs, t)) (json_items n s'))
          else if c = CHR ''{'' then
            (if HasPrefix (skip s') ''}'' then Some (JObj [], tl (skip s'))
             else map_option (\<lambda>(ms, t). (JObj ms, t)) (json_members n s'))
          else json_atom (c # s'))"
| "json_items 0 s = None"
| "json_items (Suc n) s =
     (case json_value n s of
        None \<Rightarrow> None
      | Some (v, t) \<Rightarrow>
          if HasPrefix (skip t) '']'' then Some ([v], tl (skip t))
          else if HasPrefix (skip t) '','' then map_option (\<lambda>(vs, u). (v # vs, u)) (json_items n (tl (skip t)))
          else None)"
| "json_members 0 s = None"
| "json_members (Suc n) s =
     (case skip s of
        [] \<Rightarrow> None
      | c # s' \<Rightarrow>
          if c \<noteq> CHR 0x22 then None
          else (case raw_string s' of
              None \<Rightarrow> None
            | Some (k, t) \<Rightarrow>
                if \<not> HasPrefix (skip t) '':'' then None
                else (case json_value n (tl (skip t)) of
                    None \<Rightarrow> None
                  | Some (v, u) \<Rightarrow>
                      if HasPrefix (skip u) ''}'' then Some ([(k, v)], tl (skip u))
                      else if HasPrefix (skip u) '','' then
                        map_option (\<lambda>(ms, w). ((k, v) # ms, w)) (json_members n (tl (skip u)))
                      else None)))"

definition json_parse :: "string \<Rightarrow> error + json" where
  "json_parse s =
     (case json_value (2 * length s + 2) s of
        None \<Rightarrow> Inl ''invalid character''
      | Some (v, t) \<Rightarrow> if skip t = [] then Inr v else Inl ''invalid character'')"

section \<open>Reading what was printed\<close>

definition raw_ok :: "string \<Rightarrow> bool" where
  "raw_ok r \<longleftrightarrow> raw_string (r @ [CHR 0x22]) = Some (r, [])"

lemma hex4_ok_append: "hex4_ok s \<Longrightarrow> hex4_ok (s @ u)"
  by (simp add: hex4_ok_def)

lemma raw_string_append: "raw_string s = Some (r, t) \<Longrightarrow> raw_string (s @ u) = Some (r, t @ u)"
proof (induction s arbitrary: r t rule: raw_string.induct)
  case (2 x s)
  show ?case
  proof (cases "x = CHR 0x22 \<or> x \<noteq> CHR 0x5C")
    case True
    then show ?thesis using 2 by (auto split: if_splits)
  next
    case False
    then obtain c s' where s: "s = c # s'" using "2.prems" by (cases s) simp_all
    let ?esc = "\<lambda>s'. c \<in> set ''bfnrt/'' \<or> c = CHR 0x22 \<or> c = CHR 0x5C \<or> (c = CHR ''u'' \<and> hex4_ok s')"
    have e: "?esc s'" and "map_option (\<lambda>(r, t). (x # c # r, t)) (raw_string s') = Some (r, t)"
      using "2.prems" False by (auto simp: s split: if_splits)
    then obtain r' where r: "raw_string s' = Some (r', t)" "r = x # c # r'" by auto
    have "raw_string (s' @ u) = Some (r', t @ u)" using "2.IH"(1) False s e r(1) by blast
    moreover have "?esc (s' @ u)" using e hex4_ok_append by blast
    ultimately show ?thesis using False by (simp add: s r(2))
  qed
qed simp

lemma raw_ok_string: "raw_ok r \<Longrightarrow> raw_string (r @ CHR 0x22 # t) = Some (r, t)"
  using raw_string_append [of "r @ [CHR 0x22]" r "[]" t] by (simp add: raw_ok_def)

fun json_ok :: "json \<Rightarrow> bool" where
  "json_ok (JNum n) \<longleftrightarrow> json_number n \<and> list_all number_char n"
| "json_ok (JStr r) \<longleftrightarrow> raw_ok r"
| "json_ok (JArr vs) \<longleftrightarrow> list_all json_ok vs"
| "json_ok (JObj ms) \<longleftrightarrow> list_all (\<lambda>(k, v). raw_ok k \<and> json_ok v) ms"
| "json_ok _ \<longleftrightarrow> True"

definition ends :: "string \<Rightarrow> bool" where
  "ends s \<longleftrightarrow> s = [] \<or> \<not> number_char (hd s)"

lemma ends_simps [simp]: "ends []" "ends (CHR '','' # s)" "ends (CHR '']'' # s)" "ends (CHR ''}'' # s)"
  by (simp_all add: ends_def number_char_def is_digit_def)

lemma skip_simps [simp]:
  "skip (CHR 0x22 # s) = CHR 0x22 # s" "skip (CHR ''['' # s) = CHR ''['' # s" "skip (CHR ''{'' # s) = CHR ''{'' # s"
  "skip (CHR '']'' # s) = CHR '']'' # s" "skip (CHR ''}'' # s) = CHR ''}'' # s" "skip (CHR '','' # s) = CHR '','' # s"
  "skip (CHR '':'' # s) = CHR '':'' # s" "skip (CHR ''n'' # s) = CHR ''n'' # s" "skip (CHR ''t'' # s) = CHR ''t'' # s"
  "skip (CHR ''f'' # s) = CHR ''f'' # s" "skip [] = []"
  by (simp_all add: skip_def)

lemma number_head:
  assumes "number_char c"
  shows "c \<notin> {CHR '' '', CHR 0x09, CHR 0x0A, CHR 0x0D}" and "c \<noteq> CHR 0x22" and "c \<noteq> CHR ''[''" and "c \<noteq> CHR '']''" and "c \<noteq> CHR ''{''"
    and "c \<noteq> CHR ''n''" and "c \<noteq> CHR ''t''" and "c \<noteq> CHR ''f''"
  using assms by (auto simp: number_char_def is_digit_def)

lemma print_head: "json_ok v \<Longrightarrow> \<exists>c s. json_print v = c # s \<and> skip (c # s @ t) = c # s @ t \<and> c \<noteq> CHR '']''"
proof (cases v)
  case (JNum n)
  assume ok: "json_ok v"
  then have "n \<noteq> []" by (auto simp: JNum json_number_def)
  then obtain c s where n: "n = c # s" by (cases n) simp_all
  have "number_char c" using ok by (simp add: JNum n)
  from number_head(1,4) [OF this] show ?thesis by (simp add: JNum n skip_def)
next
  case (JBool b)
  then show ?thesis by (cases b) simp_all
qed (simp_all add: quoted_def)

lemma json_atom_number:
  assumes "json_number n" and "list_all number_char n" and "ends t"
  shows "json_atom (n @ t) = Some (JNum n, t)"
proof -
  have "n \<noteq> []" using assms(1) by (auto simp: json_number_def)
  then obtain c s where n: "n = c # s" by (cases n) simp_all
  have "number_char c" using assms(2) by (simp add: n)
  note h = number_head(6-8) [OF this]
  have "takeWhile number_char (n @ t) = n" "dropWhile number_char (n @ t) = t"
    using assms(2,3) by (cases t; auto simp: list_all_iff ends_def takeWhile_append dropWhile_append)+
  then show ?thesis using h assms(1) by (simp add: json_atom_def n)
qed

lemma json_items_print:
  assumes "\<And>v n t. v \<in> set vs \<Longrightarrow> ends t \<Longrightarrow> 2 * length (json_print v) + 1 \<le> n \<Longrightarrow> json_value n (json_print v @ t) = Some (v, t)"
    and "vs \<noteq> []" and "2 * length (go_join '','' (map json_print vs)) + 2 \<le> n"
  shows "json_items n (go_join '','' (map json_print vs) @ CHR '']'' # t) = Some (vs, t)"
  using assms
proof (induction vs arbitrary: n)
  case (Cons v vs)
  obtain m where n: "n = Suc m" using Cons.prems(3) by (cases n) simp_all
  show ?case
  proof (cases vs)
    case Nil
    have "json_value m (json_print v @ CHR '']'' # t) = Some (v, CHR '']'' # t)"
      using Cons.prems(1) [of v "CHR '']'' # t" m] Cons.prems(3) by (simp add: n Nil)
    then show ?thesis by (simp add: n Nil)
  next
    case (Cons v' vs')
    let ?rest = "go_join '','' (map json_print vs) @ CHR '']'' # t"
    have j: "go_join '','' (json_print v # map json_print vs) = json_print v @ CHR '','' # go_join '','' (map json_print vs)" by (simp add: Cons)
    have "json_value m (json_print v @ CHR '','' # ?rest) = Some (v, CHR '','' # ?rest)"
      using Cons.prems(1) [of v "CHR '','' # ?rest" m] Cons.prems(3) by (simp add: n j)
    moreover have "json_items m ?rest = Some (vs, t)"
      using Cons.prems Cons.IH [of m] by (simp add: n j Cons)
    ultimately show ?thesis by (simp add: n j)
  qed
qed simp

definition print_member :: "string \<times> json \<Rightarrow> string" where
  "print_member = (\<lambda>(k, v). quoted k @ '':'' @ json_print v)"

lemma json_members_print:
  assumes "\<And>k v n t. (k, v) \<in> set ms \<Longrightarrow> ends t \<Longrightarrow> 2 * length (json_print v) + 1 \<le> n \<Longrightarrow> json_value n (json_print v @ t) = Some (v, t)"
    and "\<forall>(k, v)\<in>set ms. raw_ok k" and "ms \<noteq> []" and "2 * length (go_join '','' (map print_member ms)) + 2 \<le> n"
  shows "json_members n (go_join '','' (map print_member ms) @ CHR ''}'' # t) = Some (ms, t)"
  using assms
proof (induction ms arbitrary: n)
  case (Cons m ms)
  obtain k v where m: "m = (k, v)" by (cases m)
  obtain i where n: "n = Suc i" using Cons.prems(4) by (cases n) simp_all
  have pm: "print_member m = CHR 0x22 # k @ CHR 0x22 # CHR '':'' # json_print v" by (simp add: print_member_def m quoted_def)
  have raw: "raw_string (k @ CHR 0x22 # u) = Some (k, u)" for u using Cons.prems(2) raw_ok_string by (simp add: m)
  show ?case
  proof (cases ms)
    case Nil
    have "json_value i (json_print v @ CHR ''}'' # t) = Some (v, CHR ''}'' # t)"
      using Cons.prems(1) [of k v "CHR ''}'' # t" i] Cons.prems(4) by (simp add: n Nil m pm [unfolded m])
    then show ?thesis by (simp add: n Nil pm raw) (simp add: m)
  next
    case (Cons m' ms')
    let ?rest = "go_join '','' (map print_member ms) @ CHR ''}'' # t"
    have j: "go_join '','' (print_member m # map print_member ms) = print_member m @ CHR '','' # go_join '','' (map print_member ms)"
      by (simp add: Cons)
    have "json_value i (json_print v @ CHR '','' # ?rest) = Some (v, CHR '','' # ?rest)"
      using Cons.prems(1) [of k v "CHR '','' # ?rest" i] Cons.prems(4) j by (simp add: n m pm [unfolded m])
    moreover have "json_members i ?rest = Some (ms, t)"
    proof (rule Cons.IH)
      show "json_value n (json_print v @ t) = Some (v, t)" if "(k, v) \<in> set ms" "ends t" "2 * length (json_print v) + 1 \<le> n" for k v n t
        using that Cons.prems(1) by (meson list.set_intros(2))
    qed (use Cons.prems(2,4) j Cons in \<open>simp_all add: n\<close>)
    ultimately show ?thesis by (simp add: n j [unfolded pm] pm raw) (simp add: m)
  qed
qed simp

lemma json_value_print:
  "json_ok v \<Longrightarrow> ends t \<Longrightarrow> 2 * length (json_print v) + 1 \<le> n \<Longrightarrow> json_value n (json_print v @ t) = Some (v, t)"
proof (induction v arbitrary: n t)
  case JNull
  then show ?case by (cases n) (simp_all add: json_atom_def)
next
  case (JBool b)
  then show ?case by (cases n; cases b) (simp_all add: json_atom_def)
next
  case (JNum l)
  obtain c s where l: "l = c # s" using JNum.prems(1) by (cases l) (auto simp: json_number_def)
  have "number_char c" using JNum.prems(1) by (simp add: l)
  note h = number_head [OF this]
  have "skip (l @ t) = l @ t" using h(1) by (simp add: l skip_def)
  moreover have "json_atom (l @ t) = Some (JNum l, t)" using JNum.prems json_atom_number by simp
  ultimately show ?case using h JNum.prems(3) by (cases n) (simp_all add: l)
next
  case (JStr r)
  then show ?case by (cases n) (simp_all add: quoted_def raw_ok_string)
next
  case (JArr vs)
  obtain i where n: "n = Suc i" using JArr.prems(3) by (cases n) simp_all
  show ?case
  proof (cases "vs = []")
    case True
    then show ?thesis by (simp add: n)
  next
    case False
    then obtain v vs' where vs: "vs = v # vs'" by (cases vs) simp_all
    let ?j = "go_join '','' (map json_print vs)"
    have ok: "json_ok v" using JArr.prems(1) by (simp add: vs)
    obtain s where "?j = json_print v @ s" by (cases vs') (simp_all add: vs)
    then have "\<not> HasPrefix (skip (?j @ CHR '']'' # t)) '']''"
      using print_head [OF ok, of "s @ CHR '']'' # t"] by auto
    moreover have "json_items i (?j @ CHR '']'' # t) = Some (vs, t)"
      using JArr.IH JArr.prems False by (intro json_items_print) (auto simp: n list_all_iff)
    ultimately show ?thesis by (simp add: n)
  qed
next
  case (JObj ms)
  obtain i where n: "n = Suc i" using JObj.prems(3) by (cases n) simp_all
  have pm: "map (\<lambda>(k, v). quoted k @ '':'' @ json_print v) ms = map print_member ms" by (simp add: print_member_def)
  then have pm': "map (\<lambda>(k, v). quoted k @ CHR '':'' # json_print v) ms = map print_member ms" by simp
  show ?case
  proof (cases "ms = []")
    case True
    then show ?thesis by (simp add: n)
  next
    case False
    then obtain m ms' where ms: "ms = m # ms'" by (cases ms) simp_all
    let ?j = "go_join '','' (map print_member ms)"
    obtain s where "?j = CHR 0x22 # s" by (cases ms') (simp_all add: ms print_member_def quoted_def case_prod_unfold)
    then have "\<not> HasPrefix (skip (?j @ CHR ''}'' # t)) ''}''" by simp
    moreover have "json_members i (?j @ CHR ''}'' # t) = Some (ms, t)"
      using JObj.IH JObj.prems False by (intro json_members_print) (auto simp: n list_all_iff pm')
    ultimately show ?thesis by (simp add: n pm')
  qed
qed

text \<open>An encoder may put blanks, such as a line break, after the text.\<close>

lemma blank_ends: "skip b = [] \<Longrightarrow> ends b"
  using number_head(1) by (cases b) (auto simp: ends_def skip_def split: if_splits)

lemma json_parse_print: "json_ok v \<Longrightarrow> skip b = [] \<Longrightarrow> json_parse (json_print v @ b) = Inr v"
  using json_value_print [OF _ blank_ends, of v b "2 * length (json_print v @ b) + 2"] by (simp add: json_parse_def)

section \<open>Escaping\<close>

lemma hex_digit_facts:
  "list_all (\<lambda>k. hex_val (hex_digits ! k) = Some k \<and> hex_digits ! k \<noteq> CHR 0x22 \<and> hex_digits ! k \<noteq> CHR 0x5C
     \<and> \<not> (of_char (hex_digits ! k) :: nat) < 32) [0..<16]"
  by code_simp

lemma hex_digit:
  assumes "k < 16"
  shows "hex_val (hex_digits ! k) = Some k" and "hex_digits ! k \<noteq> CHR 0x22" and "hex_digits ! k \<noteq> CHR 0x5C"
    and "\<not> (of_char (hex_digits ! k) :: nat) < 32"
  using hex_digit_facts assms by (auto simp: list_all_iff)

lemma hex_zero: "hex_val (CHR ''0'') = Some 0"
  by code_simp

text \<open>The three ways a character is written.\<close>

lemma escape_cases:
  obtains (plain) "escape c = [c] \<and> c \<noteq> CHR 0x22 \<and> c \<noteq> CHR 0x5C \<and> \<not> (of_char c :: nat) < 32"
  | (short) d where "escape c = [CHR 0x5C, d] \<and> (d \<in> set ''nrt'' \<or> d = CHR 0x22 \<or> d = CHR 0x5C) \<and> unescape_char d = c"
  | (code) n where "escape c = [CHR 0x5C, CHR ''u'', CHR ''0'', CHR ''0'', hex_digits ! (n div 16), hex_digits ! (n mod 16)]
      \<and> n < 128 \<and> c = char_of (n :: nat)"
proof -
  let ?n = "of_char c :: nat"
  have inv: "c = char_of ?n" by simp
  consider "c = CHR 0x22 \<or> c = CHR 0x5C" | "c \<noteq> CHR 0x22" "c \<noteq> CHR 0x5C" "?n = 10" | "c \<noteq> CHR 0x22" "c \<noteq> CHR 0x5C" "?n = 13"
    | "c \<noteq> CHR 0x22" "c \<noteq> CHR 0x5C" "?n = 9"
    | "c \<noteq> CHR 0x22" "c \<noteq> CHR 0x5C" "?n \<noteq> 10" "?n \<noteq> 13" "?n \<noteq> 9" "?n < 32 \<or> c \<in> {CHR ''<'', CHR ''>'', CHR ''&''}"
    | "c \<noteq> CHR 0x22" "c \<noteq> CHR 0x5C" "\<not> ?n < 32" "c \<notin> {CHR ''<'', CHR ''>'', CHR ''&''}" by blast
  then show thesis
  proof cases
    case 1
    then have "escape c = [CHR 0x5C, c]" "unescape_char c = c" by (auto simp: escape_def unescape_char_def)
    then show thesis using 1 short by blast
  next
    case 2
    then have "escape c = [CHR 0x5C, CHR ''n'']" "c = char_of (10 :: nat)" using inv by (simp_all add: escape_def Let_def)
    then show thesis using short [of "CHR ''n''"] by (simp add: unescape_char_def)
  next
    case 3
    then have "escape c = [CHR 0x5C, CHR ''r'']" "c = char_of (13 :: nat)" using inv by (simp_all add: escape_def Let_def)
    then show thesis using short [of "CHR ''r''"] by (simp add: unescape_char_def)
  next
    case 4
    then have "escape c = [CHR 0x5C, CHR ''t'']" "c = char_of (9 :: nat)" using inv by (simp_all add: escape_def Let_def)
    then show thesis using short [of "CHR ''t''"] by (simp add: unescape_char_def)
  next
    case 5
    then have "?n < 128" by auto
    moreover have "escape c = [CHR 0x5C, CHR ''u'', CHR ''0'', CHR ''0'', hex_digits ! (?n div 16), hex_digits ! (?n mod 16)]"
      using 5 by (simp add: escape_def Let_def)
    ultimately show thesis using code [of ?n] inv by simp
  next
    case 6
    then have "escape c = [c]" by (simp add: escape_def Let_def)
    then show thesis using 6 plain by blast
  qed
qed

lemma four: "take 4 (a # b # c # d # s) = [a, b, c, d]" "drop 4 (a # b # c # d # s) = s"
  by (simp_all add: eval_nat_numeral)

lemma hex4_escape:
  assumes "n < 128"
  shows "hex4 (CHR ''0'' # CHR ''0'' # hex_digits ! (n div 16) # hex_digits ! (n mod 16) # s) = n"
    and "hex4_ok (CHR ''0'' # CHR ''0'' # hex_digits ! (n div 16) # hex_digits ! (n mod 16) # s)"
proof -
  have "n div 16 < 16" "n mod 16 < 16" using assms by simp_all
  note d = hex_digit(1) [OF this(1)] hex_digit(1) [OF this(2)]
  show "hex4 (CHR ''0'' # CHR ''0'' # hex_digits ! (n div 16) # hex_digits ! (n mod 16) # s) = n"
    by (simp add: hex4_def four d hex_zero)
  show "hex4_ok (CHR ''0'' # CHR ''0'' # hex_digits ! (n div 16) # hex_digits ! (n mod 16) # s)"
    by (simp add: hex4_ok_def four d hex_zero)
qed

lemma raw_string_escape: "raw_string (escape c @ s) = map_option (\<lambda>(r, t). (escape c @ r, t)) (raw_string s)"
proof (cases c rule: escape_cases)
  case (code n)
  then have n: "n < 128" "n div 16 < 16" "n mod 16 < 16" by auto
  note d = hex_digit(2-4) [OF n(2)] hex_digit(2-4) [OF n(3)]
  show ?thesis
    using hex4_escape(2) [OF n(1), of s] d conjunct1 [OF code]
    by (simp add: option.map_comp comp_def case_prod_unfold)
qed (auto simp: option.map_comp comp_def case_prod_unfold)

lemma raw_ok_escaped [simp]: "raw_ok (escaped s)"
proof -
  have "raw_string (escaped s @ CHR 0x22 # t) = Some (escaped s, t)" for t
    by (induction s) (simp_all add: escaped_def raw_string_escape)
  then show ?thesis by (simp add: raw_ok_def)
qed

lemma unescape_plain: "x \<noteq> CHR 0x5C \<Longrightarrow> unescape (x # s) = x # unescape s"
  by (cases s) simp_all

lemma unescape_escape: "unescape (escape c @ s) = c # unescape s"
proof (cases c rule: escape_cases)
  case plain
  then show ?thesis by (simp add: unescape_plain)
next
  case (short d)
  then have "d \<noteq> CHR ''u''" by auto
  then show ?thesis using short by simp
next
  case (code n)
  then have n: "n < 128" "utf8 n = [c]" by (simp_all add: utf8_def)
  then show ?thesis using hex4_escape(1) [OF n(1), of s] conjunct1 [OF code] code by (simp add: Let_def four del: char_of_eq_iff)
qed

lemma unescape_escaped [simp]: "unescape (escaped s) = s"
  by (induction s) (simp_all add: escaped_def unescape_escape)

section \<open>Requests and answers\<close>

definition jstr :: "string \<Rightarrow> json" where "jstr s = JStr (escaped s)"

text \<open>An empty list of arguments is a nil slice, as \<open>Subscribe\<close> builds it.\<close>

definition json_of_request :: "OperationRequest \<Rightarrow> json" where
  "json_of_request req = JObj [(''op'', jstr (Operation req)),
     (''args'', if Args req = [] then JNull else JArr (map jstr (Args req)))]"

definition OperationRequest_String :: "OperationRequest \<Rightarrow> string" where
  "OperationRequest_String req = json_print (json_of_request req)"

definition json_of_answer :: "SubscribeResponse \<Rightarrow> json" where
  "json_of_answer rsp = JObj [(''success'', JBool (Success rsp)), (''subscribe'', jstr (Subscribe rsp)),
     (''request'', json_of_request (sub_Request rsp))]"

definition SubscribeResponse_String :: "SubscribeResponse \<Rightarrow> string" where
  "SubscribeResponse_String rsp = json_print (json_of_answer rsp)"

text \<open>Fields are found whatever their case; \<open>null\<close> leaves a field as it is, and another type is an
  error.\<close>

definition key_is :: "string \<Rightarrow> string \<Rightarrow> bool" where
  "key_is name k \<longleftrightarrow> ToLower (unescape k) = name"

definition errType :: error where "errType = ''cannot unmarshal''"

fun set_string :: "json \<Rightarrow> string \<Rightarrow> error + string" where
  "set_string (JStr r) old = Inr (unescape r)"
| "set_string JNull old = Inr old"
| "set_string _ old = Inl errType"

fun set_bool :: "json \<Rightarrow> bool \<Rightarrow> error + bool" where
  "set_bool (JBool b) old = Inr b"
| "set_bool JNull old = Inr old"
| "set_bool _ old = Inl errType"

fun set_items :: "json list \<Rightarrow> error + string list" where
  "set_items [] = Inr []"
| "set_items (v # vs) =
     (case set_string v [] of Inl e \<Rightarrow> Inl e | Inr x \<Rightarrow> (case set_items vs of Inl e \<Rightarrow> Inl e | Inr xs \<Rightarrow> Inr (x # xs)))"

fun set_strings :: "json \<Rightarrow> error + string list" where
  "set_strings JNull = Inr []"
| "set_strings (JArr vs) = set_items vs"
| "set_strings _ = Inl errType"

fun request_fields :: "(string \<times> json) list \<Rightarrow> OperationRequest \<Rightarrow> error + OperationRequest" where
  "request_fields [] req = Inr req"
| "request_fields ((k, v) # ms) req =
     (if key_is ''op'' k then
        (case set_string v (Operation req) of Inl e \<Rightarrow> Inl e | Inr x \<Rightarrow> request_fields ms (req\<lparr>Operation := x\<rparr>))
      else if key_is ''args'' k then
        (case Args_UnmarshalJSON (\<lambda>_. set_strings v) (json_print v) of Inl e \<Rightarrow> Inl e
         | Inr xs \<Rightarrow> request_fields ms (req\<lparr>Args := xs\<rparr>))
      else request_fields ms req)"

fun set_request :: "json \<Rightarrow> OperationRequest \<Rightarrow> error + OperationRequest" where
  "set_request (JObj ms) req = request_fields ms req"
| "set_request JNull req = Inr req"
| "set_request _ req = Inl errType"

fun answer_fields :: "(string \<times> json) list \<Rightarrow> SubscribeResponse \<Rightarrow> error + SubscribeResponse" where
  "answer_fields [] rsp = Inr rsp"
| "answer_fields ((k, v) # ms) rsp =
     (if key_is ''success'' k then
        (case set_bool v (Success rsp) of Inl e \<Rightarrow> Inl e | Inr x \<Rightarrow> answer_fields ms (rsp\<lparr>Success := x\<rparr>))
      else if key_is ''subscribe'' k then
        (case set_string v (Subscribe rsp) of Inl e \<Rightarrow> Inl e | Inr x \<Rightarrow> answer_fields ms (rsp\<lparr>Subscribe := x\<rparr>))
      else if key_is ''request'' k then
        (case set_request v (sub_Request rsp) of Inl e \<Rightarrow> Inl e | Inr x \<Rightarrow> answer_fields ms (rsp\<lparr>sub_Request := x\<rparr>))
      else answer_fields ms rsp)"

fun set_answer :: "json \<Rightarrow> SubscribeResponse \<Rightarrow> error + SubscribeResponse" where
  "set_answer (JObj ms) rsp = answer_fields ms rsp"
| "set_answer JNull rsp = Inr rsp"
| "set_answer _ rsp = Inl errType"

definition zero_request :: OperationRequest where "zero_request = \<lparr>Operation = [], Args = []\<rparr>"

definition unmarshal_request :: "string \<Rightarrow> error + OperationRequest" where
  "unmarshal_request s = (case json_parse s of Inl e \<Rightarrow> Inl e | Inr v \<Rightarrow> set_request v zero_request)"

definition unmarshal_answer :: "string \<Rightarrow> error + SubscribeResponse" where
  "unmarshal_answer s =
     (case json_parse s of Inl e \<Rightarrow> Inl e | Inr v \<Rightarrow> set_answer v \<lparr>Success = False, Subscribe = [], sub_Request = zero_request\<rparr>)"

section \<open>Round trips\<close>

lemma keys_raw [simp]:
  "raw_ok ''op''" "raw_ok ''args''" "raw_ok ''success''" "raw_ok ''subscribe''" "raw_ok ''request''"
  by code_simp+

lemma keys_found [simp]:
  "key_is ''op'' ''op''" "\<not> key_is ''op'' ''args''" "key_is ''args'' ''args''"
  "key_is ''success'' ''success''" "\<not> key_is ''success'' ''subscribe''" "key_is ''subscribe'' ''subscribe''"
  "\<not> key_is ''success'' ''request''" "\<not> key_is ''subscribe'' ''request''" "key_is ''request'' ''request''"
  by code_simp+

lemma json_of_ok: "json_ok (json_of_request req)" "json_ok (json_of_answer rsp)"
  by (simp_all add: json_of_request_def json_of_answer_def jstr_def list_all_iff)

lemma set_items_jstr: "set_items (map jstr xs) = Inr xs"
  by (induction xs) (simp_all add: jstr_def)

lemma set_request_of: "set_request (json_of_request req) old = Inr req"
  by (simp add: json_of_request_def jstr_def [of "Operation req"] Args_UnmarshalJSON_def stringPattern_def set_items_jstr)

lemma set_answer_of: "set_answer (json_of_answer rsp) old = Inr rsp"
  by (simp add: json_of_answer_def jstr_def set_request_of)

lemma unmarshal_request_String: "skip b = [] \<Longrightarrow> unmarshal_request (OperationRequest_String req @ b) = Inr req"
  by (simp add: unmarshal_request_def OperationRequest_String_def json_parse_print json_of_ok set_request_of)

lemma unmarshal_answer_String: "skip b = [] \<Longrightarrow> unmarshal_answer (SubscribeResponse_String rsp @ b) = Inr rsp"
  by (simp add: unmarshal_answer_def SubscribeResponse_String_def json_parse_print json_of_ok set_answer_of)

lemma request_pattern: "Contains (OperationRequest_String req @ b) (quoted ''op'')"
proof -
  have "\<exists>u. OperationRequest_String req @ b = ''{'' @ quoted ''op'' @ u"
    by (simp add: OperationRequest_String_def json_of_request_def quoted_def)
  then show ?thesis using Contains_iff by blast
qed

lemma answer_pattern: "SubPattern (SubscribeResponse_String rsp @ b)"
proof -
  have "\<exists>u. SubscribeResponse_String rsp @ b = (''{'' @ quoted ''success'' @ '':'' @ json_print (JBool (Success rsp)) @ '','') @ quoted ''subscribe'' @ u"
    by (simp add: SubscribeResponse_String_def json_of_answer_def quoted_def)
  then show ?thesis unfolding SubPattern_def Contains_iff by blast
qed

end
