(* ===== verification/Texts.thy ===== *)
theory Texts
  imports Json
begin

text \<open>
  The texts of the responses of \<open>models/*.go\<close>: their \<open>String\<close> methods, which are what \<open>WriteJSON\<close>
  sends, and how the decoder of the client reads them.

  The rows of a table and the type of a time stamp belong to another package: their encoders and
  decoders are arguments. A map is printed by its keys in ascending order. The model does not
  tell an empty slice or map from a nil one and prints it as nil.
\<close>

section \<open>Printing\<close>

definition json_map :: "('a \<Rightarrow> json) \<Rightarrow> (string, 'a) gomap \<Rightarrow> json" where
  "json_map enc m = JObj (map (\<lambda>(k, v). (escaped k, enc v)) (sort_key fst m))"

definition nil_map :: "('a \<Rightarrow> json) \<Rightarrow> (string, 'a) gomap \<Rightarrow> json" where
  "nil_map enc m = (if m = [] then JNull else json_map enc m)"

definition nil_list :: "('a \<Rightarrow> json) \<Rightarrow> 'a list \<Rightarrow> json" where
  "nil_list enc xs = (if xs = [] then JNull else JArr (map enc xs))"

text \<open>A field with \<open>omitempty\<close>.\<close>

definition unless_empty :: "bool \<Rightarrow> string \<times> json \<Rightarrow> (string \<times> json) list" where
  "unless_empty unset f = (if unset then [] else [f])"

definition json_of_info :: "(int \<Rightarrow> json) \<Rightarrow> InfoResponse \<Rightarrow> json" where
  "json_of_info enc_time r = JObj [(''info'', jstr (Info r)), (''version'', jstr (Version r)),
     (''timestamp'', enc_time (info_Timestamp r)), (''docs'', jstr (Docs r)), (''limit'', nil_map id (Limit r)),
     (''frontId'', jstr (FrontID r)), (''sessionId'', jstr (SessionID r))]"

definition InfoResponse_String :: "(int \<Rightarrow> json) \<Rightarrow> InfoResponse \<Rightarrow> string" where
  "InfoResponse_String enc_time r = json_print (json_of_info enc_time r)"

definition json_of_auth :: "AuthResponse \<Rightarrow> json" where
  "json_of_auth r = JObj [(''success'', JBool (auth_Success r)), (''request'', nil_map id (auth_Request r))]"

definition AuthResponse_String :: "AuthResponse \<Rightarrow> string" where
  "AuthResponse_String r = json_print (json_of_auth r)"

definition json_of_error :: "ErrResponse \<Rightarrow> json" where
  "json_of_error r = JObj ([(''error'', jstr (Error r))]
     @ unless_empty (Status r = 0) (''status'', JNum (show_int (Status r)))
     @ unless_empty (Meta r = []) (''meta'', json_map id (Meta r))
     @ [(''request'', json_of_request (err_Request r))])"

definition ErrResponse_String :: "ErrResponse \<Rightarrow> string" where
  "ErrResponse_String r = json_print (json_of_error r)"

definition json_of_table :: "('d \<Rightarrow> json) \<Rightarrow> 'd dataResponse \<Rightarrow> json" where
  "json_of_table enc_row r = JObj ([(''table'', jstr (Table r)), (''action'', jstr (Action r))]
     @ unless_empty (Keys r = []) (''keys'', nil_list jstr (Keys r))
     @ unless_empty (Types r = []) (''types'', json_map jstr (Types r))
     @ unless_empty (ForeignKeys r = []) (''foreignKeys'', json_map jstr (ForeignKeys r))
     @ unless_empty (Attributes r = []) (''attributes'', json_map jstr (Attributes r))
     @ unless_empty (Filter r = []) (''filter'', json_map jstr (Filter r))
     @ [(''data'', nil_list enc_row (Data r))])"

definition table_String :: "('d \<Rightarrow> json) \<Rightarrow> 'd dataResponse \<Rightarrow> string" where
  "table_String enc_row r = json_print (json_of_table enc_row r)"

section \<open>Reading\<close>

text \<open>An object, field by field; unknown fields are skipped.\<close>

type_synonym 'a field = "string \<times> (json \<Rightarrow> 'a \<Rightarrow> error + 'a)"

fun set_fields :: "'a field list \<Rightarrow> (string \<times> json) list \<Rightarrow> 'a \<Rightarrow> error + 'a" where
  "set_fields fs [] x = Inr x"
| "set_fields fs ((k, v) # ms) x =
     (case find (\<lambda>f. key_is (fst f) k) fs of
        None \<Rightarrow> set_fields fs ms x
      | Some f \<Rightarrow> (case snd f v x of Inl e \<Rightarrow> Inl e | Inr y \<Rightarrow> set_fields fs ms y))"

definition set_struct :: "'a field list \<Rightarrow> json \<Rightarrow> 'a \<Rightarrow> error + 'a" where
  "set_struct fs v x = (case v of JObj ms \<Rightarrow> set_fields fs ms x | JNull \<Rightarrow> Inr x | _ \<Rightarrow> Inl errType)"

text \<open>A field of a struct, given by what it reads and how it is stored.\<close>

definition set_field :: "(json \<Rightarrow> 'b \<Rightarrow> error + 'b) \<Rightarrow> ('a \<Rightarrow> 'b) \<Rightarrow> ('b \<Rightarrow> 'a \<Rightarrow> 'a) \<Rightarrow> json \<Rightarrow> 'a \<Rightarrow> error + 'a" where
  "set_field dec get put v x = (case dec v (get x) of Inl e \<Rightarrow> Inl e | Inr y \<Rightarrow> Inr (put y x))"

text \<open>An integer, without fraction or exponent and within 64 bits.\<close>

fun set_int :: "json \<Rightarrow> int \<Rightarrow> error + int" where
  "set_int (JNum n) old = (case ParseInt n of (i, None) \<Rightarrow> Inr i | (_, Some _) \<Rightarrow> Inl errType)"
| "set_int JNull old = Inr old"
| "set_int _ old = Inl errType"

fun set_pairs :: "(json \<Rightarrow> error + 'a) \<Rightarrow> (string \<times> json) list \<Rightarrow> (string, 'a) gomap \<Rightarrow> error + (string, 'a) gomap" where
  "set_pairs dec [] m = Inr m"
| "set_pairs dec ((k, v) # ms) m =
     (case dec v of Inl e \<Rightarrow> Inl e | Inr x \<Rightarrow> set_pairs dec ms (AList.update (unescape k) x m))"

definition set_map :: "(json \<Rightarrow> error + 'a) \<Rightarrow> json \<Rightarrow> (string, 'a) gomap \<Rightarrow> error + (string, 'a) gomap" where
  "set_map dec v m = (case v of JObj ms \<Rightarrow> set_pairs dec ms m | JNull \<Rightarrow> Inr [] | _ \<Rightarrow> Inl errType)"

fun set_elems :: "(json \<Rightarrow> error + 'a) \<Rightarrow> json list \<Rightarrow> error + 'a list" where
  "set_elems dec [] = Inr []"
| "set_elems dec (v # vs) =
     (case dec v of Inl e \<Rightarrow> Inl e | Inr x \<Rightarrow> (case set_elems dec vs of Inl e \<Rightarrow> Inl e | Inr xs \<Rightarrow> Inr (x # xs)))"

definition set_list :: "(json \<Rightarrow> error + 'a) \<Rightarrow> json \<Rightarrow> 'a list \<Rightarrow> error + 'a list" where
  "set_list dec v old = (case v of JArr vs \<Rightarrow> set_elems dec vs | JNull \<Rightarrow> Inr [] | _ \<Rightarrow> Inl errType)"

definition new_string :: "json \<Rightarrow> error + string" where "new_string v = set_string v []"

definition info_struct :: "(json \<Rightarrow> int \<Rightarrow> error + int) \<Rightarrow> InfoResponse field list" where
  "info_struct dec_time =
     [(''info'', set_field set_string Info (\<lambda>x r. r\<lparr>Info := x\<rparr>)),
      (''version'', set_field set_string Version (\<lambda>x r. r\<lparr>Version := x\<rparr>)),
      (''timestamp'', set_field dec_time info_Timestamp (\<lambda>x r. r\<lparr>info_Timestamp := x\<rparr>)),
      (''docs'', set_field set_string Docs (\<lambda>x r. r\<lparr>Docs := x\<rparr>)),
      (''limit'', set_field (set_map Inr) Limit (\<lambda>x r. r\<lparr>Limit := x\<rparr>)),
      (''frontid'', set_field set_string FrontID (\<lambda>x r. r\<lparr>FrontID := x\<rparr>)),
      (''sessionid'', set_field set_string SessionID (\<lambda>x r. r\<lparr>SessionID := x\<rparr>))]"

definition auth_struct :: "AuthResponse field list" where
  "auth_struct =
     [(''success'', set_field set_bool auth_Success (\<lambda>x r. r\<lparr>auth_Success := x\<rparr>)),
      (''request'', set_field (set_map Inr) auth_Request (\<lambda>x r. r\<lparr>auth_Request := x\<rparr>))]"

definition err_struct :: "ErrResponse field list" where
  "err_struct =
     [(''error'', set_field set_string Error (\<lambda>x r. r\<lparr>Error := x\<rparr>)),
      (''status'', set_field set_int Status (\<lambda>x r. r\<lparr>Status := x\<rparr>)),
      (''meta'', set_field (set_map Inr) Meta (\<lambda>x r. r\<lparr>Meta := x\<rparr>)),
      (''request'', set_field set_request err_Request (\<lambda>x r. r\<lparr>err_Request := x\<rparr>))]"

definition table_struct :: "(json \<Rightarrow> error + 'd) \<Rightarrow> 'd dataResponse field list" where
  "table_struct dec_row =
     [(''table'', set_field set_string Table (\<lambda>x r. r\<lparr>Table := x\<rparr>)),
      (''action'', set_field set_string Action (\<lambda>x r. r\<lparr>Action := x\<rparr>)),
      (''keys'', set_field (set_list new_string) Keys (\<lambda>x r. r\<lparr>Keys := x\<rparr>)),
      (''types'', set_field (set_map new_string) Types (\<lambda>x r. r\<lparr>Types := x\<rparr>)),
      (''foreignkeys'', set_field (set_map new_string) ForeignKeys (\<lambda>x r. r\<lparr>ForeignKeys := x\<rparr>)),
      (''attributes'', set_field (set_map new_string) Attributes (\<lambda>x r. r\<lparr>Attributes := x\<rparr>)),
      (''filter'', set_field (set_map new_string) Filter (\<lambda>x r. r\<lparr>Filter := x\<rparr>)),
      (''data'', set_field (set_list dec_row) Data (\<lambda>x r. r\<lparr>Data := x\<rparr>))]"

definition unmarshal_struct :: "'a field list \<Rightarrow> 'a \<Rightarrow> string \<Rightarrow> error + 'a" where
  "unmarshal_struct fs zero s = (case json_parse s of Inl e \<Rightarrow> Inl e | Inr v \<Rightarrow> set_struct fs v zero)"

text \<open>The zero values the client decodes into; \<open>zero_time\<close> is the zero of the type of times.\<close>

definition unmarshal_info :: "(json \<Rightarrow> int \<Rightarrow> error + int) \<Rightarrow> int \<Rightarrow> string \<Rightarrow> error + InfoResponse" where
  "unmarshal_info dec_time zero_time = unmarshal_struct (info_struct dec_time)
     \<lparr>Info = [], Version = [], info_Timestamp = zero_time, Docs = [], Limit = [], FrontID = [], SessionID = []\<rparr>"

definition unmarshal_auth :: "string \<Rightarrow> error + AuthResponse" where
  "unmarshal_auth = unmarshal_struct auth_struct \<lparr>auth_Success = False, auth_Request = []\<rparr>"

definition unmarshal_error :: "string \<Rightarrow> error + ErrResponse" where
  "unmarshal_error = unmarshal_struct err_struct \<lparr>Error = [], Status = 0, Meta = [], err_Request = zero_request\<rparr>"

definition unmarshal_table :: "(json \<Rightarrow> error + 'd) \<Rightarrow> string \<Rightarrow> error + 'd dataResponse" where
  "unmarshal_table dec_row = unmarshal_struct (table_struct dec_row) emptyResponse"

section \<open>Round trips\<close>

definition map_sorted :: "(string, 'a) gomap \<Rightarrow> bool" where
  "map_sorted m \<longleftrightarrow> sorted (map fst m) \<and> distinct (map fst m)"

definition reads_back :: "('a \<Rightarrow> json) \<Rightarrow> (json \<Rightarrow> error + 'a) \<Rightarrow> 'a \<Rightarrow> bool" where
  "reads_back enc dec x \<longleftrightarrow> json_ok (enc x) \<and> dec (enc x) = Inr x"

lemma reads_back_basic [simp]: "reads_back jstr new_string s" "json_ok v \<Longrightarrow> reads_back id Inr v"
  by (simp_all add: reads_back_def jstr_def new_string_def)

lemma set_elems_map: "\<forall>x\<in>set xs. reads_back enc dec x \<Longrightarrow> set_elems dec (map enc xs) = Inr xs"
  by (induction xs) (simp_all add: reads_back_def)

lemma update_append: "k \<notin> fst ` set m \<Longrightarrow> AList.update k v m = m @ [(k, v)]"
  by (induction m) auto

lemma set_pairs_map:
  assumes "\<forall>x\<in>snd ` set ms. reads_back enc dec x" "distinct (map fst (m @ ms))"
  shows "set_pairs dec (map (\<lambda>(k, v). (escaped k, enc v)) ms) m = Inr (m @ ms)"
  using assms
proof (induction ms arbitrary: m)
  case (Cons p ms)
  obtain k v where p: "p = (k, v)" by fastforce
  have "k \<notin> fst ` set m" using Cons.prems(2) by (auto simp: p)
  then show ?case using Cons.IH [of "m @ [(k, v)]"] Cons.prems by (simp add: p reads_back_def update_append)
qed simp

lemma set_map_map:
  assumes "\<forall>x\<in>snd ` set m. reads_back enc dec x" "map_sorted m"
  shows "set_map dec (json_map enc m) [] = Inr m" "set_map dec (nil_map enc m) [] = Inr m"
    "json_ok (json_map enc m)" "json_ok (nil_map enc m)"
proof -
  have s: "sort_key fst m = m" using assms(2) by (simp add: map_sorted_def sort_key_id_if_sorted)
  show a: "set_map dec (json_map enc m) [] = Inr m"
    using set_pairs_map [of m enc dec "[]"] assms by (simp add: set_map_def json_map_def s map_sorted_def)
  show "set_map dec (nil_map enc m) [] = Inr m" using a by (simp add: nil_map_def) (simp add: set_map_def)
  show o: "json_ok (json_map enc m)" using assms(1) by (auto simp: json_map_def s list_all_iff reads_back_def)
  show "json_ok (nil_map enc m)" using o by (simp add: nil_map_def)
qed

lemma set_list_map:
  assumes "\<forall>x\<in>set xs. reads_back enc dec x"
  shows "set_list dec (nil_list enc xs) old = Inr xs" "json_ok (nil_list enc xs)"
  using set_elems_map [OF assms] assms by (auto simp: set_list_def nil_list_def list_all_iff reads_back_def)

lemma field_names [simp]:
  "raw_ok ''info''" "raw_ok ''version''" "raw_ok ''timestamp''" "raw_ok ''docs''" "raw_ok ''limit''"
  "raw_ok ''frontId''" "raw_ok ''sessionId''" "raw_ok ''success''" "raw_ok ''request''" "raw_ok ''error''"
  "raw_ok ''status''" "raw_ok ''meta''" "raw_ok ''table''" "raw_ok ''action''" "raw_ok ''keys''"
  "raw_ok ''types''" "raw_ok ''foreignKeys''" "raw_ok ''attributes''" "raw_ok ''filter''" "raw_ok ''data''"
  "raw_ok ''op''" "raw_ok ''args''" "raw_ok ''subscribe''" "raw_ok ''startup''" "raw_ok ''clients''"
  "raw_ok ''uptime''"
  by code_simp+

lemma lower_names:
  "ToLower (unescape ''info'') = ''info''" "ToLower (unescape ''version'') = ''version''" "ToLower (unescape ''timestamp'') = ''timestamp''"
  "ToLower (unescape ''docs'') = ''docs''" "ToLower (unescape ''limit'') = ''limit''" "ToLower (unescape ''frontId'') = ''frontid''"
  "ToLower (unescape ''sessionId'') = ''sessionid''" "ToLower (unescape ''success'') = ''success''" "ToLower (unescape ''request'') = ''request''"
  "ToLower (unescape ''error'') = ''error''" "ToLower (unescape ''status'') = ''status''" "ToLower (unescape ''meta'') = ''meta''"
  "ToLower (unescape ''table'') = ''table''" "ToLower (unescape ''action'') = ''action''" "ToLower (unescape ''keys'') = ''keys''"
  "ToLower (unescape ''types'') = ''types''" "ToLower (unescape ''foreignKeys'') = ''foreignkeys''" "ToLower (unescape ''attributes'') = ''attributes''"
  "ToLower (unescape ''filter'') = ''filter''" "ToLower (unescape ''data'') = ''data''" "ToLower (unescape ''op'') = ''op''"
  "ToLower (unescape ''args'') = ''args''" "ToLower (unescape ''subscribe'') = ''subscribe''" "ToLower (unescape ''startup'') = ''startup''"
  "ToLower (unescape ''clients'') = ''clients''" "ToLower (unescape ''uptime'') = ''uptime''"
  by code_simp+

lemma field_keys [simp]:
  "key_is n ''info'' \<longleftrightarrow> n = ''info''" "key_is n ''version'' \<longleftrightarrow> n = ''version''" "key_is n ''timestamp'' \<longleftrightarrow> n = ''timestamp''"
  "key_is n ''docs'' \<longleftrightarrow> n = ''docs''" "key_is n ''limit'' \<longleftrightarrow> n = ''limit''" "key_is n ''frontId'' \<longleftrightarrow> n = ''frontid''"
  "key_is n ''sessionId'' \<longleftrightarrow> n = ''sessionid''" "key_is n ''success'' \<longleftrightarrow> n = ''success''" "key_is n ''request'' \<longleftrightarrow> n = ''request''"
  "key_is n ''error'' \<longleftrightarrow> n = ''error''" "key_is n ''status'' \<longleftrightarrow> n = ''status''" "key_is n ''meta'' \<longleftrightarrow> n = ''meta''"
  "key_is n ''table'' \<longleftrightarrow> n = ''table''" "key_is n ''action'' \<longleftrightarrow> n = ''action''" "key_is n ''keys'' \<longleftrightarrow> n = ''keys''"
  "key_is n ''types'' \<longleftrightarrow> n = ''types''" "key_is n ''foreignKeys'' \<longleftrightarrow> n = ''foreignkeys''" "key_is n ''attributes'' \<longleftrightarrow> n = ''attributes''"
  "key_is n ''filter'' \<longleftrightarrow> n = ''filter''" "key_is n ''data'' \<longleftrightarrow> n = ''data''" "key_is n ''op'' \<longleftrightarrow> n = ''op''"
  "key_is n ''args'' \<longleftrightarrow> n = ''args''" "key_is n ''subscribe'' \<longleftrightarrow> n = ''subscribe''" "key_is n ''startup'' \<longleftrightarrow> n = ''startup''"
  "key_is n ''clients'' \<longleftrightarrow> n = ''clients''" "key_is n ''uptime'' \<longleftrightarrow> n = ''uptime''"
  unfolding key_is_def lower_names by (rule eq_commute)+

lemmas reading = set_struct_def set_field_def unless_empty_def

lemma jstr_read [simp]: "set_string (jstr s) old = Inr s" "json_ok (jstr s)"
  by (simp_all add: jstr_def)

lemma unmarshal_print:
  "json_ok v \<Longrightarrow> skip b = [] \<Longrightarrow> unmarshal_struct fs zero (json_print v @ b) = set_struct fs v zero"
  by (simp add: unmarshal_struct_def json_parse_print)

lemma info_read:
  assumes "\<forall>v\<in>snd ` set (Limit r). json_ok v" "map_sorted (Limit r)"
    and "json_ok (enc_time (info_Timestamp r))" "dec_time (enc_time (info_Timestamp r)) zero_time = Inr (info_Timestamp r)"
    and "skip b = []"
  shows "unmarshal_info dec_time zero_time (InfoResponse_String enc_time r @ b) = Inr r"
proof -
  note m = set_map_map [of "Limit r" id Inr, OF _ assms(2)]
  have j: "json_ok (json_of_info enc_time r)" using m(4) assms(1,3) by (simp add: json_of_info_def list_all_iff)
  show ?thesis
    using m(2) assms(1,4)
    unfolding unmarshal_info_def InfoResponse_String_def unmarshal_print [OF j assms(5)]
    by (simp add: json_of_info_def info_struct_def reading)
qed

lemma auth_read:
  assumes "\<forall>v\<in>snd ` set (auth_Request r). json_ok v" "map_sorted (auth_Request r)" "skip b = []"
  shows "unmarshal_auth (AuthResponse_String r @ b) = Inr r"
proof -
  note m = set_map_map [of "auth_Request r" id Inr, OF _ assms(2)]
  have j: "json_ok (json_of_auth r)" using m(4) assms(1) by (simp add: json_of_auth_def list_all_iff)
  show ?thesis
    using m(2) assms(1)
    unfolding unmarshal_auth_def AuthResponse_String_def unmarshal_print [OF j assms(3)]
    by (simp add: json_of_auth_def auth_struct_def reading)
qed

lemma digits_head: "0 < n \<Longrightarrow> hd (show_nat_digits n) \<noteq> CHR ''0''"
proof (induction n rule: show_nat_digits.induct)
  case (1 n)
  have z: "char_of (48 + k) \<noteq> CHR ''0''" if "0 < k" "k < 10" for k :: nat
  proof
    assume "char_of (48 + k) = CHR ''0''"
    then have "(of_char (char_of (48 + k) :: char) :: nat) = of_char (CHR ''0'')" by simp
    then show False using that by (simp add: of_char_digit)
  qed
  show ?case
  proof (cases "n < 10")
    case True
    then show ?thesis using z 1 by (simp add: show_nat_digits.simps [of n])
  next
    case False
    moreover have "show_nat_digits (n div 10) \<noteq> []" using show_nat_digits_ok by (simp add: all_digits_def)
    ultimately show ?thesis using 1 by (simp add: show_nat_digits.simps [of n])
  qed
qed

lemma digits_number:
  assumes "list_all is_digit ds" "ds \<noteq> []" "hd ds = CHR ''0'' \<longrightarrow> length ds = 1"
  shows "json_number ds" "json_number (CHR ''-'' # ds)" "list_all number_char ds"
proof -
  have t: "takeWhile is_digit ds = ds" "dropWhile is_digit ds = []"
    using assms(1) by (simp_all add: takeWhile_eq_all_conv list_all_iff)
  have h: "\<not> HasPrefix ds ''-''" using assms(1,2) by (cases ds) (auto simp: is_digit_def)
  show "json_number ds" unfolding json_number_def Let_def using assms(2,3) h by (simp add: t)
  show "json_number (CHR ''-'' # ds)" unfolding json_number_def Let_def using assms(2,3) by (simp add: t)
  show "list_all number_char ds" using assms(1) by (simp add: list_all_iff number_char_def)
qed

lemma show_int_number: "json_number (show_int i)" "list_all number_char (show_int i)"
proof -
  have d: "list_all is_digit (show_nat_digits n)" "show_nat_digits n \<noteq> []"
    "hd (show_nat_digits n) = CHR ''0'' \<longrightarrow> length (show_nat_digits n) = 1" for n
    using show_nat_digits_ok [of n] digits_head [of n]
    by (cases "n = 0"; auto simp: all_digits_def show_nat_digits.simps [of 0])+
  show "json_number (show_int i)" "list_all number_char (show_int i)"
    using digits_number [OF d] by (simp_all add: show_int_def number_char_def)
qed

lemma error_read:
  assumes "\<forall>v\<in>snd ` set (Meta r). json_ok v" "map_sorted (Meta r)" "- (2 ^ 63) \<le> Status r" "Status r < 2 ^ 63" "skip b = []"
  shows "json_ok (json_of_error r)" "unmarshal_error (ErrResponse_String r @ b) = Inr r"
proof -
  note m = set_map_map [of "Meta r" id Inr, OF _ assms(2)]
  show j: "json_ok (json_of_error r)"
    using m(3) assms(1) by (simp add: json_of_error_def list_all_iff unless_empty_def show_int_number [unfolded list_all_iff] json_of_ok)
  show "unmarshal_error (ErrResponse_String r @ b) = Inr r"
    using m(1) assms(1) ParseInt_show [of "Status r"] assms(3,4) set_request_of [of "err_Request r"]
    unfolding unmarshal_error_def ErrResponse_String_def unmarshal_print [OF j assms(5)]
    by (simp add: json_of_error_def err_struct_def reading)
qed

lemma table_read:
  assumes "\<forall>x\<in>set (Data r). reads_back enc_row dec_row x" and "skip b = []"
    and "map_sorted (Types r)" "map_sorted (ForeignKeys r)" "map_sorted (Attributes r)" "map_sorted (Filter r)"
  shows "unmarshal_table dec_row (table_String enc_row r @ b) = Inr r"
proof -
  note m = set_map_map [of _ jstr new_string, simplified]
  note l = set_list_map [of "Data r" enc_row dec_row, OF assms(1)] set_list_map [of "Keys r" jstr new_string, simplified]
  have j: "json_ok (json_of_table enc_row r)"
    using l(2,4) m(3) [OF assms(3)] m(3) [OF assms(4)] m(3) [OF assms(5)] m(3) [OF assms(6)]
    by (simp add: json_of_table_def list_all_iff unless_empty_def)
  show ?thesis
    using l(1,3) m(1) [OF assms(3)] m(1) [OF assms(4)] m(1) [OF assms(5)] m(1) [OF assms(6)]
    unfolding unmarshal_table_def table_String_def unmarshal_print [OF j assms(2)]
    by (simp add: json_of_table_def table_struct_def reading emptyResponse_def emptyTable_def tableResponse.defs dataResponse.defs)
qed

text \<open>The responses whose texts can be read back.\<close>

definition info_ok :: "(int \<Rightarrow> json) \<Rightarrow> (json \<Rightarrow> int \<Rightarrow> error + int) \<Rightarrow> int \<Rightarrow> InfoResponse \<Rightarrow> bool" where
  "info_ok enc_time dec_time zero_time r \<longleftrightarrow> (\<forall>v\<in>snd ` set (Limit r). json_ok v) \<and> map_sorted (Limit r)
     \<and> json_ok (enc_time (info_Timestamp r)) \<and> dec_time (enc_time (info_Timestamp r)) zero_time = Inr (info_Timestamp r)"

definition auth_ok :: "AuthResponse \<Rightarrow> bool" where
  "auth_ok r \<longleftrightarrow> (\<forall>v\<in>snd ` set (auth_Request r). json_ok v) \<and> map_sorted (auth_Request r)"

definition error_ok :: "ErrResponse \<Rightarrow> bool" where
  "error_ok r \<longleftrightarrow> (\<forall>v\<in>snd ` set (Meta r). json_ok v) \<and> map_sorted (Meta r) \<and> - (2 ^ 63) \<le> Status r \<and> Status r < 2 ^ 63"

definition table_ok :: "('d \<Rightarrow> json) \<Rightarrow> (json \<Rightarrow> error + 'd) \<Rightarrow> 'd dataResponse \<Rightarrow> bool" where
  "table_ok enc_row dec_row r \<longleftrightarrow> (\<forall>x\<in>set (Data r). reads_back enc_row dec_row x) \<and> map_sorted (Types r)
     \<and> map_sorted (ForeignKeys r) \<and> map_sorted (Attributes r) \<and> map_sorted (Filter r)"

lemma texts_read:
  assumes "skip b = []"
  shows "info_ok et dt z i \<Longrightarrow> unmarshal_info dt z (InfoResponse_String et i @ b) = Inr i"
    "auth_ok a \<Longrightarrow> unmarshal_auth (AuthResponse_String a @ b) = Inr a"
    "error_ok e \<Longrightarrow> unmarshal_error (ErrResponse_String e @ b) = Inr e"
    "table_ok enc dec r \<Longrightarrow> unmarshal_table dec (table_String enc r @ b) = Inr r"
  using assms by (auto simp: info_ok_def auth_ok_def error_ok_def table_ok_def intro: info_read auth_read error_read table_read)

end
