(* ===== verification/Handshake.thy ===== *)
theory Handshake
  imports ServerFacts Texts
begin

text \<open>
  The two ends of a subscription: the request of \<open>client.go\<close>, the answers of \<open>server.go\<close>, and
  what the client makes of them; first for any encoding, then for the texts of \<^theory_text>\<open>Json\<close>.
\<close>

section \<open>The answers\<close>

text \<open>A frame the client takes for the answer to a subscription.\<close>

definition sub_only :: "string \<Rightarrow> bool" where
  "sub_only msg \<longleftrightarrow> \<not> is_heartbeat msg \<and> \<not> InfoPattern msg \<and> SubPattern msg"

definition readable :: "decoders \<Rightarrow> (SubscribeResponse \<Rightarrow> string) \<Rightarrow> SubscribeResponse \<Rightarrow> bool" where
  "readable dec enc rsp \<longleftrightarrow> sub_only (enc rsp) \<and> dec_sub dec (enc rsp) = Inr rsp"

lemma client_message_sub:
  assumes "readable dec enc rsp" and "handlSubMsg dec (enc rsp) c = (c', evs)"
  shows "messageHandler dec (Frame (enc rsp) # fs) (c, w) =
    go_bind (messageHandler dec fs (c', w)) (\<lambda>(s2, hbs', evs'). Ret (s2, hbs', evs @ evs'))"
  using assms
  by (simp add: messageHandler_message readable_def sub_only_def client_message_def)

lemma handlSubMsg_topic:
  assumes "readable dec enc rsp" and "handlSubMsg dec (enc rsp) c = (c', evs)"
  shows "isSubscribed c' t = (if t = topic_name (Subscribe rsp) then Success rsp else isSubscribed c t)"
  using assms handlSubMsg_spec [OF _ refl, of dec "enc rsp" rsp c c' evs t] by (simp add: readable_def topic_name_def)

lemma answers_read:
  assumes "\<forall>rsp\<in>set rsps. readable dec enc rsp" and "\<forall>rsp\<in>set rsps. Success rsp = ok (topic_name (Subscribe rsp))"
  shows "\<exists>c' evs. messageHandler dec (map (\<lambda>rsp. Frame (enc rsp)) rsps) (c, w) = Ret ((c', w), [], evs)
    \<and> (\<forall>t. isSubscribed c' t = (if t \<in> (\<lambda>rsp. topic_name (Subscribe rsp)) ` set rsps then ok t else isSubscribed c t))"
  using assms
proof (induction rsps arbitrary: c)
  case Nil
  then show ?case by (simp add: messageHandler.simps)
next
  case (Cons rsp rsps)
  obtain c1 evs1 where h: "handlSubMsg dec (enc rsp) c = (c1, evs1)" by fastforce
  have r: "readable dec enc rsp" and ok: "Success rsp = ok (topic_name (Subscribe rsp))" using Cons.prems by simp_all
  obtain c2 evs2 where m: "messageHandler dec (map (\<lambda>rsp. Frame (enc rsp)) rsps) (c1, w) = Ret ((c2, w), [], evs2)"
    "\<forall>t. isSubscribed c2 t = (if t \<in> (\<lambda>rsp. topic_name (Subscribe rsp)) ` set rsps then ok t else isSubscribed c1 t)"
    using Cons.IH [of c1] Cons.prems by auto
  have "messageHandler dec (map (\<lambda>rsp. Frame (enc rsp)) (rsp # rsps)) (c, w) = Ret ((c2, w), [], evs1 @ evs2)"
    by (simp add: client_message_sub [OF r h] m(1))
  moreover have "isSubscribed c2 t = (if t \<in> (\<lambda>rsp. topic_name (Subscribe rsp)) ` set (rsp # rsps) then ok t else isSubscribed c t)" for t
    
    using m(2) handlSubMsg_topic [OF r h, of t] ok by (cases "t = topic_name (Subscribe rsp)") simp_all
  ultimately show ?case by blast
qed

section \<open>Names of topics\<close>

text \<open>The spelling of a topic the client sends.\<close>

definition canonical :: "string \<Rightarrow> string" where
  "canonical t = (case find (\<lambda>name. ToLower name = ToLower t) (PublicTopics @ PrivateTopics) of Some name \<Rightarrow> name | None \<Rightarrow> [])"

lemma topic_name_symbol: "CHR '':'' \<notin> set name \<Longrightarrow> topic_name (go_join '':'' [name, smb]) = name"
  by (simp add: topic_name_def go_split_append)

lemma canonical_case: "ToLower t = ToLower t' \<Longrightarrow> canonical t = canonical t'"
  by (simp add: canonical_def cong: option.case_cong)

lemma names_found:
  "\<forall>name\<in>set (PublicTopics @ PrivateTopics). CHR '':'' \<notin> set name
    \<and> find (\<lambda>n. ToLower n = ToLower name) (PublicTopics @ PrivateTopics) = Some name
    \<and> find (\<lambda>n. ToLower n = ToLower name) symbolSubs = (if name \<in> set symbolSubs then Some name else None)"
  by code_simp

lemma canonical_name: "name \<in> set (PublicTopics @ PrivateTopics) \<Longrightarrow> canonical name = name"
  using names_found by (simp add: canonical_def)

lemma topic_name_normalize_name:
  assumes "name \<in> set (PublicTopics @ PrivateTopics)"
  shows "topic_name (normalizeTopic c name) = name"
proof -
  note f = bspec [OF names_found assms]
  show ?thesis
  proof (cases "name \<in> set symbolSubs")
    case True
    then have "normalizeTopic c name = go_join '':'' [name, cfg_Symbol (cl_cfg c)]" using f by (simp add: normalizeTopic_def)
    then show ?thesis using f topic_name_symbol by simp
  next
    case False
    then have "normalizeTopic c name = name" using f by (simp add: normalizeTopic_def)
    then show ?thesis using f by (simp add: topic_name_def go_split_no_sep)
  qed
qed

lemma topic_name_normalize:
  assumes "IsValidTopic t"
  shows "topic_name (normalizeTopic c t) = canonical t"
proof -
  obtain name where n: "name \<in> set (PublicTopics @ PrivateTopics)" "ToLower name = ToLower t"
    using assms by (auto simp: valid_topic_names)
  then show ?thesis
    using topic_name_normalize_name [OF n(1), of c] canonical_name [OF n(1)] normalizeTopic_case [OF n(2), of c] canonical_case [OF n(2)]
    by simp
qed

lemma canonical_valid: "IsValidTopic t \<Longrightarrow> canonical t \<in> set (PublicTopics @ PrivateTopics)"
  by (metis canonical_case canonical_name valid_topic_names)

section \<open>The handshake\<close>

text \<open>What the two ends rely on: requests and answers can be read back, and their texts are
  recognised.\<close>

locale sub_codec =
  fixes enc_req :: "OperationRequest \<Rightarrow> string" and dec_req :: "string \<Rightarrow> error + OperationRequest"
    and enc_ans :: "SubscribeResponse \<Rightarrow> string" and dec_ans :: "string \<Rightarrow> error + SubscribeResponse"
  assumes request: "dec_req (enc_req req) = Inr req" and answer_back: "dec_ans (enc_ans rsp) = Inr rsp"
    and op_text: "opPattern (enc_req req)" and sub_text: "SubPattern (enc_ans rsp)"
begin

lemma subscribed_as_answered:
  fixes c :: "'o client" and s :: "'o server"
  assumes sub: "client_Subscribe topics c = (c1, Some req)"
    and codec: "env_dec env = dec_req" "dec_sub dec = dec_ans" and up: "up s i" and wr: "\<And>xs x. env_wr env xs x = None"
    and plain: "\<forall>t\<in>set (Args req). \<not> is_heartbeat (enc_ans (answer s req t)) \<and> \<not> InfoPattern (enc_ans (answer s req t))"
  shows "\<exists>s' c2 evs. handle_request env i (enc_req req) s = Ret s'
    \<and> se_conn (sv_sessions s' ! i) = se_conn (wrote (sv_sessions s ! i) (map (\<lambda>t. WireJSON (SvSub (answer s req t))) (Args req)))
    \<and> messageHandler dec (map (\<lambda>t. Frame (enc_ans (answer s req t))) (Args req)) (c1, w) = Ret ((c2, w), [], evs)
    \<and> (\<forall>t. isSubscribed c2 t =
        (if t \<in> canonical ` set (wanted c topics) then map_of (sv_dataCaches s) t \<noteq> None else isSubscribed c t))"
proof -
  obtain c' args where st: "subscribe_topics topics c [] = (c', args)" by fastforce
  note spec = subscribe_topics_spec [OF st]
  have dec: "\<forall>t\<in>set (Args req). readable dec enc_ans (answer s req t)"
    using plain sub_text answer_back codec(2) by (simp add: readable_def sub_only_def)
  have c1: "c1 = c'" and req: "Operation req = ''subscribe''" "Args req = map (normalizeTopic c) (wanted c topics)"
    using sub st spec by (auto simp: client_Subscribe_def split: if_splits)
  have names: "(\<lambda>t. topic_name (Subscribe (answer s req t))) ` set (Args req) = canonical ` set (wanted c topics)"
    unfolding req by (auto simp: answer_def wanted_def topic_name_normalize image_iff)
  obtain c2 evs where m: "messageHandler dec (map (\<lambda>rsp. Frame (enc_ans rsp)) (map (answer s req) (Args req))) (c1, w) = Ret ((c2, w), [], evs)"
    "\<forall>t. isSubscribed c2 t = (if t \<in> (\<lambda>rsp. topic_name (Subscribe rsp)) ` set (map (answer s req) (Args req))
      then map_of (sv_dataCaches s) t \<noteq> None else isSubscribed c1 t)"
    using answers_read [of "map (answer s req) (Args req)" dec enc_ans "\<lambda>t. map_of (sv_dataCaches s) t \<noteq> None" c1 w] dec
    by (auto simp: answer_def)
  let ?s' = "(told s i (map (\<lambda>t. WireJSON (SvSub (answer s req t))) (Args req)))
      \<lparr>sv_subscribers := sv_subscribers s @ concat (map (started s req i) (Args req))\<rparr>"
  have "handle_request env i (enc_req req) s = Ret ?s'"
    using op_text [of req] request [of req] codec(1) req(1) by (simp add: handle_request_def parseOperation_def handleSubscribe_def subscribe_all_spec [OF up wr])
  moreover have "se_conn (sv_sessions ?s' ! i) = se_conn (wrote (sv_sessions s ! i) (map (\<lambda>t. WireJSON (SvSub (answer s req t))) (Args req)))"
    using up by (simp add: up_def)
  moreover have "\<forall>t. isSubscribed c2 t =
      (if t \<in> canonical ` set (wanted c topics) then map_of (sv_dataCaches s) t \<noteq> None else isSubscribed c t)"
    using m(2) names spec by (simp add: c1 image_image)
  ultimately show ?thesis using m(1) by (auto simp: comp_def)
qed

end

text \<open>The texts of \<^theory_text>\<open>Json\<close>, whatever blanks an encoder adds; the encoder of a connection adds a
  line break.\<close>

lemma json_codec:
  "skip b = [] \<Longrightarrow> sub_codec (\<lambda>req. OperationRequest_String req @ b) unmarshal_request (\<lambda>rsp. SubscribeResponse_String rsp @ b) unmarshal_answer"
  by unfold_locales (simp_all add: unmarshal_request_String unmarshal_answer_String opPattern_def request_pattern answer_pattern)

interpretation line: sub_codec "\<lambda>req. OperationRequest_String req @ [CHR 0x0A]" unmarshal_request
    "\<lambda>rsp. SubscribeResponse_String rsp @ [CHR 0x0A]" unmarshal_answer
  by (rule json_codec) (simp add: skip_def)

section \<open>An error about a subscription\<close>

text \<open>The error a subscription without a channel ends with, as the server writes it.\<close>

definition no_channel :: "subscriber \<Rightarrow> ErrResponse" where
  "no_channel sub = \<lparr>Error = ''Fail to get response Channel for '' @ sub_topic sub @ '' on depth '' @ show_int (sub_depth sub),
     Status = 0, Meta = [], err_Request = sub_req sub\<rparr>"

lemma no_channel_simps [simp]:
  "err_Request (no_channel sub) = sub_req sub" "Meta (no_channel sub) = []" "Status (no_channel sub) = 0"
  by (simp_all add: no_channel_def)

lemma subscriber_without_channel:
  assumes "any_GetRspChannel Realtime (sub_depth sub) (sv_caches s ! sub_cache sub) = Ret None"
    and "up s (sub_session sub)" and "\<And>xs x. env_wr env xs x = None"
  shows "subscriber_start env ses r kk sub s =
    go_bind (on_session (sub_session sub) session_Close (told s (sub_session sub) [WireJSON (SvErr (no_channel sub))]))
      (\<lambda>(s2, _). Ret (s2, None))"
  by (simp add: subscriber_start_def Let_def assms(1) tell [OF assms(2,3)] no_channel_def)

lemma go_join_snoc: "xs \<noteq> [] \<Longrightarrow> go_join sep (xs @ [x]) = go_join sep xs @ sep @ x"
  by (induction sep xs rule: go_join.induct) simp_all

lemma error_text_pattern:
  assumes "Operation (err_Request e) = ''subscribe''"
  shows "SubPattern (ErrResponse_String e @ b)"
proof -
  have op: "json_print (json_of_request (err_Request e)) = ''{'' @ quoted ''op'' @ '':'' @ quoted ''subscribe'' @ '','' @
      quoted ''args'' @ '':'' @ json_print (if Args (err_Request e) = [] then JNull else JArr (map jstr (Args (err_Request e)))) @ ''}''"
  proof -
    have "escaped ''subscribe'' = ''subscribe''" by code_simp
    then show ?thesis using assms by (simp add: json_of_request_def jstr_def)
  qed
  have last: "\<exists>u. json_print (JObj (ms @ [(''request'', v)])) = u @ json_print v @ ''}''" for ms v
  proof (cases ms rule: rev_cases)
    case (snoc ms' m)
    then show ?thesis using go_join_snoc [of "map (\<lambda>(k, v). quoted k @ '':'' @ json_print v) ms"] by simp
  qed simp
  obtain ms where "json_of_error e = JObj (ms @ [(''request'', json_of_request (err_Request e))])"
    by (auto simp: json_of_error_def)
  with last obtain u where "ErrResponse_String e = u @ json_print (json_of_request (err_Request e)) @ ''}''"
    by (metis ErrResponse_String_def)
  then have "ErrResponse_String e @ b = (u @ ''{'' @ quoted ''op'' @ '':'') @ quoted ''subscribe'' @ ('','' @
      quoted ''args'' @ '':'' @ json_print (if Args (err_Request e) = [] then JNull else JArr (map jstr (Args (err_Request e)))) @ ''}'' @ ''}'' @ b)"
    by (simp only: op append_assoc)
  then show ?thesis unfolding SubPattern_def Contains_iff by blast
qed

text \<open>Read as an answer, an error is a refusal of the empty topic.\<close>

lemma error_as_answer:
  assumes "Meta e = []" and "skip b = []"
  shows "unmarshal_answer (ErrResponse_String e @ b) = Inr \<lparr>Success = False, Subscribe = [], sub_Request = err_Request e\<rparr>"
proof -
  have j: "json_ok (json_of_error e)"
    using assms(1) by (simp add: json_of_error_def list_all_iff unless_empty_def show_int_number [unfolded list_all_iff] json_of_ok)
  show ?thesis
    unfolding unmarshal_answer_def ErrResponse_String_def json_parse_print [OF j assms(2)]
    using assms(1) set_request_of [of "err_Request e"]
    by (simp add: json_of_error_def unless_empty_def)
qed

lemma error_taken:
  assumes "Operation (err_Request e) = ''subscribe''" and "Meta e = []" and "skip b = []" and "dec_sub dec = unmarshal_answer"
    and "\<not> InfoPattern (ErrResponse_String e @ b)"
  shows "client_message dec (ErrResponse_String e @ b) (c, w) =
    Ret ((c\<lparr>cl_SubscribedTopics := AList.delete [] (cl_SubscribedTopics c)\<rparr>, w),
      if cl_subHandler c then [CallSub \<lparr>Success = False, Subscribe = [], sub_Request = err_Request e\<rparr>] else [])"
  using error_text_pattern [OF assms(1), of b] error_as_answer [OF assms(2,3)] assms(4,5)
  by (simp add: client_message_def handlSubMsg_def Let_def)

section \<open>Tables\<close>

text \<open>The decoders of the client, with those of the types of other packages as arguments.\<close>

definition text_decoders :: "(json \<Rightarrow> int \<Rightarrow> error + int) \<Rightarrow> int \<Rightarrow> (json \<Rightarrow> error + instrument) \<Rightarrow> (json \<Rightarrow> error + trade)
    \<Rightarrow> (json \<Rightarrow> error + orderL2 option) \<Rightarrow> decoders" where
  "text_decoders dec_time zero_time dec_instrument dec_trade dec_order =
     \<lparr>dec_info = unmarshal_info dec_time zero_time, dec_auth = unmarshal_auth, dec_sub = unmarshal_answer, dec_err = unmarshal_error,
      dec_ins = unmarshal_table dec_instrument, dec_td = unmarshal_table dec_trade, dec_mbl = unmarshal_table dec_order\<rparr>"

lemma text_decoders_simps [simp]:
  "dec_info (text_decoders a z i t m) = unmarshal_info a z" "dec_auth (text_decoders a z i t m) = unmarshal_auth"
  "dec_sub (text_decoders a z i t m) = unmarshal_answer" "dec_err (text_decoders a z i t m) = unmarshal_error"
  "dec_ins (text_decoders a z i t m) = unmarshal_table i" "dec_td (text_decoders a z i t m) = unmarshal_table t"
  "dec_mbl (text_decoders a z i t m) = unmarshal_table m"
  by (simp_all add: text_decoders_def)

lemma table_text_head:
  "\<exists>u. table_String enc r @ b = ''{'' @ (quoted ''table'' @ '':'' @ quoted (escaped (Table r))) @ u"
  by (simp add: table_String_def json_of_table_def jstr_def)

lemma table_keyed:
  assumes "escaped (Table r) = t"
  shows "keyed (table_String enc r @ b) ''table'' (quoted t)"
proof -
  obtain u where "table_String enc r @ b = ''{'' @ (quoted ''table'' @ '':'' @ quoted t) @ u"
    using table_text_head [of enc r b] assms by auto
  then show ?thesis unfolding keyed_def Contains_iff by blast
qed

text \<open>A table message that is not taken for something else reaches the cache of its table.\<close>

definition only_table :: "string \<Rightarrow> bool" where
  "only_table msg \<longleftrightarrow> \<not> InfoPattern msg \<and> \<not> SubPattern msg \<and> \<not> ErrPattern msg \<and> \<not> AuthPattern msg"

lemma trade_text_read:
  fixes s :: "'o client_state"
  assumes "Table r = ''trade''" and "only_table (table_String enc r @ b)"
    and "\<not> InstrumentPattern (table_String enc r @ b)" "\<not> MBLPattern (table_String enc r @ b)"
    and "unmarshal_table dec_trade (table_String enc r @ b) = Inr r"
  shows "client_message (text_decoders dt z di dec_trade dm) (table_String enc r @ b) s =
    go_bind (pass_on (\<lambda>cache. (TradeResponse r, cache)) ''trade'' s) (\<lambda>s'. Ret (s', []))"
proof -
  have "escaped ''trade'' = ''trade''" by code_simp
  then have "TradePattern (table_String enc r @ b)"
    using table_keyed [of r "''trade''" enc b] assms(1) by (simp add: TradePattern_def)
  then show ?thesis using assms by (simp add: client_message_def only_table_def handleTdMsg_def split: prod.split)
qed

lemma instrument_text_read:
  fixes s :: "'o client_state"
  assumes "Table r = ''instrument''" and "only_table (table_String enc r @ b)"
    and "unmarshal_table dec_instrument (table_String enc r @ b) = Inr r"
  shows "client_message (text_decoders dt z dec_instrument dtr dm) (table_String enc r @ b) s =
    go_bind (pass_on (\<lambda>cache. (InstrumentResponse r, cache)) ''instrument'' s) (\<lambda>s'. Ret (s', []))"
proof -
  have "escaped ''instrument'' = ''instrument''" by code_simp
  then have "InstrumentPattern (table_String enc r @ b)"
    using table_keyed [of r "''instrument''" enc b] assms(1) by (simp add: InstrumentPattern_def)
  then show ?thesis using assms by (simp add: client_message_def only_table_def handleInsMsg_def split: prod.split)
qed

lemma book_text_read:
  fixes s :: "'o client_state"
  assumes "Table r = ''orderBookL2''" and "only_table (table_String enc r @ b)" and "\<not> InstrumentPattern (table_String enc r @ b)"
    and "unmarshal_table dec_order (table_String enc r @ b) = Inr r"
  shows "client_message (text_decoders dt z di dtr dec_order) (table_String enc r @ b) s =
    go_bind (pass_on (mbl_into r) ''orderBookL2'' s) (\<lambda>s'. Ret (s', []))"
proof -
  have e: "escaped ''orderBookL2'' = ''orderBookL2''" by code_simp
  obtain u where "table_String enc r @ b = ''{'' @ (quoted ''table'' @ '':'' @ quoted ''orderBookL2'') @ u"
    using table_text_head [of enc r b] assms(1) e by auto
  then have "table_String enc r @ b = ''{'' @ (quoted ''table'' @ '':'' @ CHR 0x22 # ''orderBook'') @ (''L2'' @ [CHR 0x22] @ u)"
    by (simp add: quoted_def)
  then have "MBLPattern (table_String enc r @ b)" unfolding MBLPattern_def keyed_def Contains_iff by blast
  then show ?thesis using assms by (simp add: client_message_def only_table_def handleMblMsg_def split: prod.split)
qed

end
