(* ===== verification/Logging.thy ===== *)
theory Logging
  imports Prelude
begin

text \<open>
  \<open>utils/log/logger.go\<close>: the level of the log and the flag of the trace level, the one part of the
  package the other packages read. Writing a line is left to the library the package wraps,
  whose numbers of levels are arguments.
\<close>

text \<open>The trace level is \<open>math.MaxInt8\<close>, above all levels of the library.\<close>

definition TraceLevel :: int where "TraceLevel = 127"

record log_state =
  IsTraceLevel :: bool
  log_atom :: int

definition log_init :: "int \<Rightarrow> log_state" where
  "log_init default_level = \<lparr>IsTraceLevel = False, log_atom = default_level\<rparr>"

text \<open>\<open>debug\<close> is the number of the debug level.\<close>

definition SetLogLevel :: "int \<Rightarrow> int \<Rightarrow> log_state \<Rightarrow> log_state" where
  "SetLogLevel debug level s =
     (let (s1, level1) = (if level = TraceLevel then (s\<lparr>IsTraceLevel := True\<rparr>, debug) else (s, level))
      in s1\<lparr>log_atom := level1\<rparr>)"

lemma SetLogLevel_simps [simp]:
  "IsTraceLevel (SetLogLevel debug level s) = (IsTraceLevel s \<or> level = TraceLevel)"
  "log_atom (SetLogLevel debug level s) = (if level = TraceLevel then debug else level)"
  by (simp_all add: SetLogLevel_def)

text \<open>The flag is on after some call asked for the trace level, whatever the later calls ask for; the
  level is what the last call asked for.\<close>

lemma levels_set:
  "IsTraceLevel (fold (SetLogLevel debug) levels s) = (IsTraceLevel s \<or> TraceLevel \<in> set levels)"
  "log_atom (fold (SetLogLevel debug) (levels @ [l]) s) = (if l = TraceLevel then debug else l)"
  by (induction levels arbitrary: s) auto

end
