(* ===== verification/ServerHttp.thy ===== *)
theory ServerHttp
  imports Handshake Logging
begin

text \<open>
  The HTTP side of the server: the routes \<open>RunForever\<close> of \<open>server/server.go\<close> sets up, the status
  page, and \<open>main\<close> of \<open>examples/server\<close>.

  Of \<open>net/http\<close> the model has the table of the patterns, which has the exact matches and the
  longest subtree, and the dispatch of a request. Patterns are paths; redirections to a cleaned
  path are left out. Listening is an argument, and so are the encoders of times and durations.
\<close>

section \<open>Routes\<close>

datatype http_handler = StatusHandler | WsUpgrader

type_synonym serve_mux = "(string \<times> http_handler) list"

definition HandleFunc :: "string \<Rightarrow> http_handler \<Rightarrow> serve_mux \<Rightarrow> serve_mux go" where
  "HandleFunc pattern h mux =
     (if pattern = [] then Panic (LogPanic ''http: invalid pattern'')
      else if pattern \<in> fst ` set mux then Panic (LogPanic (''http: multiple registrations for '' @ pattern))
      else Ret (mux @ [(pattern, h)]))"

text \<open>A pattern with a slash at its end stands for all paths below it.\<close>

definition subtree :: "string \<Rightarrow> string \<Rightarrow> bool" where
  "subtree path pattern \<longleftrightarrow> pattern \<noteq> [] \<and> last pattern = CHR ''/'' \<and> HasPrefix path pattern"

definition longer :: "string \<times> http_handler \<Rightarrow> (string \<times> http_handler) option \<Rightarrow> (string \<times> http_handler) option" where
  "longer e best = (case best of None \<Rightarrow> Some e | Some b \<Rightarrow> if length (fst b) < length (fst e) then Some e else Some b)"

definition mux_handler :: "serve_mux \<Rightarrow> string \<Rightarrow> http_handler option" where
  "mux_handler mux path =
     (case map_of mux path of
        Some h \<Rightarrow> Some h
      | None \<Rightarrow> map_option snd (fold longer (filter (\<lambda>e. subtree path (fst e)) mux) None))"

section \<open>The status page\<close>

record http_env =
  env_time :: "int option \<Rightarrow> json"
  env_uptime :: "int \<Rightarrow> int option \<Rightarrow> string"

definition json_of_status :: "http_env \<Rightarrow> int \<Rightarrow> 'o server \<Rightarrow> json" where
  "json_of_status env now s = JObj [(''startup'', env_time env (sv_Startup s)), (''clients'', JNum (show_int (sv_Clients s))),
     (''uptime'', jstr (env_uptime env now (sv_Startup s)))]"

definition statusHandler :: "http_env \<Rightarrow> int \<Rightarrow> 'o server \<Rightarrow> (string \<times> string) list \<times> string" where
  "statusHandler env now s = ([(''Content-type'', ''application/json'')], json_print (json_of_status env now s))"

section \<open>Running\<close>

text \<open>\<open>ctx_done\<close> says whether the context is done; \<open>listen\<close> ends with the error of listening.\<close>

definition RunForever :: "(string \<Rightarrow> error option) \<Rightarrow> int \<Rightarrow> bool \<Rightarrow> serve_mux \<times> 'o server \<Rightarrow> ((serve_mux \<times> 'o server) \<times> error option) go" where
  "RunForever listen now ctx_done ms =
     (case ms of (mux, s) \<Rightarrow>
        go_bind (HandleFunc ''/status'' StatusHandler mux) (\<lambda>mux1.
        go_bind (HandleFunc (BaseURI (sv_cfg s)) WsUpgrader mux1) (\<lambda>mux2.
          Ret ((mux2, s\<lparr>sv_done := ctx_done, sv_Startup := Some now\<rparr>), listen (GetListenAddr (sv_cfg s))))))"

text \<open>One request: a page, or a connection that is served.\<close>

datatype 'o http_answer = NotFound | Page "(string \<times> string) list" string | Served "('o server \<times> bool) go"

definition serve_request :: "http_env \<Rightarrow> ('o, 'ns) server_env \<Rightarrow> string \<Rightarrow> 'o upgrade_request \<Rightarrow> ws_frame list \<Rightarrow> serve_mux \<times> 'o server
    \<Rightarrow> 'o http_answer" where
  "serve_request h env path r fs ms =
     (case ms of (mux, s) \<Rightarrow>
        case mux_handler mux path of
          None \<Rightarrow> NotFound
        | Some StatusHandler \<Rightarrow> (case statusHandler h (env_now env) s of (header, body) \<Rightarrow> Page header body)
        | Some WsUpgrader \<Rightarrow> Served (wsUpgrader env r fs s))"

text \<open>\<open>main\<close> of the example: the debug level, a default configuration, a server that runs.\<close>

definition server_main :: "(string \<Rightarrow> error option) \<Rightarrow> int \<Rightarrow> int \<Rightarrow> log_state \<times> 'o table_msg world
    \<Rightarrow> (log_state \<times> (serve_mux \<times> 'o server) \<times> error option) go" where
  "server_main listen debug now st =
     (case st of (lg, w) \<Rightarrow>
        let lg1 = SetLogLevel debug debug lg; cfg = server_NewConfig in
        go_bind (NewServer cfg w) (\<lambda>svr.
        go_bind (RunForever listen now False ([], svr)) (\<lambda>(ms, err). Ret (lg1, ms, err))))"

section \<open>Facts\<close>

lemma RunForever_routes:
  assumes "BaseURI (sv_cfg s) \<noteq> []" "BaseURI (sv_cfg s) \<noteq> ''/status''"
  shows "RunForever listen now ctx_done ([], s) =
    Ret (([(''/status'', StatusHandler), (BaseURI (sv_cfg s), WsUpgrader)], s\<lparr>sv_done := ctx_done, sv_Startup := Some now\<rparr>),
      listen (GetListenAddr (sv_cfg s)))"
  using assms by (simp add: RunForever_def HandleFunc_def)

text \<open>A base path that is empty or the one of the status page panics.\<close>

lemma RunForever_panics:
  assumes "BaseURI (sv_cfg s) = [] \<or> BaseURI (sv_cfg s) = ''/status''"
  shows "\<exists>p. RunForever listen now ctx_done ([], s) = Panic p"
  using assms by (auto simp: RunForever_def HandleFunc_def)

lemma routes_found:
  assumes "uri \<noteq> ''/status''"
  shows "mux_handler [(''/status'', StatusHandler), (uri, WsUpgrader)] ''/status'' = Some StatusHandler"
    "mux_handler [(''/status'', StatusHandler), (uri, WsUpgrader)] uri = Some WsUpgrader"
  using assms by (simp_all add: mux_handler_def)

lemma routes_other:
  assumes "path \<noteq> ''/status''" "path \<noteq> uri"
  shows "mux_handler [(''/status'', StatusHandler), (uri, WsUpgrader)] path = (if subtree path uri then Some WsUpgrader else None)"
  using assms by (auto simp: mux_handler_def subtree_def longer_def)

text \<open>The page as a reader of its text sees it.\<close>

record status_page =
  page_Clients :: int
  page_Uptime :: string

definition page_struct :: "status_page field list" where
  "page_struct =
     [(''clients'', set_field set_int page_Clients (\<lambda>x r. r\<lparr>page_Clients := x\<rparr>)),
      (''uptime'', set_field set_string page_Uptime (\<lambda>x r. r\<lparr>page_Uptime := x\<rparr>))]"

lemma status_read:
  assumes "json_ok (env_time h (sv_Startup s))" "- (2 ^ 63) \<le> sv_Clients s" "sv_Clients s < 2 ^ 63"
  shows "unmarshal_struct page_struct \<lparr>page_Clients = 0, page_Uptime = []\<rparr> (snd (statusHandler h now s)) =
    Inr \<lparr>page_Clients = sv_Clients s, page_Uptime = env_uptime h now (sv_Startup s)\<rparr>"
proof -
  have j: "json_ok (json_of_status h now s)"
    using assms(1) by (simp add: json_of_status_def list_all_iff show_int_number [unfolded list_all_iff])
  have "unmarshal_struct page_struct z (json_print (json_of_status h now s) @ []) = set_struct page_struct (json_of_status h now s) z" for z
    by (rule unmarshal_print [OF j]) simp
  then show ?thesis
    using ParseInt_show [OF assms(2,3)] by (simp add: statusHandler_def json_of_status_def page_struct_def reading)
qed

lemma server_main_runs:
  "\<exists>s. server_main listen debug now (lg, w) = Ret (SetLogLevel debug debug lg,
      ([(''/status'', StatusHandler), (''/realtime'', WsUpgrader)], s), listen ''0.0.0.0:9988'')
    \<and> sv_cfg s = server_NewConfig \<and> sv_Clients s = 0 \<and> \<not> sv_done s \<and> sv_Startup s = Some now"
proof -
  have digits: "(char_of (56 :: nat) :: char) = CHR ''8''" "(char_of (57 :: nat) :: char) = CHR ''9''" by code_simp+
  have parts: "ParseIP ''0.0.0.0'' = Some [0, 0, 0, 0]" "show_nat_digits 0 = ''0''" by code_simp+
  have port: "show_int 9988 = ''9988''" by (simp add: show_int_def show_nat_digits.simps digits del: char_of_eq_iff)
  have addr: "GetListenAddr server_NewConfig = ''0.0.0.0:9988''" "BaseURI server_NewConfig = ''/realtime''"
    using parts port by (simp_all add: GetListenAddr_def IP_String_def server_NewConfig_def)
  have "\<exists>s. NewServer server_NewConfig w = Ret s \<and> sv_cfg s = server_NewConfig \<and> sv_Clients s = 0"
    by (simp add: NewServer_def NewTradeCache_def NewInstrumentCache_def NewMBLCache_def new_cache_def cache_Start_def
        group_channels_def Let_def put_chan_def Start_def newRspChannel_def cache_NewDepthChannel_def NewDepthChannel_def
        realtime_group_def)
  then obtain s where s: "NewServer server_NewConfig w = Ret s" "sv_cfg s = server_NewConfig" "sv_Clients s = 0" by blast
  have "RunForever listen now False ([], s) = Ret (([(''/status'', StatusHandler), (''/realtime'', WsUpgrader)],
      s\<lparr>sv_done := False, sv_Startup := Some now\<rparr>), listen ''0.0.0.0:9988'')"
    using RunForever_routes [of s listen now False] by (simp add: s(2) addr)
  then show ?thesis using s by (simp add: server_main_def)
qed

end
