(* ===== verification/Linq.thy ===== *)
theory Linq
  imports GoText
begin

text \<open>
  \<open>utils/linq.go\<close>: queries on table rows. A statement is parsed by the package \<open>sqlparser\<close>;
  its syntax tree is the input of the model, with the node kinds the code distinguishes and
  one constructor for all the others, which carries the printed form the errors quote. A
  condition becomes a function on rows, a table a filter on slices of rows.

  A row is a pointer to a structure: the list of its fields with their values, \<open>None\<close> for
  nil. Of the package \<open>reflect\<close> the model has what the code uses: the kind of a field, its
  \<open>json\<close> tag, reading a field, and the conversions of its value to \<open>int64\<close> and \<open>float64\<close>.
  Whatever \<open>reflect\<close> panics on is \<open>ReflectPanic\<close>.

  A \<open>ColumnDef\<close> is shared by pointer between the columns of a table and its selection, and
  an alias is written through that pointer, so the selection refers to the columns by key.
\<close>

section \<open>Values and structures\<close>

datatype go_kind = KInt | KUint | KFloat | KString | KNilable | KInterface | KOther

datatype go_value = VInt int | VUint int | VFloat rat | VStr string | VRef "nat option" | VOther

record struct_field =
  sf_Name :: string
  sf_json :: "string option"
  sf_Kind :: go_kind

type_synonym struct_type = "struct_field list"
type_synonym go_struct = "(struct_field \<times> go_value) list"
type_synonym go_row = "go_struct option"

definition find_field :: "go_struct \<Rightarrow> string \<Rightarrow> (struct_field \<times> go_value) option" where
  "find_field v property = find (\<lambda>f. sf_Name (fst f) = property) v"

definition GetFieldValue :: "go_row \<Rightarrow> string \<Rightarrow> go_value go" where
  "GetFieldValue data property =
     (if property = [] then Panic (LogPanic ''property name can not be null'')
      else (case data of
              None \<Rightarrow> Panic ReflectPanic
            | Some v \<Rightarrow> (case find_field v property of None \<Rightarrow> Panic ReflectPanic | Some f \<Rightarrow> Ret (snd f))))"

definition type_of :: "go_row \<Rightarrow> struct_type go" where
  "type_of data = (case data of None \<Rightarrow> Panic ReflectPanic | Some v \<Rightarrow> Ret (map fst v))"

definition FieldByName :: "struct_type \<Rightarrow> string \<Rightarrow> struct_field option" where
  "FieldByName t property = find (\<lambda>f. sf_Name f = property) t"

definition GetFieldType :: "go_row \<Rightarrow> string \<Rightarrow> struct_field option go" where
  "GetFieldType data property = go_bind (type_of data) (\<lambda>t. Ret (FieldByName t property))"

text \<open>The name of a field in JSON: the part of its tag before the first comma.\<close>

definition json_name :: "string \<Rightarrow> string" where
  "json_name tag = hd (go_split (CHR '','') tag)"

definition GetFields :: "go_row \<Rightarrow> string list \<Rightarrow> (string, go_value) gomap go" where
  "GetFields data properties =
     (case data of
        None \<Rightarrow> Panic ReflectPanic
      | Some v \<Rightarrow>
          go_fold (\<lambda>result prop.
            case find_field v prop of
              None \<Rightarrow> Panic ReflectPanic
            | Some (f, x) \<Rightarrow>
                (let key = (case sf_json f of None \<Rightarrow> prop | Some tag \<Rightarrow> if tag \<noteq> [] then json_name tag else prop)
                 in Ret (AList.update key x result))) [] properties)"

fun field_types :: "struct_type \<Rightarrow> string list \<Rightarrow> (string, struct_field) gomap \<Rightarrow> (string, struct_field) gomap" where
  "field_types t [] result = result"
| "field_types t (prop # props) result =
     (if prop = ''*'' then fold (\<lambda>f r. AList.update (sf_Name f) f r) t result
      else (case FieldByName t prop of
              Some f \<Rightarrow> field_types t props (AList.update prop f result)
            | None \<Rightarrow> field_types t props result))"

definition GetFieldTypes :: "go_row \<Rightarrow> string list \<Rightarrow> (string, struct_field) gomap go" where
  "GetFieldTypes data properties = go_bind (type_of data) (\<lambda>t. Ret (field_types t properties []))"

section \<open>The registry of models\<close>

text \<open>A model is a pointer to a structure of the table's type; a nil interface is \<open>None\<close>.\<close>

type_synonym table_models = "(string, go_row) gomap option"

definition RegisterTableModel :: "string \<Rightarrow> go_row \<Rightarrow> table_models \<Rightarrow> table_models \<times> error option" where
  "RegisterTableModel name tbl tableModels =
     (case tableModels of
        None \<Rightarrow> (Some [(name, tbl)], None)
      | Some m \<Rightarrow>
          (case map_of m name of
             Some _ \<Rightarrow> (tableModels, Some (''model for '' @ name @ '' is already exist''))
           | None \<Rightarrow> (Some (AList.update name tbl m), None)))"

section \<open>Columns and tables\<close>

record ColumnDef =
  col_name :: string
  col_alias :: string
  col_define :: struct_field

definition ColumnDef_GetName :: "ColumnDef \<Rightarrow> string" where
  "ColumnDef_GetName col = sf_Name (col_define col)"

definition ColumnDef_GetJSONName :: "ColumnDef \<Rightarrow> string" where
  "ColumnDef_GetJSONName col =
     (case sf_json (col_define col) of Some jsn \<Rightarrow> json_name jsn | None \<Rightarrow> ColumnDef_GetName col)"

definition ColumnDef_HasAlias :: "ColumnDef \<Rightarrow> bool" where
  "ColumnDef_HasAlias col \<longleftrightarrow> col_alias col \<noteq> []"

definition ColumnDef_GetAliasName :: "ColumnDef \<Rightarrow> string" where
  "ColumnDef_GetAliasName col = (if ColumnDef_HasAlias col then col_alias col else ColumnDef_GetName col)"

definition ColumnDef_GetType :: "ColumnDef \<Rightarrow> go_kind" where
  "ColumnDef_GetType col = sf_Kind (col_define col)"

text \<open>\<open>selected\<close> maps the name of a selected column to its key in \<open>columns\<close>.\<close>

record TableDef =
  tbl_name :: string
  tbl_alias :: string
  tbl_columns :: "(string, ColumnDef) gomap"
  tbl_selected :: "(string, string) gomap"
  tbl_define :: struct_type
  tbl_where :: "(go_row \<Rightarrow> bool go) option"

definition TableDef_HasAlias :: "TableDef \<Rightarrow> bool" where
  "TableDef_HasAlias tbl \<longleftrightarrow> tbl_alias tbl \<noteq> []"

definition TableDef_GetName :: "TableDef \<Rightarrow> string" where
  "TableDef_GetName tbl = tbl_name tbl"

definition TableDef_GetAliasName :: "TableDef \<Rightarrow> string" where
  "TableDef_GetAliasName tbl = (if TableDef_HasAlias tbl then tbl_alias tbl else TableDef_GetName tbl)"

section \<open>Syntax trees\<close>

text \<open>The types of literals, in the order of \<open>sqlparser\<close>: the index is what the code uses.\<close>

datatype val_type = StrVal | IntVal | FloatVal | HexNum | HexVal | ValArg | BitVal

fun val_index :: "val_type \<Rightarrow> nat" where
  "val_index StrVal = 0"
| "val_index IntVal = 1"
| "val_index FloatVal = 2"
| "val_index HexNum = 3"
| "val_index HexVal = 4"
| "val_index ValArg = 5"
| "val_index BitVal = 6"

datatype sql_val = SQLVal val_type string

datatype sql_expr =
    ColName string
  | Literal sql_val
  | ComparisonExpr string sql_expr sql_expr
  | AndExpr sql_expr sql_expr
  | OrExpr sql_expr sql_expr
  | ParenExpr sql_expr
  | OtherExpr string

datatype select_expr = AliasedExpr sql_expr string | StarExpr | OtherSelectExpr string

datatype simple_table = TableName string | OtherSimpleTable
datatype table_expr = AliasedTableExpr simple_table string | OtherTableExpr string

record sql_select =
  From :: "table_expr list"
  SelectExprs :: "select_expr list"
  Where :: "sql_expr option"

datatype sql_statement = SelectStmt sql_select | UnionStmt sql_statement sql_statement | OtherStmt

section \<open>Comparisons\<close>

text \<open>\<open>reflect\<close>'s conversion of a float to an integer: the fraction is dropped. (A float outside
  the 64-bit range gives a value the language leaves open.)\<close>

definition go_trunc :: "rat \<Rightarrow> int" where
  "go_trunc r = (if r < 0 then \<lceil>r\<rceil> else \<lfloor>r\<rfloor>)"

fun convert_int :: "go_value \<Rightarrow> int go" where
  "convert_int (VInt i) = Ret i"
| "convert_int (VUint i) = Ret (wrap64 i)"
| "convert_int (VFloat r) = Ret (go_trunc r)"
| "convert_int (VStr _) = Panic ReflectPanic"
| "convert_int (VRef _) = Panic ReflectPanic"
| "convert_int VOther = Panic ReflectPanic"

fun convert_float :: "go_value \<Rightarrow> float64 go" where
  "convert_float (VInt i) = Ret (of_int i)"
| "convert_float (VUint i) = Ret (of_int i)"
| "convert_float (VFloat r) = Ret r"
| "convert_float (VStr _) = Panic ReflectPanic"
| "convert_float (VRef _) = Panic ReflectPanic"
| "convert_float VOther = Panic ReflectPanic"

definition parseInt :: "go_value \<Rightarrow> string \<Rightarrow> (int \<times> int) go" where
  "parseInt left right = go_bind (convert_int left) (\<lambda>l. Ret (l, fst (ParseInt right)))"

definition parseFloat :: "go_value \<Rightarrow> string \<Rightarrow> (float64 \<times> float64) go" where
  "parseFloat left right = go_bind (convert_float left) (\<lambda>l. Ret (l, fst (ParseFloat right)))"

definition parseStr :: "go_value \<Rightarrow> string \<Rightarrow> (string \<times> string) go" where
  "parseStr left right = (case left of VStr s \<Rightarrow> Ret (s, right) | _ \<Rightarrow> Panic TypeAssertion)"

text \<open>One of the three functions of an operator, given the operator on that type.\<close>

definition str_fn :: "(string \<Rightarrow> string \<Rightarrow> bool) \<Rightarrow> go_row \<Rightarrow> string \<Rightarrow> string \<Rightarrow> bool go" where
  "str_fn cmp l lName r = go_bind (GetFieldValue l lName) (\<lambda>v. go_bind (parseStr v r) (\<lambda>(a, b). Ret (cmp a b)))"

definition int_fn :: "(int \<Rightarrow> int \<Rightarrow> bool) \<Rightarrow> go_row \<Rightarrow> string \<Rightarrow> string \<Rightarrow> bool go" where
  "int_fn cmp l lName r = go_bind (GetFieldValue l lName) (\<lambda>v. go_bind (parseInt v r) (\<lambda>(a, b). Ret (cmp a b)))"

definition float_fn :: "(float64 \<Rightarrow> float64 \<Rightarrow> bool) \<Rightarrow> go_row \<Rightarrow> string \<Rightarrow> string \<Rightarrow> bool go" where
  "float_fn cmp l lName r = go_bind (GetFieldValue l lName) (\<lambda>v. go_bind (parseFloat v r) (\<lambda>(a, b). Ret (cmp a b)))"

definition operatorMapper :: "string \<Rightarrow> (go_row \<Rightarrow> string \<Rightarrow> string \<Rightarrow> bool go) list option" where
  "operatorMapper op =
     (if op = ''='' then Some [str_fn (=), int_fn (=), float_fn (=)]
      else if op = ''<'' then Some [str_fn (<), int_fn (<), float_fn (<)]
      else if op = ''>'' then Some [str_fn (\<lambda>a b. a > b), int_fn (\<lambda>a b. a > b), float_fn (\<lambda>a b. a > b)]
      else if op = ''<='' then Some [str_fn (\<le>), int_fn (\<le>), float_fn (\<le>)]
      else if op = ''>='' then Some [str_fn (\<lambda>a b. a \<ge> b), int_fn (\<lambda>a b. a \<ge> b), float_fn (\<lambda>a b. a \<ge> b)]
      else if op = ''!='' then Some [str_fn (\<noteq>), int_fn (\<noteq>), float_fn (\<noteq>)]
      else None)"

text \<open>The operator is looked up when the condition is tested, not when it is parsed.\<close>

definition compare_fn :: "string \<Rightarrow> string \<Rightarrow> val_type \<Rightarrow> string \<Rightarrow> go_row \<Rightarrow> bool go" where
  "compare_fn op leftName t val v =
     (case operatorMapper op of
        None \<Rightarrow> Panic (LogPanic (''unsupported operator: '' @ op))
      | Some fnList \<Rightarrow>
          if length fnList \<le> val_index t then Panic (LogPanic ''invalid value type'')
          else (fnList ! val_index t) v leftName val)"

definition parseComparison :: "string \<Rightarrow> sql_expr \<Rightarrow> sql_expr \<Rightarrow> TableDef \<Rightarrow> error + (go_row \<Rightarrow> bool go)" where
  "parseComparison op left right table =
     (case left of
        ColName name \<Rightarrow>
          (case map_of (tbl_columns table) (ToLower name) of
             None \<Rightarrow> Inl (''column name in condition is invalid: '' @ name)
           | Some colDef \<Rightarrow>
               (case right of
                  Literal (SQLVal t val) \<Rightarrow> Inr (compare_fn op (ColumnDef_GetName colDef) t val)
                | _ \<Rightarrow> Inl ''right side must be a literal value''))
      | _ \<Rightarrow> Inl ''left side must be a property of struct'')"

text \<open>\<open>sql_str\<close> is the printer of \<open>sqlparser\<close>, used in an error message only.\<close>

fun parseCondition :: "(sql_expr \<Rightarrow> string) \<Rightarrow> sql_expr \<Rightarrow> TableDef \<Rightarrow> error + (go_row \<Rightarrow> bool go)" where
  "parseCondition sql_str (ComparisonExpr op l r) table = parseComparison op l r table"
| "parseCondition sql_str (AndExpr l r) table =
     (case parseCondition sql_str l table of
        Inl e \<Rightarrow> Inl e
      | Inr leftFn \<Rightarrow>
          (case parseCondition sql_str r table of
             Inl e \<Rightarrow> Inl e
           | Inr rightFn \<Rightarrow> Inr (\<lambda>v. go_bind (leftFn v) (\<lambda>b. if b then rightFn v else Ret False))))"
| "parseCondition sql_str (OrExpr l r) table =
     (case parseCondition sql_str l table of
        Inl e \<Rightarrow> Inl e
      | Inr leftFn \<Rightarrow>
          (case parseCondition sql_str r table of
             Inl e \<Rightarrow> Inl e
           | Inr rightFn \<Rightarrow> Inr (\<lambda>v. go_bind (leftFn v) (\<lambda>b. if b then Ret True else rightFn v))))"
| "parseCondition sql_str (ParenExpr e) table = parseCondition sql_str e table"
| "parseCondition sql_str (ColName n) table = Inl (''unsupported condition: '' @ sql_str (ColName n))"
| "parseCondition sql_str (Literal v) table = Inl (''unsupported condition: '' @ sql_str (Literal v))"
| "parseCondition sql_str (OtherExpr p) table = Inl (''unsupported condition: '' @ sql_str (OtherExpr p))"

section \<open>Statements\<close>

fun parseUnion :: "sql_statement \<Rightarrow> sql_select list" where
  "parseUnion (SelectStmt s) = [s]"
| "parseUnion (UnionStmt l r) = parseUnion r @ parseUnion l"
| "parseUnion OtherStmt = []"

text \<open>
  The selection: an expression that is no column name leaves a nil pointer behind, which is
  followed at once. An alias is written into the column itself.
\<close>

fun parseColumns :: "TableDef \<Rightarrow> (string, string) gomap \<Rightarrow> select_expr list
    \<Rightarrow> (error + TableDef \<times> (string, string) gomap) go" where
  "parseColumns tbl selected [] = Ret (Inr (tbl, selected))"
| "parseColumns tbl selected (AliasedExpr e as' # rest) =
     (case e of
        ColName name \<Rightarrow>
          (case map_of (tbl_columns tbl) (ToLower name) of
             None \<Rightarrow> Ret (Inl (''column['' @ name @ ''] definition not exists''))
           | Some colDef \<Rightarrow>
               (let colDef' = (if as' \<noteq> [] then colDef\<lparr>col_alias := as'\<rparr> else colDef);
                    tbl' = tbl\<lparr>tbl_columns := AList.update (ToLower name) colDef' (tbl_columns tbl)\<rparr>
                in parseColumns tbl' (AList.update (ColumnDef_GetName colDef') (ToLower name) selected) rest))
      | _ \<Rightarrow> Panic NilDereference)"
| "parseColumns tbl selected (StarExpr # rest) =
     parseColumns tbl (fold (\<lambda>(k, col) s. AList.update (ColumnDef_GetName col) k s) (tbl_columns tbl) selected) rest"
| "parseColumns tbl selected (OtherSelectExpr p # rest) = Ret (Inl (''unsupported column statement: '' @ p))"

definition parseTable :: "table_models \<Rightarrow> sql_select \<Rightarrow> (error + TableDef) go" where
  "parseTable tableModels stmt =
     (if length (From stmt) > 1 then Ret (Inl ''only support one table in FROM statement'')
      else go_bind (go_at (From stmt) 0) (\<lambda>from.
        case from of
          OtherTableExpr p \<Rightarrow> Ret (Inl (''invalid table type: '' @ p))
        | AliasedTableExpr OtherSimpleTable as' \<Rightarrow> Ret (Inl ''can not convert SQLNode to TableName'')
        | AliasedTableExpr (TableName name) as' \<Rightarrow>
            (case (case tableModels of None \<Rightarrow> None | Some m \<Rightarrow> map_of m name) of
               None \<Rightarrow> Ret (Inl (''table model not defined: '' @ name))
             | Some model \<Rightarrow>
                 go_bind (type_of model) (\<lambda>t.
                 go_bind (GetFieldTypes model [''*'']) (\<lambda>types.
                   let tbl = \<lparr>tbl_name = name, tbl_alias = as',
                              tbl_columns = fold (\<lambda>(n, f) m. AList.update (ToLower n)
                                 \<lparr>col_name = n, col_alias = [], col_define = f\<rparr> m) types [],
                              tbl_selected = [], tbl_define = t, tbl_where = None\<rparr>
                   in go_bind (parseColumns tbl [] (SelectExprs stmt)) (\<lambda>res.
                        case res of Inl e \<Rightarrow> Ret (Inl e)
                        | Inr (tbl', selected) \<Rightarrow> Ret (Inr (tbl'\<lparr>tbl_selected := selected\<rparr>))))))))"

definition parseSelect :: "(sql_expr \<Rightarrow> string) \<Rightarrow> table_models \<Rightarrow> sql_select \<Rightarrow> (error + TableDef) go" where
  "parseSelect sql_str tableModels sel =
     go_bind (parseTable tableModels sel) (\<lambda>res.
       case res of
         Inl e \<Rightarrow> Ret (Inl e)
       | Inr tbl \<Rightarrow>
           (case Where sel of
              None \<Rightarrow> Ret (Inr tbl)
            | Some e \<Rightarrow>
                (case parseCondition sql_str e tbl of
                   Inl err \<Rightarrow> Ret (Inl err)
                 | Inr f \<Rightarrow> Ret (Inr (tbl\<lparr>tbl_where := Some f\<rparr>)))))"

fun parse_selects :: "(sql_expr \<Rightarrow> string) \<Rightarrow> table_models \<Rightarrow> sql_select list \<Rightarrow> (string, TableDef) gomap
    \<Rightarrow> (error + (string, TableDef) gomap) go" where
  "parse_selects sql_str tableModels [] tables = Ret (Inr tables)"
| "parse_selects sql_str tableModels (sel # sels) tables =
     go_bind (parseSelect sql_str tableModels sel) (\<lambda>res.
       case res of
         Inl e \<Rightarrow> Ret (Inl e)
       | Inr tbl \<Rightarrow> parse_selects sql_str tableModels sels (AList.update (TableDef_GetName tbl) tbl tables))"

text \<open>\<open>parse\<close> is \<open>sqlparser.Parse\<close>.\<close>

definition ParseSQL :: "(string \<Rightarrow> error + sql_statement) \<Rightarrow> (sql_expr \<Rightarrow> string) \<Rightarrow> table_models \<Rightarrow> string
    \<Rightarrow> (error + (string, TableDef) gomap) go" where
  "ParseSQL parse sql_str tableModels sql =
     (if sql = [] then Ret (Inr [])
      else (case parse sql of
              Inl e \<Rightarrow> Ret (Inl e)
            | Inr stmt \<Rightarrow> parse_selects sql_str tableModels (parseUnion stmt) []))"

section \<open>Filters\<close>

text \<open>The test for a zero value, by the kind of the column; kinds it does not name are kept.\<close>

definition is_zero_value :: "go_kind \<Rightarrow> go_value \<Rightarrow> bool go" where
  "is_zero_value k v =
     (case k of
        KInt \<Rightarrow> (case v of VInt i \<Rightarrow> Ret (i = 0) | _ \<Rightarrow> Panic ReflectPanic)
      | KUint \<Rightarrow> (case v of VUint i \<Rightarrow> Ret (i = 0) | _ \<Rightarrow> Panic ReflectPanic)
      | KFloat \<Rightarrow> (case v of VFloat r \<Rightarrow> Ret (r = 0) | _ \<Rightarrow> Panic ReflectPanic)
      | KString \<Rightarrow> (case v of VStr s \<Rightarrow> Ret (s = []) | _ \<Rightarrow> Ret False)
      | KNilable \<Rightarrow> (case v of VRef r \<Rightarrow> Ret (r = None) | _ \<Rightarrow> Panic ReflectPanic)
      | KInterface \<Rightarrow> (case v of VRef (Some _) \<Rightarrow> Ret False | _ \<Rightarrow> Panic ReflectPanic)
      | KOther \<Rightarrow> Ret False)"

definition select_key :: "ColumnDef \<Rightarrow> string" where
  "select_key col = (if ColumnDef_HasAlias col then ColumnDef_GetAliasName col else ColumnDef_GetJSONName col)"

definition select_row :: "TableDef \<Rightarrow> go_row \<Rightarrow> (string, go_value) gomap go" where
  "select_row tbl v =
     (let selectAll = (length (tbl_selected tbl) = length (tbl_columns tbl)) in
      go_fold (\<lambda>result (_, k).
        go_bind (go_deref (map_of (tbl_columns tbl) k)) (\<lambda>col.
        go_bind (GetFieldValue v (ColumnDef_GetName col)) (\<lambda>value.
        go_bind (if selectAll then is_zero_value (ColumnDef_GetType col) value else Ret False) (\<lambda>zero.
          Ret (if zero then result else AList.update (select_key col) value result)))))
        [] (tbl_selected tbl))"

definition GetFilter :: "TableDef \<Rightarrow> go_row list \<Rightarrow> (string, go_value) gomap list go" where
  "GetFilter tbl datas =
     go_filter_map (case tbl_where tbl of None \<Rightarrow> (\<lambda>_. Ret True) | Some f \<Rightarrow> f) (select_row tbl) datas"

section \<open>What a condition means\<close>

text \<open>The reference: a comparison of two values of one ordered type, and the connectives.\<close>

definition cmp_op :: "string \<Rightarrow> 'a :: linorder \<Rightarrow> 'a \<Rightarrow> bool" where
  "cmp_op op a b =
     (if op = ''='' then a = b else if op = ''<'' then a < b else if op = ''>'' then b < a
      else if op = ''<='' then a \<le> b else if op = ''>='' then b \<le> a else a \<noteq> b)"

definition known_op :: "string \<Rightarrow> bool" where
  "known_op op \<longleftrightarrow> op \<in> set [''='', ''<'', ''>'', ''<='', ''>='', ''!='']"

fun value_fits :: "val_type \<Rightarrow> go_value \<Rightarrow> bool" where
  "value_fits StrVal v = (case v of VStr _ \<Rightarrow> True | _ \<Rightarrow> False)"
| "value_fits IntVal v = (convert_int v \<noteq> Panic ReflectPanic)"
| "value_fits FloatVal v = (convert_float v \<noteq> Panic ReflectPanic)"
| "value_fits _ v = False"

fun value_holds :: "string \<Rightarrow> go_value \<Rightarrow> val_type \<Rightarrow> string \<Rightarrow> bool" where
  "value_holds op v StrVal val = (case v of VStr s \<Rightarrow> cmp_op op s val | _ \<Rightarrow> False)"
| "value_holds op v IntVal val = (case convert_int v of Ret i \<Rightarrow> cmp_op op i (fst (ParseInt val)) | _ \<Rightarrow> False)"
| "value_holds op v FloatVal val = (case convert_float v of Ret r \<Rightarrow> cmp_op op r (fst (ParseFloat val)) | _ \<Rightarrow> False)"
| "value_holds op v _ val = False"

definition column_value :: "TableDef \<Rightarrow> string \<Rightarrow> go_struct \<Rightarrow> go_value option" where
  "column_value tbl name v =
     (case map_of (tbl_columns tbl) (ToLower name) of
        None \<Rightarrow> None
      | Some col \<Rightarrow> if ColumnDef_GetName col = [] then None
                    else map_option snd (find_field v (ColumnDef_GetName col)))"

text \<open>A condition is well typed for a row: known operators between a column of the row and a
  literal of a type it can be compared with.\<close>

fun cond_ok :: "TableDef \<Rightarrow> go_struct \<Rightarrow> sql_expr \<Rightarrow> bool" where
  "cond_ok tbl v (ComparisonExpr op (ColName n) (Literal (SQLVal t val))) =
     (known_op op \<and> (case column_value tbl n v of None \<Rightarrow> False | Some x \<Rightarrow> value_fits t x))"
| "cond_ok tbl v (AndExpr l r) = (cond_ok tbl v l \<and> cond_ok tbl v r)"
| "cond_ok tbl v (OrExpr l r) = (cond_ok tbl v l \<and> cond_ok tbl v r)"
| "cond_ok tbl v (ParenExpr e) = cond_ok tbl v e"
| "cond_ok tbl v _ = False"

fun cond_holds :: "TableDef \<Rightarrow> go_struct \<Rightarrow> sql_expr \<Rightarrow> bool" where
  "cond_holds tbl v (ComparisonExpr op (ColName n) (Literal (SQLVal t val))) =
     (case column_value tbl n v of None \<Rightarrow> False | Some x \<Rightarrow> value_holds op x t val)"
| "cond_holds tbl v (AndExpr l r) = (cond_holds tbl v l \<and> cond_holds tbl v r)"
| "cond_holds tbl v (OrExpr l r) = (cond_holds tbl v l \<or> cond_holds tbl v r)"
| "cond_holds tbl v (ParenExpr e) = cond_holds tbl v e"
| "cond_holds tbl v _ = False"

lemma known_op_fns:
  assumes "known_op op"
  shows "\<exists>s i f. operatorMapper op = Some [str_fn s, int_fn i, float_fn f]
    \<and> s = cmp_op op \<and> i = cmp_op op \<and> f = cmp_op op"
  using assms by (auto simp: known_op_def operatorMapper_def cmp_op_def fun_eq_iff)

lemma compare_fn_holds:
  assumes op: "known_op op" and c: "map_of (tbl_columns tbl) (ToLower n) = Some col"
    and v: "column_value tbl n v = Some x" and fit: "value_fits t x"
  shows "compare_fn op (ColumnDef_GetName col) t val (Some v) = Ret (value_holds op x t val)"
proof -
  from known_op_fns [OF op]
  have fns: "operatorMapper op = Some [str_fn (cmp_op op), int_fn (cmp_op op), float_fn (cmp_op op)]" by blast
  have get: "GetFieldValue (Some v) (ColumnDef_GetName col) = Ret x"
    using c v by (auto simp: column_value_def GetFieldValue_def split: if_splits)
  show ?thesis
    using fit
    by (cases t; cases x)
      (simp_all add: compare_fn_def fns get str_fn_def int_fn_def float_fn_def parseStr_def parseInt_def parseFloat_def)
qed

lemma parseCondition_sound:
  assumes "cond_ok tbl v e"
  shows "\<exists>f. parseCondition sql_str e tbl = Inr f \<and> f (Some v) = Ret (cond_holds tbl v e)"
  using assms
proof (induction tbl v e rule: cond_ok.induct)
  case (1 tbl v op n t val)
  then obtain x where x: "known_op op" "column_value tbl n v = Some x" "value_fits t x"
    by (auto split: option.splits)
  then obtain col where c: "map_of (tbl_columns tbl) (ToLower n) = Some col"
    by (auto simp: column_value_def split: option.splits)
  show ?case using compare_fn_holds [OF x(1) c x(2,3)] c x by (simp add: parseComparison_def)
qed auto

text \<open>The test a condition compiles to does not depend on the row it is asked about first.\<close>

lemma parseCondition_rows:
  assumes "parseCondition sql_str e tbl = Inr f" and "cond_ok tbl v e"
  shows "f (Some v) = Ret (cond_holds tbl v e)"
  using parseCondition_sound [OF assms(2), of sql_str] assms(1) by auto

section \<open>What a filter returns\<close>

text \<open>The projection of a row on the selected columns, when not all are selected.\<close>

definition row_has :: "TableDef \<Rightarrow> go_struct \<Rightarrow> bool" where
  "row_has tbl v \<longleftrightarrow> (\<forall>(n, k)\<in>set (tbl_selected tbl). \<exists>col. map_of (tbl_columns tbl) k = Some col
     \<and> ColumnDef_GetName col \<noteq> [] \<and> find_field v (ColumnDef_GetName col) \<noteq> None)"

definition project :: "TableDef \<Rightarrow> go_struct \<Rightarrow> (string, go_value) gomap" where
  "project tbl v =
     fold (\<lambda>(_, k) result. let col = the (map_of (tbl_columns tbl) k) in
         AList.update (select_key col) (snd (the (find_field v (ColumnDef_GetName col)))) result)
       (tbl_selected tbl) []"

lemma select_row_project:
  assumes "row_has tbl v" and "length (tbl_selected tbl) \<noteq> length (tbl_columns tbl)"
  shows "select_row tbl (Some v) = Ret (project tbl v)"
proof -
  have "\<forall>(n, k)\<in>set sel. \<exists>col. map_of (tbl_columns tbl) k = Some col
     \<and> ColumnDef_GetName col \<noteq> [] \<and> find_field v (ColumnDef_GetName col) \<noteq> None \<Longrightarrow>
    go_fold (\<lambda>result (_, k).
        go_bind (go_deref (map_of (tbl_columns tbl) k)) (\<lambda>col.
        go_bind (GetFieldValue (Some v) (ColumnDef_GetName col)) (\<lambda>value.
        go_bind (if False then is_zero_value (ColumnDef_GetType col) value else Ret False) (\<lambda>zero.
          Ret (if zero then result else AList.update (select_key col) value result))))) acc sel =
    Ret (fold (\<lambda>(_, k) result. let col = the (map_of (tbl_columns tbl) k) in
         AList.update (select_key col) (snd (the (find_field v (ColumnDef_GetName col)))) result) sel acc)"
    for sel acc
  proof (induction sel arbitrary: acc)
    case (Cons p sel)
    then show ?case by (cases p) (auto simp: GetFieldValue_def Let_def)
  qed simp
  then show ?thesis using assms by (simp add: select_row_def project_def row_has_def)
qed

lemma GetFilter_where:
  assumes f: "tbl_where tbl = Some f" and e: "parseCondition sql_str e tbl = Inr f"
    and rows: "\<forall>v\<in>set vs. cond_ok tbl v e \<and> row_has tbl v"
    and some: "length (tbl_selected tbl) \<noteq> length (tbl_columns tbl)"
  shows "GetFilter tbl (map Some vs) = Ret (map (project tbl) (filter (\<lambda>v. cond_holds tbl v e) vs))"
proof -
  have "go_filter_map f (select_row tbl) (map Some vs) =
      Ret (map (\<lambda>r. project tbl (the r)) (filter (\<lambda>r. cond_holds tbl (the r) e) (map Some vs)))"
    using rows parseCondition_rows [OF e] select_row_project [OF _ some]
    by (intro go_filter_map_Ret) auto
  then show ?thesis by (simp add: GetFilter_def f filter_map o_def)
qed

text \<open>A condition looks at the columns of the table only, so the filter of a statement tests it.\<close>

lemma parseComparison_columns:
  assumes "tbl_columns tbl' = tbl_columns tbl"
  shows "parseComparison op l r tbl' = parseComparison op l r tbl"
  unfolding parseComparison_def assms ..

lemma parseCondition_columns:
  assumes "tbl_columns tbl' = tbl_columns tbl"
  shows "parseCondition sql_str e tbl' = parseCondition sql_str e tbl"
  by (induction e) (simp_all add: parseComparison_columns [OF assms] split: sum.split)

lemma parseSelect_where:
  assumes "parseSelect sql_str tm sel = Ret (Inr tbl)" and "Where sel = Some e"
  shows "\<exists>f. tbl_where tbl = Some f \<and> parseCondition sql_str e tbl = Inr f"
proof -
  obtain res where res: "parseTable tm sel = Ret res"
    using assms(1) by (auto simp: parseSelect_def go_bind_Ret_iff)
  then obtain t where t: "res = Inr t" using assms(1) by (cases res) (simp_all add: parseSelect_def)
  then obtain f where "parseCondition sql_str e t = Inr f" "tbl = t\<lparr>tbl_where := Some f\<rparr>"
    using assms res by (cases "parseCondition sql_str e t") (simp_all add: parseSelect_def)
  then show ?thesis using parseCondition_columns [of tbl t sql_str e] by simp
qed

section \<open>Unions\<close>

fun union_leaves :: "sql_statement \<Rightarrow> sql_select list" where
  "union_leaves (SelectStmt s) = [s]"
| "union_leaves (UnionStmt l r) = union_leaves l @ union_leaves r"
| "union_leaves OtherStmt = []"

lemma parseUnion_leaves: "parseUnion stmt = rev (union_leaves stmt)"
  by (induction stmt) auto

lemma parse_selects_tables:
  "parse_selects sql_str tm sels tables = Ret (Inr tables') \<Longrightarrow>
    \<exists>ts. list_all2 (\<lambda>s t. parseSelect sql_str tm s = Ret (Inr t)) sels ts
      \<and> map_of tables' = map_of tables ++ map_of (rev (map (\<lambda>t. (TableDef_GetName t, t)) ts))"
proof (induction sels arbitrary: tables)
  case Nil
  then show ?case by auto
next
  case (Cons s sels)
  from Cons.prems obtain res where res: "parseSelect sql_str tm s = Ret res"
    "(case res of Inl e \<Rightarrow> Ret (Inl e)
      | Inr t \<Rightarrow> parse_selects sql_str tm sels (AList.update (TableDef_GetName t) t tables)) = Ret (Inr tables')"
    by (auto simp: go_bind_Ret_iff)
  then obtain t where t: "parseSelect sql_str tm s = Ret (Inr t)"
    "parse_selects sql_str tm sels (AList.update (TableDef_GetName t) t tables) = Ret (Inr tables')"
    by (cases res) auto
  from Cons.IH [OF t(2)] obtain ts where
    ts: "list_all2 (\<lambda>s t. parseSelect sql_str tm s = Ret (Inr t)) sels ts"
    "map_of tables' = map_of (AList.update (TableDef_GetName t) t tables) ++ map_of (rev (map (\<lambda>t. (TableDef_GetName t, t)) ts))"
    by blast
  have "map_of tables' = map_of tables ++ map_of (rev (map (\<lambda>t. (TableDef_GetName t, t)) (t # ts)))"
    unfolding ts(2) by (simp add: fun_eq_iff map_add_def split: option.split)
  with ts(1) t(1) show ?case by (intro exI [of _ "t # ts"]) simp
qed

lemma ParseSQL_tables:
  assumes "sql \<noteq> []" and "parse sql = Inr stmt" and "ParseSQL parse sql_str tm sql = Ret (Inr tables)"
  shows "\<exists>ts. list_all2 (\<lambda>s t. parseSelect sql_str tm s = Ret (Inr t)) (union_leaves stmt) ts
    \<and> map_of tables = map_of (map (\<lambda>t. (TableDef_GetName t, t)) ts)"
proof -
  have "parse_selects sql_str tm (rev (union_leaves stmt)) [] = Ret (Inr tables)"
    using assms by (simp add: ParseSQL_def parseUnion_leaves)
  from parse_selects_tables [OF this] obtain ts where
    ts: "list_all2 (\<lambda>s t. parseSelect sql_str tm s = Ret (Inr t)) (rev (union_leaves stmt)) ts"
    "map_of tables = map_of (rev (map (\<lambda>t. (TableDef_GetName t, t)) ts))" by auto
  have "list_all2 (\<lambda>s t. parseSelect sql_str tm s = Ret (Inr t)) (union_leaves stmt) (rev ts)"
    using ts(1) by (metis list_all2_rev rev_rev_ident)
  with ts(2) show ?thesis by (intro exI [of _ "rev ts"]) (simp add: rev_map)
qed

section \<open>When parsing returns\<close>

text \<open>Selections of named columns, and registered models that are not nil.\<close>

definition select_exprs_ok :: "select_expr list \<Rightarrow> bool" where
  "select_exprs_ok es \<longleftrightarrow> (\<forall>e as'. AliasedExpr e as' \<in> set es \<longrightarrow> (\<exists>n. e = ColName n))"

definition models_ok :: "table_models \<Rightarrow> bool" where
  "models_ok tm \<longleftrightarrow> (\<forall>m n r. tm = Some m \<longrightarrow> map_of m n = Some r \<longrightarrow> r \<noteq> None)"

lemma parseColumns_total: "select_exprs_ok es \<Longrightarrow> \<exists>res. parseColumns tbl selected es = Ret res"
proof (induction es arbitrary: tbl selected)
  case (Cons e es)
  have rest: "select_exprs_ok es" using Cons.prems by (simp add: select_exprs_ok_def)
  show ?case
  proof (cases e)
    case (AliasedExpr x as')
    then obtain n where "x = ColName n" using Cons.prems by (auto simp: select_exprs_ok_def)
    then show ?thesis using Cons.IH [OF rest] by (auto simp: AliasedExpr Let_def split: option.split)
  next
    case StarExpr
    then show ?thesis using Cons.IH [OF rest] by simp
  qed simp
qed simp

lemma parseTable_total:
  assumes "From sel \<noteq> []" and "select_exprs_ok (SelectExprs sel)" and "models_ok tm"
  shows "\<exists>res. parseTable tm sel = Ret res"
proof -
  have at: "go_at (From sel) 0 = Ret (From sel ! 0)" using assms(1) by (simp add: go_at_def)
  have col: "\<exists>res. go_bind (parseColumns tbl [] (SelectExprs sel)) (\<lambda>res. case res of
      Inl e \<Rightarrow> Ret (Inl e) | Inr (tbl', selected) \<Rightarrow> Ret (Inr (tbl'\<lparr>tbl_selected := selected\<rparr>))) = Ret res" for tbl
    using parseColumns_total [OF assms(2), of tbl "[]"] by (auto split: sum.split prod.split)
  have m: "\<exists>v. r = Some v" if "(case tm of None \<Rightarrow> None | Some m \<Rightarrow> map_of m n) = Some r" for n r
    using that assms(3) by (auto simp: models_ok_def split: option.splits)
  show ?thesis
  proof (cases "From sel ! 0")
    case (AliasedTableExpr t as')
    show ?thesis
    proof (cases t)
      case (TableName n)
      show ?thesis
      proof (cases "case tm of None \<Rightarrow> None | Some m \<Rightarrow> map_of m n")
        case None
        then show ?thesis by (simp add: parseTable_def at AliasedTableExpr TableName)
      next
        case (Some r)
        then obtain v where "r = Some v" using m by blast
        then show ?thesis using Some col
          by (simp add: parseTable_def at AliasedTableExpr TableName type_of_def GetFieldTypes_def Let_def)
      qed
    qed (simp add: parseTable_def at AliasedTableExpr)
  qed (simp add: parseTable_def at)
qed

lemma ParseSQL_total:
  assumes "\<And>stmt s. parse sql = Inr stmt \<Longrightarrow> s \<in> set (union_leaves stmt) \<Longrightarrow>
      From s \<noteq> [] \<and> select_exprs_ok (SelectExprs s)" and m: "models_ok tm"
  shows "\<exists>res. ParseSQL parse sql_str tm sql = Ret res"
proof -
  have sel: "\<exists>res. parseSelect sql_str tm s = Ret res" if "From s \<noteq> []" "select_exprs_ok (SelectExprs s)" for s
    using parseTable_total [OF that m] by (auto simp: parseSelect_def split: sum.split option.split)
  have "\<exists>res. parse_selects sql_str tm sels tables = Ret res"
    if "\<forall>s\<in>set sels. From s \<noteq> [] \<and> select_exprs_ok (SelectExprs s)" for sels tables
    using that
  proof (induction sels arbitrary: tables)
    case (Cons s sels)
    then have "From s \<noteq> []" "select_exprs_ok (SelectExprs s)" by simp_all
    from sel [OF this] obtain res where r: "parseSelect sql_str tm s = Ret res" by blast
    have "\<exists>res. parse_selects sql_str tm sels tb = Ret res" for tb using Cons by simp
    then show ?case by (cases res) (simp_all add: r)
  qed simp
  then show ?thesis using assms(1) by (auto simp: ParseSQL_def parseUnion_leaves split: sum.split)
qed

end
