(* ===== verification/Examples.thy ===== *)
theory Examples
  imports Linq ClientStreams GoSets PriceList
begin

text \<open>
  \<open>examples/client\<close>: the command line client. The flags are arguments or a record; one pass of
  the main loop is a function of what happens in it: the random part of the delay, whether an
  interrupt arrives during the delay, the dialer, how the connection ends and how long it
  lasted. \<open>url.Parse\<close> is an argument, once for each of its two uses; every client starts in a
  store of channels of its own.
\<close>

section \<open>Arithmetic\<close>

text \<open>Integer division of 64-bit integers rounds towards zero.\<close>

definition go_quot :: "int \<Rightarrow> int \<Rightarrow> int go" where
  "go_quot a b = (if b = 0 then Panic DivideByZero else Ret (wrap64 (sgn a * sgn b * (\<bar>a\<bar> div \<bar>b\<bar>))))"

text \<open>\<open>1 << uint(c)\<close>: a negative \<open>c\<close> is a huge shift, which leaves 0.\<close>

definition go_shift1 :: "int \<Rightarrow> int" where
  "go_shift1 c = (if 0 \<le> c \<and> c < 64 then wrap64 (2 ^ nat c) else 0)"

definition millisecond :: int where "millisecond = 1000000"

definition expectBackoff :: "int \<Rightarrow> int \<Rightarrow> int \<Rightarrow> int go" where
  "expectBackoff c i slot =
     (let c' = (if c > i then i else c); N = wrap64 (go_shift1 c' - 1)
      in go_bind (go_quot (wrap64 (wrap64 (slot * N) * 1000)) 2) (\<lambda>d. Ret (wrap64 (millisecond * d))))"

definition avgDuration :: "int list \<Rightarrow> int go" where
  "avgDuration dur =
     (let total = fold (\<lambda>d total. wrap64 (total + d)) dur 0 in go_quot total (int (length dur)))"

definition humanReadNum :: "int \<Rightarrow> string" where
  "humanReadNum num =
     (if num = 1 then show_int num @ ''st'' else if num = 2 then show_int num @ ''nd''
      else if num = 3 then show_int num @ ''rd'' else show_int num @ ''th'')"

section \<open>The address\<close>

record url_flags =
  f_scheme :: string
  f_host :: string
  f_port :: int
  f_uri :: string
  f_url :: string

record parsed_url =
  pu_Scheme :: string
  pu_Hostname :: string
  pu_Port :: string
  pu_Path :: string

definition default_flags :: url_flags where
  "default_flags = \<lparr>f_scheme = ''wss'', f_host = ''www.btcmex.com'', f_port = 443, f_uri = ''/realtime'', f_url = []\<rparr>"

definition default_port :: "string \<Rightarrow> int go" where
  "default_port scheme =
     (if scheme = ''http'' \<or> scheme = ''ws'' then Ret 80
      else if scheme = ''https'' \<or> scheme = ''wss'' then Ret 443
      else Panic (LogPanic (''unsupported scheme: '' @ scheme)))"

definition apply_url :: "(string \<Rightarrow> error + parsed_url) \<Rightarrow> url_flags \<Rightarrow> url_flags go" where
  "apply_url parse f =
     (if f_url f = [] then Ret f
      else
        (let f1 = (if \<not> HasPrefix (f_url f) ''http'' \<and> \<not> HasPrefix (f_url f) ''ws''
                   then f\<lparr>f_url := ''wss'' @ ''://'' @ f_url f\<rparr> else f)
         in case parse (f_url f1) of
              Inl err \<Rightarrow> Panic (LogPanic err)
            | Inr parsed \<Rightarrow>
                go_bind (if pu_Port parsed = [] then default_port (pu_Scheme parsed)
                         else Ret (fst (ParseInt (pu_Port parsed)))) (\<lambda>port.
                  Ret (f1\<lparr>f_scheme := pu_Scheme parsed, f_host := pu_Hostname parsed, f_port := port,
                          f_uri := (if pu_Path parsed \<noteq> [] then pu_Path parsed else f_uri f1)\<rparr>))))"

definition render_url :: "url_flags \<Rightarrow> string" where
  "render_url f =
     (let hostString = (if f_port f = 80 \<or> f_port f = 443 then f_host f else f_host f @ '':'' @ show_int (f_port f))
      in replace_once (f_scheme f) ''http'' ''ws'' @ ''://'' @ go_join ''/'' [hostString, TrimLeft {CHR ''/''} (f_uri f)])"

definition getURL :: "(string \<Rightarrow> error + parsed_url) \<Rightarrow> url_flags \<Rightarrow> (url_flags \<times> string) go" where
  "getURL parse f = go_bind (apply_url parse f) (\<lambda>f'. Ret (f', render_url f'))"

section \<open>Context, topics and filters\<close>

text \<open>A context is its deadline, if any, and the credentials it carries.\<close>

definition getContext :: "int \<Rightarrow> string \<Rightarrow> string \<Rightarrow> int option \<times> APIKeyAuth option" where
  "getContext deadline apiKey apiSecret =
     (if deadline > 0 then Some deadline else None,
      if apiKey \<noteq> [] \<and> apiSecret \<noteq> []
      then Some \<lparr>auth_Key = apiKey, auth_Secret = apiSecret, auth_AuthURI = ''/api/v1/signature''\<rparr> else None)"

definition defaultTopics :: "string list" where
  "defaultTopics = [''trade'', ''orderBookL2'', ''instrument'']"

text \<open>\<open>topicMapper\<close> is a map from topics to models; a missing topic gives nil. \<open>rng\<close> is the order
  of \<open>Values\<close>. The errors of the registration are dropped.\<close>

definition normalizeTopicTable :: "(string list \<Rightarrow> string list) \<Rightarrow> (string \<Rightarrow> error + sql_statement) \<Rightarrow> (sql_expr \<Rightarrow> string)
    \<Rightarrow> (string \<Rightarrow> go_row) \<Rightarrow> bool \<Rightarrow> string \<Rightarrow> string list \<Rightarrow> table_models
    \<Rightarrow> string list \<times> table_models \<times> (error + (string, TableDef) gomap) go" where
  "normalizeTopicTable rng parse sql_str topicMapper appendTopics sql topics tableModels =
     (let topics1 = (if appendTopics then topics @ defaultTopics else topics);
          topics2 = stringSet_Values rng (NewStringSet (Some topics1));
          tableModels1 = fold (\<lambda>topic tm. fst (RegisterTableModel topic (topicMapper topic) tm)) topics2 tableModels
      in (topics2, tableModels1, ParseSQL parse sql_str tableModels1 sql))"

text \<open>The goroutine of \<open>filter\<close>, for the messages it receives: what it prints is the alias of the
  table, the action and a row. \<open>look\<close> is the structure a row points to.\<close>

fun filter_loop :: "('o row \<Rightarrow> go_row) \<Rightarrow> TableDef \<Rightarrow> 'o table_msg option list
    \<Rightarrow> (string \<times> string \<times> (string, go_value) gomap) list go" where
  "filter_loop look tbl [] = Ret []"
| "filter_loop look tbl (None # rsps) = Ret []"
| "filter_loop look tbl (Some rsp # rsps) =
     go_bind (GetFilter tbl (map look (GetData rsp))) (\<lambda>rows.
     go_bind (filter_loop look tbl rsps) (\<lambda>out.
       Ret (map (\<lambda>row. (TableDef_GetAliasName tbl, GetAction rsp, row)) rows @ out)))"

definition start_filter :: "('o row \<Rightarrow> go_row) \<Rightarrow> (string, TableDef) gomap \<Rightarrow> string \<Rightarrow> 'o table_msg option list
    \<Rightarrow> (error + (string \<times> string \<times> (string, go_value) gomap) list) go" where
  "start_filter look filters tableName rsps =
     (case map_of filters tableName of
        None \<Rightarrow> Ret (Inl ''table definition not exists'')
      | Some tbl \<Rightarrow> go_bind (filter_loop look tbl rsps) (\<lambda>out. Ret (Inr out)))"

section \<open>The main loop\<close>

datatype round_end = CtxDone | RemoteClosed | Interrupt

record round =
  rd_jitter :: int
  rd_interrupted :: bool
  rd_dial :: "url \<Rightarrow> error option"
  rd_ids :: "nat \<Rightarrow> string"
  rd_end :: round_end
  rd_last :: int

record main_env =
  maxReconnectCount :: int
  maxDelayCount :: int
  reconnectDelay :: int
  me_deadline :: int
  me_apiKey :: string
  me_apiSecret :: string
  me_hbInterval :: int
  me_hbFailCount :: int
  me_symbol :: string
  me_topics :: "string list"
  me_filters :: "(string, TableDef) gomap"
  me_parse :: "string \<Rightarrow> error + parsed_url"
  me_changeHost :: "string \<Rightarrow> error + url"

text \<open>What a round reports: its number, and the last, longest, shortest and average duration.\<close>

type_synonym report = "string \<times> int \<times> int \<times> int \<times> int"

record main_state =
  mflags :: url_flags
  running :: bool
  roundCount :: int
  failCount :: int
  maxLast :: int
  minLast :: int
  lastList :: "int list"
  dials :: nat
  delays :: "int list"
  watches :: "(string \<times> nat option) list list"
  reports :: "report list"

definition main_init :: "url_flags \<Rightarrow> main_state" where
  "main_init f = \<lparr>mflags = f, running = True, roundCount = 1, failCount = 0, maxLast = 0, minLast = 2 ^ 63 - 1, lastList = [],
     dials = 0, delays = [], watches = [], reports = []\<rparr>"

text \<open>The client of a round; the first result is the flags \<open>getURL\<close> leaves behind.\<close>

definition main_client :: "main_env \<Rightarrow> url_flags \<Rightarrow> (url_flags \<times> (error + 'o client)) go" where
  "main_client env f =
     go_bind (getURL (me_parse env) f) (\<lambda>(f', u).
       case ChangeHost (me_changeHost env) u NewConfig of
         (cfg, Some err) \<Rightarrow> Ret (f', Inl err)
       | (cfg, None) \<Rightarrow>
           (let ins = NewClient (cfg\<lparr>cfg_HeartbeatInterval := me_hbInterval env, cfg_HeartbeatFailCount := me_hbFailCount env,
                                    cfg_Symbol := me_symbol env\<rparr>)
            in Ret (f', Inr (fst (client_Subscribe (me_topics env) ins)))))"

text \<open>The loop over the filters: the Go channel each of them reads. \<open>k\<close> numbers the channels.\<close>

fun main_filters :: "(nat \<Rightarrow> string) \<Rightarrow> nat \<Rightarrow> string list \<Rightarrow> 'o client_state \<Rightarrow> ('o client_state \<times> (string \<times> nat option) list) go" where
  "main_filters ids k [] s = Ret (s, [])"
| "main_filters ids k (tableName # names) s =
     go_bind (GetResponse tableName (ids k) k s) (\<lambda>(s1, ch).
     go_bind (main_filters ids (Suc k) names s1) (\<lambda>(s2, chs). Ret (s2, (tableName, ch) # chs)))"

text \<open>The end of a connection that was up.\<close>

definition round_over :: "round \<Rightarrow> main_state \<Rightarrow> main_state go" where
  "round_over rd s =
     (let s1 = (case rd_end rd of
                  CtxDone \<Rightarrow> s\<lparr>running := False\<rparr>
                | RemoteClosed \<Rightarrow> s\<lparr>failCount := failCount s + 1\<rparr>
                | Interrupt \<Rightarrow> s\<lparr>running := False\<rparr>);
          last = rd_last rd;
          s2 = s1\<lparr>lastList := lastList s1 @ [last], maxLast := MaxDuration last (maxLast s1),
                  minLast := MinDuration last (minLast s1)\<rparr>
      in go_bind (avgDuration (lastList s2)) (\<lambda>avg.
           Ret (s2\<lparr>reports := reports s2 @ [(humanReadNum (roundCount s2), last, maxLast s2, minLast s2, avg)],
                   roundCount := roundCount s2 + 1\<rparr>)))"

text \<open>From the context on; a return ends the loop.\<close>

definition main_dial :: "main_env \<Rightarrow> 'o table_msg world \<Rightarrow> round \<Rightarrow> main_state \<Rightarrow> main_state go" where
  "main_dial env w rd s =
     (let (_, auth) = getContext (me_deadline env) (me_apiKey env) (me_apiSecret env) in
      go_bind (main_client env (mflags s)) (\<lambda>(f, r).
        case r of
          Inl err \<Rightarrow> Ret (s\<lparr>mflags := f, running := False\<rparr>)
        | Inr ins \<Rightarrow>
            go_bind (client_Connect (rd_dial rd) (Some auth) (ins, w)) (\<lambda>(c, err, _).
              let s1 = s\<lparr>mflags := f, dials := Suc (dials s)\<rparr>
              in if err \<noteq> None then Ret (s1\<lparr>failCount := failCount s1 + 1\<rparr>)
                 else go_bind (main_filters (rd_ids rd) 0 (gokeys (me_filters env)) c) (\<lambda>(_, chs).
                   round_over rd (s1\<lparr>watches := watches s1 @ [chs], failCount := 0\<rparr>)))))"

definition main_round :: "main_env \<Rightarrow> 'o table_msg world \<Rightarrow> round \<Rightarrow> main_state \<Rightarrow> main_state go" where
  "main_round env w rd s =
     (if failCount s > 0 then
        (if maxReconnectCount env \<ge> 0 \<and> failCount s > maxReconnectCount env then Ret (s\<lparr>running := False\<rparr>)
         else
           go_bind (expectBackoff (failCount s) (maxDelayCount env) (reconnectDelay env)) (\<lambda>d.
             let delay = wrap64 (d + millisecond * rd_jitter rd); s1 = s\<lparr>delays := delays s @ [delay]\<rparr>
             in if rd_interrupted rd then Ret (s1\<lparr>running := False\<rparr>) else main_dial env w rd s1))
      else main_dial env w rd s)"

fun main_loop :: "main_env \<Rightarrow> 'o table_msg world \<Rightarrow> round list \<Rightarrow> main_state \<Rightarrow> main_state go" where
  "main_loop env w [] s = Ret s"
| "main_loop env w (rd # rds) s =
     (if running s then go_bind (main_round env w rd s) (main_loop env w rds) else Ret s)"

section \<open>Facts on delays and durations\<close>

lemma go_quot_small:
  assumes "0 \<le> a" and "0 < b" and "a < 2 ^ 63"
  shows "go_quot a b = Ret (a div b)"
proof -
  have "0 \<le> a div b" "a div b \<le> a" using assms by (simp_all add: pos_imp_zdiv_nonneg_iff div_le_dividend zdiv_mono2 [of a 1 b, simplified])
  then have "wrap64 (a div b) = a div b" using assms(3) by (intro wrap64_id) auto
  then show ?thesis using assms by (cases "a = 0") (simp_all add: go_quot_def)
qed

lemma expectBackoff_total: "\<exists>d. expectBackoff c i slot = Ret d"
  by (simp add: expectBackoff_def go_quot_def Let_def)

lemma expectBackoff_exact:
  assumes "0 \<le> c" and "0 \<le> i" and "min c i \<le> 62" and "0 \<le> slot" and "slot * (2 ^ nat (min c i) - 1) \<le> 18446744073"
  shows "expectBackoff c i slot = Ret (500000000 * (slot * (2 ^ nat (min c i) - 1)))"
proof -
  define k where "k = nat (min c i)"
  define n where "n = slot * (2 ^ k - 1 :: int)"
  have c': "(if c > i then i else c) = int k" using assms(1,2) by (simp add: k_def min_def)
  have k: "k \<le> 62" using assms(3) by (simp add: k_def)
  have "(2 :: int) ^ k \<le> 2 ^ 62" using k by (rule power_increasing) simp
  then have pow: "(2 :: int) ^ k < 2 ^ 63" "(1 :: int) \<le> 2 ^ k" by simp_all
  have "wrap64 (2 ^ k) = 2 ^ k" using pow by (intro wrap64_id) linarith+
  moreover have "wrap64 (2 ^ k - 1) = 2 ^ k - 1" using pow by (intro wrap64_id) linarith+
  ultimately have sh: "wrap64 (go_shift1 (int k) - 1) = 2 ^ k - 1" using k by (simp add: go_shift1_def)
  have n: "0 \<le> n" "n \<le> 18446744073" using assms(4,5) pow(2) by (simp_all add: n_def k_def)
  have w: "wrap64 n = n" "wrap64 (n * 1000) = n * 1000" "wrap64 (millisecond * (n * 500)) = millisecond * (n * 500)"
    using n by (intro wrap64_id; simp add: millisecond_def)+
  have q: "go_quot (n * 1000) 2 = Ret (n * 500)" using n go_quot_small [of "n * 1000" 2] by simp
  show ?thesis
    unfolding expectBackoff_def Let_def c' sh k_def [symmetric] n_def [symmetric] w(1,2) q go_bind.simps w(3)
    by (simp add: millisecond_def)
qed

lemma expectBackoff_negative:
  assumes "0 \<le> c" and "i < 0" and "0 \<le> slot" and "slot \<le> 18446744073"
  shows "expectBackoff c i slot = Ret (500000000 * slot * -1)"
proof -
  have c': "(if c > i then i else c) = i" using assms(1,2) by simp
  have sh: "wrap64 (go_shift1 i - 1) = -1" using assms(2) wrap64_id [of "-1"] by (simp add: go_shift1_def)
  have w: "wrap64 (slot * -1) = - slot" "wrap64 (- slot * 1000) = - slot * 1000" "wrap64 (- (slot * 500)) = - (slot * 500)"
    "wrap64 (millisecond * - (slot * 500)) = millisecond * - (slot * 500)"
    using assms(3,4) by (subst wrap64_id; simp add: millisecond_def)+
  have "\<bar>- slot * 1000\<bar> div 2 = slot * 500" using assms(3) by simp
  then have q: "go_quot (- slot * 1000) 2 = Ret (- (slot * 500))"
    using w(3) assms(3) by (cases "slot = 0") (simp_all add: go_quot_def mult.commute)
  show ?thesis
    unfolding expectBackoff_def Let_def c' sh w(1,2) q go_bind.simps w(4) by (simp add: millisecond_def)
qed

lemma wrap_sum:
  assumes "\<forall>d\<in>set ds. 0 \<le> d" and "0 \<le> t" and "t + sum_list ds < 2 ^ 63"
  shows "fold (\<lambda>d total. wrap64 (total + d)) ds t = t + sum_list ds"
  using assms
proof (induction ds arbitrary: t)
  case (Cons d ds)
  have "0 \<le> sum_list ds" using Cons.prems(1) by (intro sum_list_nonneg) auto
  then have "wrap64 (t + d) = t + d" using Cons.prems by (intro wrap64_id) auto
  then show ?case using Cons.IH [of "t + d"] Cons.prems by (simp add: add.assoc)
qed simp

lemma sum_list_between:
  fixes ds :: "int list"
  assumes "\<forall>d\<in>set ds. lo \<le> d \<and> d \<le> hi"
  shows "int (length ds) * lo \<le> sum_list ds \<and> sum_list ds \<le> int (length ds) * hi"
  using assms by (induction ds) (auto simp: algebra_simps)

lemma avgDuration_between:
  assumes "ds \<noteq> []" and "\<forall>d\<in>set ds. 0 \<le> d \<and> lo \<le> d \<and> d \<le> hi" and "sum_list ds < 2 ^ 63"
  shows "\<exists>avg. avgDuration ds = Ret avg \<and> avg = sum_list ds div int (length ds) \<and> lo \<le> avg \<and> avg \<le> hi"
proof -
  have n: "0 < int (length ds)" using assms(1) by simp
  have "fold (\<lambda>d total. wrap64 (total + d)) ds 0 = sum_list ds" using wrap_sum [of ds 0] assms by simp
  moreover have "0 \<le> sum_list ds" using assms(2) by (intro sum_list_nonneg) auto
  ultimately have "avgDuration ds = Ret (sum_list ds div int (length ds))"
    using go_quot_small [OF _ n assms(3)] by (simp add: avgDuration_def)
  moreover have "int (length ds) * lo \<le> sum_list ds" "sum_list ds \<le> int (length ds) * hi"
    using sum_list_between [of ds lo hi] assms(2) by auto
  then have "lo \<le> sum_list ds div int (length ds)" "sum_list ds div int (length ds) \<le> hi"
    using zdiv_mono1 [OF _ n, of "int (length ds) * lo" "sum_list ds"] zdiv_mono1 [OF _ n, of "sum_list ds" "int (length ds) * hi"] n
    by simp_all
  ultimately show ?thesis by blast
qed

section \<open>Facts on the address\<close>

lemma getURL_again:
  assumes "getURL parse f = Ret (f', u)"
  shows "getURL parse f' = Ret (f', u)"
proof (cases "f_url f = []")
  case True
  then have "f' = f \<and> u = render_url f" using assms by (simp add: getURL_def apply_url_def) metis
  then show ?thesis using True by (simp add: getURL_def apply_url_def)
next
  case False
  let ?f1 = "if \<not> HasPrefix (f_url f) ''http'' \<and> \<not> HasPrefix (f_url f) ''ws''
      then f\<lparr>f_url := ''wss'' @ ''://'' @ f_url f\<rparr> else f"
  obtain parsed port where p: "parse (f_url ?f1) = Inr parsed"
    "(if pu_Port parsed = [] then default_port (pu_Scheme parsed) else Ret (fst (ParseInt (pu_Port parsed)))) = Ret port"
    and f': "f' = ?f1\<lparr>f_scheme := pu_Scheme parsed, f_host := pu_Hostname parsed, f_port := port,
        f_uri := (if pu_Path parsed \<noteq> [] then pu_Path parsed else f_uri ?f1)\<rparr>" and u: "u = render_url f'"
    using assms False unfolding getURL_def apply_url_def Let_def
    by (auto simp: go_bind_Ret_iff split: sum.splits)
  have url: "f_url f' = f_url ?f1" "f_url ?f1 \<noteq> []" using False by (simp_all add: f')
  have pre: "HasPrefix (f_url f') ''http'' \<or> HasPrefix (f_url f') ''ws''" by (simp add: url(1))
  have "apply_url parse f' = go_bind (Ret port) (\<lambda>port. Ret (f'\<lparr>f_scheme := pu_Scheme parsed, f_host := pu_Hostname parsed,
      f_port := port, f_uri := (if pu_Path parsed \<noteq> [] then pu_Path parsed else f_uri f')\<rparr>))"
    using pre url p by (simp add: apply_url_def Let_def)
  also have "... = Ret f'" by (simp add: f')
  finally show ?thesis by (simp add: getURL_def u)
qed

section \<open>Facts on the main loop\<close>

text \<open>A round in which dialling fails, and flags with which a client can be made.\<close>

definition dial_fails :: "round \<Rightarrow> bool" where
  "dial_fails rd \<longleftrightarrow> \<not> rd_interrupted rd \<and> (\<forall>u. rd_dial rd u \<noteq> None)"

definition flags_ok :: "main_env \<Rightarrow> url_flags \<Rightarrow> bool" where
  "flags_ok env f \<longleftrightarrow> (\<forall>t\<in>set (me_topics env). mapped_topic t)
     \<and> (\<exists>f' u. getURL (me_parse env) f = Ret (f', u) \<and> snd (ChangeHost (me_changeHost env) u NewConfig) = None)"

lemma Connect_fails:
  fixes ins :: "'o client"
  assumes "\<forall>t\<in>set (gokeys (cl_SubscribedTopics ins)). mapped_topic t" and "\<And>u. dial u \<noteq> None"
  shows "\<exists>c err u. client_Connect dial (Some auth) (ins, w) = Ret (c, Some err, u)"
proof -
  have a: "auth = (case Some auth of None \<Rightarrow> None | Some a \<Rightarrow> a)" by simp
  have ok: "\<forall>t\<in>set (gokeys (cl_SubscribedTopics ins)). needs_cache (ins\<lparr>cl_ctx := Some auth\<rparr>) t \<longrightarrow> has_cache ins t \<or> mapped_topic t"
    using assms(1) by blast
  obtain c w' remote where
    "client_Connect dial (Some auth) (ins, w) = Ret ((c, w'), map_option (\<lambda>e. ''Fail to connect: '' @ e) (dial remote), remote)"
    using Connect_cases [OF a refl refl, of ins dial w, unfolded if_P [OF ok]] by blast
  moreover obtain e where "dial remote = Some e" using assms(2) [of remote] by blast
  ultimately show ?thesis by simp
qed

lemma main_client_ok:
  assumes "flags_ok env f"
  shows "\<exists>f' ins. main_client env f = Ret (f', Inr (ins :: 'o client)) \<and> flags_ok env f'
    \<and> (\<forall>t\<in>set (gokeys (cl_SubscribedTopics ins)). mapped_topic t)"
proof -
  obtain f' u where u: "getURL (me_parse env) f = Ret (f', u)" and h: "snd (ChangeHost (me_changeHost env) u NewConfig) = None"
    and topics: "\<forall>t\<in>set (me_topics env). mapped_topic t" using assms by (auto simp: flags_ok_def)
  obtain cfg where cfg: "ChangeHost (me_changeHost env) u NewConfig = (cfg, None)" using h by (metis prod.collapse)
  define ins :: "'o client" where "ins = NewClient (cfg\<lparr>cfg_HeartbeatInterval := me_hbInterval env,
    cfg_HeartbeatFailCount := me_hbFailCount env, cfg_Symbol := me_symbol env\<rparr>)"
  obtain c args where st: "subscribe_topics (me_topics env) ins [] = (c, args)" by fastforce
  have "fst ` set (cl_SubscribedTopics c) \<subseteq> set (me_topics env)"
    using subscribe_topics_spec [OF st] by (auto simp: ins_def NewClient_def wanted_def)
  then have "\<forall>t\<in>set (gokeys (cl_SubscribedTopics c)). mapped_topic t" using topics by (auto simp: gokeys_def)
  moreover have "main_client env f = Ret (f', Inr c)"
    by (simp add: main_client_def u cfg ins_def [symmetric] client_Subscribe_def st Let_def)
  moreover have "flags_ok env f'" using topics getURL_again [OF u] h by (auto simp: flags_ok_def)
  ultimately show ?thesis by blast
qed

lemma main_dial_fails:
  fixes w :: "'o table_msg world"
  assumes "dial_fails rd" and "flags_ok env (mflags s)"
  shows "\<exists>f. main_dial env w rd s = Ret (s\<lparr>mflags := f, dials := Suc (dials s), failCount := failCount s + 1\<rparr>) \<and> flags_ok env f"
proof -
  obtain f and ins :: "'o client" where c: "main_client env (mflags s) = Ret (f, Inr ins)" "flags_ok env f"
    "\<forall>t\<in>set (gokeys (cl_SubscribedTopics ins)). mapped_topic t" using main_client_ok [OF assms(2)] by blast
  obtain dl auth where g: "getContext (me_deadline env) (me_apiKey env) (me_apiSecret env) = (dl, auth)" by fastforce
  obtain c' err u where "client_Connect (rd_dial rd) (Some auth) (ins, w) = Ret (c', Some err, u)"
    using Connect_fails [OF c(3), of "rd_dial rd" auth w] assms(1) by (auto simp: dial_fails_def)
  then have "main_dial env w rd s = Ret (s\<lparr>mflags := f, dials := Suc (dials s), failCount := failCount s + 1\<rparr>)"
    by (simp add: main_dial_def c(1) g Let_def)
  then show ?thesis using c(2) by blast
qed

lemma main_loop_stopped: "\<not> running s \<Longrightarrow> main_loop env w rds s = Ret s"
  by (cases rds) simp_all

lemma main_round_fails:
  assumes "dial_fails rd" and "maxReconnectCount env < 0 \<or> failCount s \<le> maxReconnectCount env" and "flags_ok env (mflags s)"
  shows "\<exists>ds f. main_round env w rd s = Ret (s\<lparr>delays := delays s @ ds, mflags := f, dials := Suc (dials s), failCount := failCount s + 1\<rparr>)
    \<and> flags_ok env f"
proof (cases "failCount s > 0")
  case True
  obtain d where d: "expectBackoff (failCount s) (maxDelayCount env) (reconnectDelay env) = Ret d" using expectBackoff_total by blast
  let ?ds = "[wrap64 (d + millisecond * rd_jitter rd)]"
  have "main_round env w rd s = main_dial env w rd (s\<lparr>delays := delays s @ ?ds\<rparr>)"
    using True d assms(1,2) by (auto simp: main_round_def dial_fails_def Let_def)
  moreover obtain f where "main_dial env w rd (s\<lparr>delays := delays s @ ?ds\<rparr>) =
      Ret (s\<lparr>delays := delays s @ ?ds, mflags := f, dials := Suc (dials s), failCount := failCount s + 1\<rparr>)" "flags_ok env f"
    using main_dial_fails [OF assms(1), of env "s\<lparr>delays := delays s @ ?ds\<rparr>" w] assms(3) by auto
  ultimately show ?thesis by (metis (no_types))
next
  case False
  then have "main_round env w rd s = main_dial env w rd s" by (simp add: main_round_def)
  moreover obtain f where "main_dial env w rd s = Ret (s\<lparr>mflags := f, dials := Suc (dials s), failCount := failCount s + 1\<rparr>)"
    "flags_ok env f" using main_dial_fails [OF assms(1,3)] by blast
  ultimately have "main_round env w rd s = Ret (s\<lparr>delays := delays s @ [], mflags := f, dials := Suc (dials s), failCount := failCount s + 1\<rparr>)"
    by simp
  then show ?thesis using \<open>flags_ok env f\<close> by blast
qed

lemma main_stops:
  assumes "\<forall>rd\<in>set rds. dial_fails rd" and "running s" and "0 \<le> failCount s" and "failCount s \<le> maxReconnectCount env + 1"
    and "0 \<le> maxReconnectCount env" and "int (length rds) > maxReconnectCount env + 1 - failCount s" and "flags_ok env (mflags s)"
  shows "\<exists>s'. main_loop env w rds s = Ret s' \<and> \<not> running s'
    \<and> int (dials s') = int (dials s) + (maxReconnectCount env + 1 - failCount s)"
  using assms
proof (induction rds arbitrary: s)
  case (Cons rd rds)
  show ?case
  proof (cases "failCount s = maxReconnectCount env + 1")
    case True
    then have "main_round env w rd s = Ret (s\<lparr>running := False\<rparr>)" using Cons.prems(5) by (simp add: main_round_def)
    then show ?thesis using Cons.prems(2) True by (simp add: main_loop_stopped)
  next
    case False
    then have "failCount s \<le> maxReconnectCount env" using Cons.prems(4) by simp
    then obtain ds f where r: "main_round env w rd s =
        Ret (s\<lparr>delays := delays s @ ds, mflags := f, dials := Suc (dials s), failCount := failCount s + 1\<rparr>)" (is "_ = Ret ?s1")
      and f: "flags_ok env f" using main_round_fails [of rd env s w] Cons.prems(1,7) by auto
    from Cons.IH [of ?s1] Cons.prems False f obtain s' where "main_loop env w rds ?s1 = Ret s'" "\<not> running s'"
      "int (dials s') = int (dials ?s1) + (maxReconnectCount env + 1 - failCount ?s1)" by auto
    then show ?thesis using r Cons.prems(2) by simp
  qed
qed simp

lemma main_goes_on:
  assumes "\<forall>rd\<in>set rds. dial_fails rd" and "running s" and "flags_ok env (mflags s)"
    and "maxReconnectCount env < 0 \<or> failCount s + int (length rds) \<le> maxReconnectCount env + 1"
  shows "\<exists>s'. main_loop env w rds s = Ret s' \<and> running s' \<and> dials s' = dials s + length rds"
  using assms
proof (induction rds arbitrary: s)
  case (Cons rd rds)
  obtain ds f where r: "main_round env w rd s =
      Ret (s\<lparr>delays := delays s @ ds, mflags := f, dials := Suc (dials s), failCount := failCount s + 1\<rparr>)" (is "_ = Ret ?s1")
    and f: "flags_ok env f" using main_round_fails [of rd env s w] Cons.prems by auto
  from Cons.IH [of ?s1] Cons.prems f show ?case by (auto simp: r)
qed simp

end
