(* ===== verification/Mock.thy ===== *)
theory Mock
  imports Replica
begin

text \<open>
  \<open>mock/trade.go\<close>, \<open>mock/upstream.go\<close> and \<open>utils/signature.go\<close>: the two sources of messages of
  the server, and the signature of a request. The random choices of the generator are an
  argument, so are its new ids and times; the HMAC is an argument.
\<close>

section \<open>The signature\<close>

definition signed_message :: "string \<Rightarrow> url \<Rightarrow> int \<Rightarrow> string option \<Rightarrow> string" where
  "signed_message method u expires body =
     (let path = (if url_RawQuery u \<noteq> [] then url_Path u @ ''?'' @ url_RawQuery u else url_Path u);
          bodyString = (case body of None \<Rightarrow> [] | Some b \<Rightarrow> TrimRight {CHR 0x0D, CHR 0x0A} b)
      in ToUpper method @ path @ show_int expires @ bodyString)"

definition GenerateSignature :: "(string \<Rightarrow> string \<Rightarrow> string) \<Rightarrow> string \<Rightarrow> string \<Rightarrow> url \<Rightarrow> int \<Rightarrow> string option \<Rightarrow> string" where
  "GenerateSignature hmac secret method u expires body = hmac secret (signed_message method u expires body)"

section \<open>Mock trades\<close>

record mock_state =
  mk_lastPrice :: float64
  mk_lastTick :: string

definition mock_init :: mock_state where
  "mock_init = \<lparr>mk_lastPrice = 0, mk_lastTick = []\<rparr>"

definition mock_price :: "int \<Rightarrow> float64" where
  "mock_price choice = (let price = 8100 + of_int choice * (1 / 2) in if price > 9900 then 9900 else price)"

definition mock_size :: "int \<Rightarrow> float32" where
  "mock_size choice = (let size = of_int choice in if size < 1 then 1 else if size > 1000 then 1000 else size)"

definition mock_tick :: "mock_state \<Rightarrow> float64 \<Rightarrow> string" where
  "mock_tick s price =
     (if price > mk_lastPrice s then ''PlusTick''
      else if price = mk_lastPrice s then
        (if Contains (mk_lastTick s) ''Zero'' then mk_lastTick s else ''Zero'' @ mk_lastTick s)
      else ''MinusTick'')"

text \<open>One trade: a choice below 1000, an id and a time.\<close>

definition mock_trade :: "int \<times> string \<times> int \<Rightarrow> mock_state \<Rightarrow> mock_state \<times> trade" where
  "mock_trade x s =
     (case x of (choice, trdID, ts) \<Rightarrow>
        let price = mock_price choice; tick = mock_tick s price
        in (\<lparr>mk_lastPrice = price, mk_lastTick = tick\<rparr>,
            \<lparr>td_Timestamp = Some ts, td_Symbol = ''XBTUSD'', td_Side = (if choice mod 2 = 0 then ''Buy'' else ''Sell''),
             td_Size = mock_size choice, td_Price = price, td_TickDirection = tick, td_TrdMatchID = trdID,
             td_GrossValue = 0, td_HomeNotional = 0, td_ForeignNotional = 0\<rparr>))"

fun mock_trades :: "(int \<times> string \<times> int) list \<Rightarrow> mock_state \<Rightarrow> mock_state \<times> trade list" where
  "mock_trades [] s = (s, [])"
| "mock_trades (x # xs) s =
     (let (s1, td) = mock_trade x s; (s2, tds) = mock_trades xs s1 in (s2, td # tds))"

text \<open>One batch of \<open>Trade\<close>.\<close>

definition Trade_batch :: "(int \<times> string \<times> int) list \<Rightarrow> mock_state \<times> 'o any_cache \<Rightarrow> (mock_state \<times> 'o any_cache) go" where
  "Trade_batch xs s =
     (case s of (st, cache) \<Rightarrow>
        let (st', tds) = mock_trades xs st;
            mockTrad = (emptyResponse :: trade dataResponse)\<lparr>Table := ''trade'', Action := ''insert'', Data := tds\<rparr>
        in go_bind (any_Append (TradeResponse mockTrad) cache) (\<lambda>cache'. Ret (st', cache')))"

text \<open>The rates it reports. An elapsed time of 0 makes the rate infinite; the count is then carried
  over to the next batch.\<close>

record rate_state =
  lastCount :: int
  lastElasped :: float64
  totalCount :: int
  hisMaxRate :: float64

definition rate_init :: rate_state where
  "rate_init = \<lparr>lastCount = 0, lastElasped = 0, totalCount = 0, hisMaxRate = 0\<rparr>"

definition Trade_rate :: "int \<Rightarrow> float64 \<Rightarrow> float64 \<Rightarrow> rate_state \<Rightarrow> rate_state \<times> (int \<times> float64 \<times> float64 \<times> float64) option" where
  "Trade_rate count elasped totalSpend s =
     (let s1 = s\<lparr>totalCount := wrap64 (totalCount s + count)\<rparr> in
      if elasped + lastElasped s = 0 then
        (s1\<lparr>lastCount := wrap64 (lastCount s + count), lastElasped := lastElasped s + elasped\<rparr>, None)
      else
        (let rate = of_int (wrap64 (count + lastCount s)) / (elasped + lastElasped s);
             most = (if rate > hisMaxRate s then rate else hisMaxRate s)
         in (s1\<lparr>hisMaxRate := most, lastCount := 0, lastElasped := 0\<rparr>,
             Some (wrap64 (count + lastCount s), rate, most, of_int (totalCount s1) / totalSpend))))"

section \<open>The upstream\<close>

text \<open>What the goroutine of \<open>Upstream\<close> receives in one turn of its select. A message of the order
  book comes with its rows, which become objects of the cache it is appended to.\<close>

datatype up_event =
    UpTrade "trade dataResponse"
  | UpInstrument "instrument dataResponse"
  | UpMBL "orderL2 option dataResponse"
  | UpNil
  | UpChanClosed
  | UpDone

fun up_topic :: "up_event \<Rightarrow> string" where
  "up_topic (UpTrade _) = ''trade''"
| "up_topic (UpInstrument _) = ''instrument''"
| "up_topic (UpMBL _) = ''orderBookL2''"
| "up_topic _ = []"

fun up_msg :: "up_event \<Rightarrow> 'o any_cache \<Rightarrow> 'o table_msg \<times> 'o any_cache" where
  "up_msg (UpTrade r) cache = (TradeResponse r, cache)"
| "up_msg (UpInstrument r) cache = (InstrumentResponse r, cache)"
| "up_msg (UpMBL r) cache = mbl_into r cache"
| "up_msg _ cache = (TradeResponse emptyResponse, cache)"

definition up_append :: "up_event \<Rightarrow> (string, 'o any_cache) gomap \<Rightarrow> (string, 'o any_cache) gomap go" where
  "up_append e caches =
     go_bind (go_deref (map_of caches (up_topic e))) (\<lambda>cache.
       let (m, cache1) = up_msg e cache in
       go_bind (any_Append m cache1) (\<lambda>cache'. Ret (AList.update (up_topic e) cache' caches)))"

text \<open>The goroutine; the flag says whether it goes on.\<close>

fun up_loop :: "up_event list \<Rightarrow> (string, 'o any_cache) gomap \<Rightarrow> ((string, 'o any_cache) gomap \<times> bool) go" where
  "up_loop [] caches = Ret (caches, True)"
| "up_loop (e # es) caches =
     (case e of
        UpDone \<Rightarrow> Ret (caches, False)
      | UpChanClosed \<Rightarrow> Ret (caches, False)
      | UpNil \<Rightarrow> up_loop es caches
      | _ \<Rightarrow> go_bind (up_append e caches) (up_loop es))"

text \<open>A round up to the connection: the client of the upstream, without caches of its own.\<close>

definition Upstream_connect :: "(url \<Rightarrow> error option) \<Rightarrow> (string, 'o any_cache) gomap \<Rightarrow> 'o table_msg world
    \<Rightarrow> ('o client_state \<times> error option \<times> url) go" where
  "Upstream_connect dial caches w =
     (let ins = NewClient (DisableCache NewConfig);
          (ins1, _) = client_Subscribe (gokeys caches) ins
      in client_Connect dial None (ins1, w))"

text \<open>The Go channels its goroutine reads, for the order book, the trades and the instruments.\<close>

definition Upstream_channels :: "(nat \<Rightarrow> string) \<Rightarrow> 'o client_state \<Rightarrow> ('o client_state \<times> nat option \<times> nat option \<times> nat option) go" where
  "Upstream_channels ids s =
     go_bind (GetResponse ''orderBookL2'' (ids 0) 0 s) (\<lambda>(s1, mblChan).
     go_bind (GetResponse ''trade'' (ids 1) 1 s1) (\<lambda>(s2, tdChan).
     go_bind (GetResponse ''instrument'' (ids 2) 2 s2) (\<lambda>(s3, insChan). Ret (s3, mblChan, tdChan, insChan))))"

text \<open>One round of \<open>Upstream\<close>, for what its goroutine receives; the flag says whether it goes on. After
  an error of the dialer the round is over.\<close>

definition Upstream_round :: "(url \<Rightarrow> error option) \<Rightarrow> (nat \<Rightarrow> string) \<Rightarrow> up_event list \<Rightarrow> 'o table_msg world
    \<Rightarrow> (string, 'o any_cache) gomap \<Rightarrow> ((string, 'o any_cache) gomap \<times> bool) go" where
  "Upstream_round dial ids es w caches =
     go_bind (Upstream_connect dial caches w) (\<lambda>(s, err, _).
       if err \<noteq> None then Ret (caches, False)
       else go_bind (Upstream_channels ids s) (\<lambda>_. up_loop es caches))"

section \<open>Facts\<close>

definition tick_names :: "string set" where
  "tick_names = {''PlusTick'', ''ZeroPlusTick'', ''MinusTick'', ''ZeroMinusTick''}"

text \<open>What the direction of a trade says about the two last prices.\<close>

definition tick_agrees :: "float64 \<Rightarrow> string \<Rightarrow> trade \<Rightarrow> bool" where
  "tick_agrees p0 t0 td \<longleftrightarrow>
     (td_TickDirection td = ''PlusTick'' \<longleftrightarrow> td_Price td > p0)
     \<and> (td_TickDirection td = ''MinusTick'' \<longleftrightarrow> td_Price td < p0)
     \<and> (td_Price td = p0 \<longrightarrow> td_TickDirection td = (if t0 \<in> {''PlusTick'', ''ZeroPlusTick''} then ''ZeroPlusTick'' else ''ZeroMinusTick''))"

lemma mock_price_range: "0 \<le> choice \<Longrightarrow> choice < 1000 \<Longrightarrow> 8100 \<le> mock_price choice \<and> mock_price choice < 8600"
proof -
  assume "0 \<le> choice" "choice < 1000"
  then have "0 \<le> (of_int choice :: rat)" "(of_int choice :: rat) \<le> of_int 999" by (simp_all only: of_int_0_le_iff of_int_le_iff)
  then show ?thesis by (simp add: mock_price_def Let_def)
qed

lemma mock_size_range: "0 \<le> choice \<Longrightarrow> choice < 1000 \<Longrightarrow> 1 \<le> mock_size choice \<and> mock_size choice \<le> 999"
proof -
  assume "0 \<le> choice" "choice < 1000"
  then have "(of_int choice :: rat) \<le> of_int 999" by (simp only: of_int_le_iff)
  then show ?thesis by (simp add: mock_size_def Let_def)
qed

lemma Contains_Zero:
  "\<not> Contains ''PlusTick'' ''Zero''" "\<not> Contains ''MinusTick'' ''Zero''"
  "Contains ''ZeroPlusTick'' ''Zero''" "Contains ''ZeroMinusTick'' ''Zero''"
  by simp_all

lemma mock_tick_agrees:
  assumes "mk_lastPrice s > 0 \<longrightarrow> mk_lastTick s \<in> tick_names" and "price > 0" and "0 \<le> mk_lastPrice s"
    and "td_Price td = price" and "td_TickDirection td = mock_tick s price"
  shows "mock_tick s price \<in> tick_names \<and> tick_agrees (mk_lastPrice s) (mk_lastTick s) td"
proof -
  consider "price > mk_lastPrice s" | "price = mk_lastPrice s" "mk_lastTick s \<in> tick_names" | "price < mk_lastPrice s"
    using assms(1,2) by fastforce
  then show ?thesis
  proof cases
    case 2
    then show ?thesis using assms(4,5) Contains_Zero
      by (auto simp: mock_tick_def tick_names_def tick_agrees_def)
  qed (use assms(4,5) in \<open>simp_all add: mock_tick_def tick_names_def tick_agrees_def\<close>)
qed

text \<open>The trades of a batch, each with the state before it.\<close>

fun ticks_agree :: "mock_state \<Rightarrow> trade list \<Rightarrow> bool" where
  "ticks_agree s [] = True"
| "ticks_agree s (td # tds) \<longleftrightarrow> tick_agrees (mk_lastPrice s) (mk_lastTick s) td \<and> td_TickDirection td \<in> tick_names
     \<and> 8100 \<le> td_Price td \<and> td_Price td < 8600 \<and> 1 \<le> td_Size td \<and> td_Size td \<le> 999
     \<and> ticks_agree \<lparr>mk_lastPrice = td_Price td, mk_lastTick = td_TickDirection td\<rparr> tds"

definition mock_ok :: "mock_state \<Rightarrow> bool" where
  "mock_ok s \<longleftrightarrow> 0 \<le> mk_lastPrice s \<and> (mk_lastPrice s > 0 \<longrightarrow> mk_lastTick s \<in> tick_names)"

lemma mock_trades_agree:
  assumes "\<forall>(choice, _)\<in>set xs. 0 \<le> choice \<and> choice < 1000" and "mock_ok s"
  shows "ticks_agree s (snd (mock_trades xs s)) \<and> length (snd (mock_trades xs s)) = length xs \<and> mock_ok (fst (mock_trades xs s))"
  using assms
proof (induction xs arbitrary: s)
  case (Cons x xs)
  obtain choice i ts where x: "x = (choice, i, ts)" by (cases x)
  obtain s1 td where m: "mock_trade x s = (s1, td)" by fastforce
  obtain s2 tds where r: "mock_trades xs s1 = (s2, tds)" by fastforce
  have ch: "0 \<le> choice" "choice < 1000" using Cons.prems(1) by (auto simp: x)
  have td: "td_Price td = mock_price choice" "td_TickDirection td = mock_tick s (mock_price choice)" "td_Size td = mock_size choice"
    and s1: "s1 = \<lparr>mk_lastPrice = td_Price td, mk_lastTick = td_TickDirection td\<rparr>"
    using m by (auto simp: mock_trade_def x Let_def)
  have p: "8100 \<le> mock_price choice" "mock_price choice < 8600" using mock_price_range [OF ch] by simp_all
  have tick: "mock_tick s (mock_price choice) \<in> tick_names" "tick_agrees (mk_lastPrice s) (mk_lastTick s) td"
    using mock_tick_agrees [OF _ _ _ td(1,2)] Cons.prems(2) p by (simp_all add: mock_ok_def)
  have ok: "mock_ok s1" using p tick td by (simp add: mock_ok_def s1)
  have "ticks_agree s1 tds \<and> length tds = length xs \<and> mock_ok s2"
    using Cons.IH [OF _ ok] Cons.prems(1) r by simp
  then show ?case using m r td tick p mock_size_range [OF ch] s1 by simp
qed simp

lemma Trade_batch_agrees:
  assumes "\<forall>(choice, _)\<in>set xs. 0 \<le> choice \<and> choice < 1000" and "mock_ok s" and "\<not> pipelineClosed tc"
  shows "\<exists>s' tds. Trade_batch xs (s, AnyTrade tc) = Ret (s', AnyTrade (tc\<lparr>pipeline := pipeline tc @
        [Some (CacheMsg (Some (TradeResponse (emptyResponse\<lparr>Table := ''trade'', Action := ''insert'', Data := tds\<rparr>))))]\<rparr>))
    \<and> ticks_agree s tds \<and> length tds = length xs \<and> mock_ok s'"
proof -
  obtain s' tds where r: "mock_trades xs s = (s', tds)" by fastforce
  have "ticks_agree s tds \<and> length tds = length xs \<and> mock_ok s'" using mock_trades_agree [OF assms(1,2)] r by simp
  moreover have "Trade_batch xs (s, AnyTrade tc) = Ret (s', AnyTrade (tc\<lparr>pipeline := pipeline tc @
        [Some (CacheMsg (Some (TradeResponse (emptyResponse\<lparr>Table := ''trade'', Action := ''insert'', Data := tds\<rparr>))))]\<rparr>))"
    using assms(3) by (simp add: Trade_batch_def r any_Append_def Append_def send_pipeline_def NewCacheInput_def)
  ultimately show ?thesis by blast
qed

section \<open>What the upstream passes on\<close>

text \<open>The messages of a table among the events.\<close>

fun up_trades :: "up_event list \<Rightarrow> trade dataResponse list" where
  "up_trades [] = []"
| "up_trades (UpTrade r # es) = r # up_trades es"
| "up_trades (_ # es) = up_trades es"

fun up_instruments :: "up_event list \<Rightarrow> instrument dataResponse list" where
  "up_instruments [] = []"
| "up_instruments (UpInstrument r # es) = r # up_instruments es"
| "up_instruments (_ # es) = up_instruments es"

fun up_books :: "up_event list \<Rightarrow> orderL2 option dataResponse list" where
  "up_books [] = []"
| "up_books (UpMBL r # es) = r # up_books es"
| "up_books (_ # es) = up_books es"

definition queue_of :: "'o table_msg list \<Rightarrow> 'o table_msg cache_input option list" where
  "queue_of ms = map (\<lambda>m. Some (CacheMsg (Some m))) ms"

lemma up_append_cache:
  assumes "map_of caches (up_topic e) = Some cache" and "up_msg e cache = (m, cache1)" and "any_Append m cache1 = Ret cache2"
  shows "up_append e caches = Ret (AList.update (up_topic e) cache2 caches)"
  using assms by (simp add: up_append_def)

text \<open>The three caches, with room in their pipelines.\<close>

definition up_caches :: "(string, 'o any_cache) gomap \<Rightarrow> (tradeCache, 'o table_msg, 'o table_msg) tableCache
    \<Rightarrow> (instrumentCache, 'o table_msg, 'o table_msg) tableCache \<Rightarrow> (mbl, 'o table_msg, 'o table_msg) tableCache \<Rightarrow> bool" where
  "up_caches caches td ins bk \<longleftrightarrow> map_of caches ''trade'' = Some (AnyTrade td) \<and> map_of caches ''instrument'' = Some (AnyInstrument ins)
     \<and> map_of caches ''orderBookL2'' = Some (AnyMBL bk) \<and> \<not> pipelineClosed td \<and> \<not> pipelineClosed ins \<and> \<not> pipelineClosed bk"

lemma up_loop_feeds:
  assumes "up_caches caches td ins bk" and "\<forall>e\<in>set es. e \<noteq> UpChanClosed \<and> e \<noteq> UpDone"
  shows "\<exists>caches' ms new. up_loop es caches = Ret (caches', True)
    \<and> up_caches caches' (td\<lparr>pipeline := pipeline td @ queue_of (map TradeResponse (up_trades es))\<rparr>)
        (ins\<lparr>pipeline := pipeline ins @ queue_of (map InstrumentResponse (up_instruments es))\<rparr>)
        (bk\<lparr>table := (table bk)\<lparr>objs := objs (table bk) @ new\<rparr>, pipeline := pipeline bk @ queue_of (map MBLResponse ms)\<rparr>)
    \<and> map (resolve (objs (table bk) @ new)) ms = up_books es"
  using assms
proof (induction es arbitrary: caches td ins bk)
  case Nil
  then have "up_loop [] caches = Ret (caches, True) \<and> up_caches caches (td\<lparr>pipeline := pipeline td @ queue_of (map TradeResponse (up_trades []))\<rparr>)
        (ins\<lparr>pipeline := pipeline ins @ queue_of (map InstrumentResponse (up_instruments []))\<rparr>)
        (bk\<lparr>table := (table bk)\<lparr>objs := objs (table bk) @ []\<rparr>, pipeline := pipeline bk @ queue_of (map MBLResponse [])\<rparr>)
    \<and> map (resolve (objs (table bk) @ [])) [] = up_books []"
    by (simp add: queue_of_def)
  then show ?case by blast
next
  case (Cons e es)
  note up = Cons.prems(1) [unfolded up_caches_def]
  have es: "\<forall>e\<in>set es. e \<noteq> UpChanClosed \<and> e \<noteq> UpDone" using Cons.prems(2) by simp
  show ?case
  proof (cases e)
    case (UpTrade r)
    let ?td = "td\<lparr>pipeline := pipeline td @ queue_of [TradeResponse r]\<rparr>"
    have "up_append e caches = Ret (AList.update ''trade'' (AnyTrade ?td) caches)"
      using up UpTrade by (simp add: up_append_def any_Append_def Append_def send_pipeline_def NewCacheInput_def queue_of_def)
    moreover have "up_caches (AList.update ''trade'' (AnyTrade ?td) caches) ?td ins bk" using up by (simp add: up_caches_def)
    then obtain caches' ms new where ih: "up_loop es (AList.update ''trade'' (AnyTrade ?td) caches) = Ret (caches', True)"
      "up_caches caches' (?td\<lparr>pipeline := pipeline ?td @ queue_of (map TradeResponse (up_trades es))\<rparr>)
        (ins\<lparr>pipeline := pipeline ins @ queue_of (map InstrumentResponse (up_instruments es))\<rparr>)
        (bk\<lparr>table := (table bk)\<lparr>objs := objs (table bk) @ new\<rparr>, pipeline := pipeline bk @ queue_of (map MBLResponse ms)\<rparr>)"
      "map (resolve (objs (table bk) @ new)) ms = up_books es" using Cons.IH [OF _ es] by blast
    then have "up_loop (e # es) caches = Ret (caches', True)
      \<and> up_caches caches' (td\<lparr>pipeline := pipeline td @ queue_of (map TradeResponse (up_trades (e # es)))\<rparr>)
        (ins\<lparr>pipeline := pipeline ins @ queue_of (map InstrumentResponse (up_instruments (e # es)))\<rparr>)
        (bk\<lparr>table := (table bk)\<lparr>objs := objs (table bk) @ new\<rparr>, pipeline := pipeline bk @ queue_of (map MBLResponse ms)\<rparr>)
      \<and> map (resolve (objs (table bk) @ new)) ms = up_books (e # es)"
      using calculation UpTrade by (simp add: queue_of_def)
    then show ?thesis by blast
  next
    case (UpInstrument r)
    let ?ins = "ins\<lparr>pipeline := pipeline ins @ queue_of [InstrumentResponse r]\<rparr>"
    have "up_append e caches = Ret (AList.update ''instrument'' (AnyInstrument ?ins) caches)"
      using up UpInstrument by (simp add: up_append_def any_Append_def Append_def send_pipeline_def NewCacheInput_def queue_of_def)
    moreover have "up_caches (AList.update ''instrument'' (AnyInstrument ?ins) caches) td ?ins bk" using up by (simp add: up_caches_def)
    then obtain caches' ms new where ih: "up_loop es (AList.update ''instrument'' (AnyInstrument ?ins) caches) = Ret (caches', True)"
      "up_caches caches' (td\<lparr>pipeline := pipeline td @ queue_of (map TradeResponse (up_trades es))\<rparr>)
        (?ins\<lparr>pipeline := pipeline ?ins @ queue_of (map InstrumentResponse (up_instruments es))\<rparr>)
        (bk\<lparr>table := (table bk)\<lparr>objs := objs (table bk) @ new\<rparr>, pipeline := pipeline bk @ queue_of (map MBLResponse ms)\<rparr>)"
      "map (resolve (objs (table bk) @ new)) ms = up_books es" using Cons.IH [OF _ es] by blast
    then have "up_loop (e # es) caches = Ret (caches', True)
      \<and> up_caches caches' (td\<lparr>pipeline := pipeline td @ queue_of (map TradeResponse (up_trades (e # es)))\<rparr>)
        (ins\<lparr>pipeline := pipeline ins @ queue_of (map InstrumentResponse (up_instruments (e # es)))\<rparr>)
        (bk\<lparr>table := (table bk)\<lparr>objs := objs (table bk) @ new\<rparr>, pipeline := pipeline bk @ queue_of (map MBLResponse ms)\<rparr>)
      \<and> map (resolve (objs (table bk) @ new)) ms = up_books (e # es)"
      using calculation UpInstrument by (simp add: queue_of_def)
    then show ?thesis by blast
  next
    case (UpMBL r)
    obtain refs st where al: "alloc_rows (Data r) (objs (table bk)) = (refs, st)" by fastforce
    obtain n1 where st: "st = objs (table bk) @ n1" and res: "\<And>more. map (map_option ((!) (st @ more))) refs = Data r"
      using alloc_rows_resolve [OF al] by blast
    let ?bk = "bk\<lparr>table := (table bk)\<lparr>objs := st\<rparr>, pipeline := pipeline bk @ queue_of [MBLResponse (retype r refs)]\<rparr>"
    have "up_append e caches = Ret (AList.update ''orderBookL2'' (AnyMBL ?bk) caches)"
      using up UpMBL al by (simp add: up_append_def mbl_into_def any_Append_def Append_def send_pipeline_def NewCacheInput_def queue_of_def)
    moreover have "up_caches (AList.update ''orderBookL2'' (AnyMBL ?bk) caches) td ins ?bk" using up by (simp add: up_caches_def)
    then obtain caches' ms new where ih: "up_loop es (AList.update ''orderBookL2'' (AnyMBL ?bk) caches) = Ret (caches', True)"
      "up_caches caches' (td\<lparr>pipeline := pipeline td @ queue_of (map TradeResponse (up_trades es))\<rparr>)
        (ins\<lparr>pipeline := pipeline ins @ queue_of (map InstrumentResponse (up_instruments es))\<rparr>)
        (?bk\<lparr>table := (table ?bk)\<lparr>objs := objs (table ?bk) @ new\<rparr>, pipeline := pipeline ?bk @ queue_of (map MBLResponse ms)\<rparr>)"
      "map (resolve (objs (table ?bk) @ new)) ms = up_books es" using Cons.IH [OF _ es] by blast
    have "resolve (objs (table bk) @ (n1 @ new)) (retype r refs) = r"
      using res [of new] by (simp add: resolve_def st)
    then have "up_loop (e # es) caches = Ret (caches', True)
      \<and> up_caches caches' (td\<lparr>pipeline := pipeline td @ queue_of (map TradeResponse (up_trades (e # es)))\<rparr>)
        (ins\<lparr>pipeline := pipeline ins @ queue_of (map InstrumentResponse (up_instruments (e # es)))\<rparr>)
        (bk\<lparr>table := (table bk)\<lparr>objs := objs (table bk) @ (n1 @ new)\<rparr>,
            pipeline := pipeline bk @ queue_of (map MBLResponse (retype r refs # ms))\<rparr>)
      \<and> map (resolve (objs (table bk) @ (n1 @ new))) (retype r refs # ms) = up_books (e # es)"
      using ih calculation UpMBL by (simp add: queue_of_def st)
    then show ?thesis by blast
  next
    case UpNil
    then show ?thesis using Cons.IH [OF Cons.prems(1) es] by simp
  qed (use Cons.prems(2) in simp_all)
qed

end
