(* ===== verification/DemoNet.thy ===== *)
theory DemoNet
  imports Demo ServerHttp Examples Mock
begin

text \<open>
  Concrete sessions, servers, clients and tables, on which the hypotheses of the properties of
  the network side and of the filters are shown to hold.
\<close>

section \<open>A server\<close>

definition demo_conn :: "nat conn" where
  "demo_conn = \<lparr>cn_remote = ''10.0.0.1:4000'', cn_out = [], cn_closed = False\<rparr>"

definition demo_session :: "nat session" where
  "demo_session = \<lparr>se_cfg = server_NewConfig, se_ID = ''id'', se_clientID = [], se_accountID = [], se_addr = ''10.0.0.1:4000'',
     se_conn = Some demo_conn, se_isClosed = False, se_closeOnce = False, se_done = False, se_cleanup = None,
     se_sending = True, se_sendErr = None, se_beating = True, se_hbCounter = 0\<rparr>"

lemma demo_session_simps [simp]:
  "alive demo_session" "se_beating demo_session" "se_hbCounter demo_session = 0" "se_cfg demo_session = server_NewConfig"
  "cn_out (the (se_conn demo_session)) = []" "se_conn demo_session = Some demo_conn" "se_cleanup demo_session = None"
  by (simp_all add: demo_session_def demo_conn_def alive_def)

definition demo_server :: "nat server" where
  "demo_server = \<lparr>sv_cfg = server_NewConfig, sv_done = False, sv_Startup = None, sv_Clients = 1, sv_clients = [(''id'', 0)],
     sv_dataCaches = [(''orderBookL2'', 0)], sv_caches = [AnyMBL demo_cache], sv_sessions = [demo_session],
     sv_world = demo_world [] demo_dests, sv_subscribers = []\<rparr>"

lemma demo_server_simps [simp]:
  "sv_caches demo_server = [AnyMBL demo_cache]" "sv_sessions demo_server = [demo_session]"
  "sv_world demo_server = demo_world [] demo_dests" "sv_dataCaches demo_server = [(''orderBookL2'', 0)]"
  "sv_subscribers demo_server = []" "sv_cfg demo_server = server_NewConfig" "sv_clients demo_server = [(''id'', 0)]"
  "sv_Clients demo_server = 1" "up demo_server 0"
  by (simp_all add: demo_server_def up_def)

definition demo_op :: OperationRequest where
  "demo_op = \<lparr>Operation = ''subscribe'', Args = [''orderBookL2:XBTUSD'', ''quote'']\<rparr>"

definition demo_env :: "(nat, string) server_env" where
  "demo_env = \<lparr>env_hash = (\<lambda>s. s), env_uuid3 = (\<lambda>ns name. name), env_now = 1000, env_wr = (\<lambda>_ _. None),
     env_dec = (\<lambda>_. Inr demo_op), env_origin = (\<lambda>_. Some [])\<rparr>"

lemma demo_env_simps [simp]:
  "env_wr demo_env xs x = None" "env_now demo_env = 1000" "env_hash demo_env s = s" "env_uuid3 demo_env ns name = name"
  by (simp_all add: demo_env_def)

definition demo_sub :: subscriber where
  "demo_sub = \<lparr>sub_session = 0, sub_cache = 0, sub_topic = ''orderBookL2'', sub_depth = 0, sub_req = demo_op\<rparr>"

lemma demo_sub_simps [simp]: "sub_session demo_sub = 0" "sub_cache demo_sub = 0" "sub_depth demo_sub = 0"
  by (simp_all add: demo_sub_def)

lemma demo_world_fresh:
  fixes ds :: "(string, nat option) gomap"
  assumes f: "s \<notin> fst ` set ds" "r \<notin> refs_of ds"
  shows "fresh_for s r 0 (demo_world [] ds :: 'm world)"
proof -
  have "all_dests (chans (demo_world [] ds :: 'm world) m) = (if m = 0 then ds else [])" for m
    by (simp add: all_dests_def demo_world_def newRspChannel_def)
  then show ?thesis using f by (auto simp: fresh_for_def chan_refs_def refs_of_def)
qed

definition demo_request :: "nat upgrade_request" where
  "demo_request = \<lparr>rq_header = (\<lambda>_. ''900''), rq_forwarded = None, rq_query = [], rq_host = [], rq_conn = Some demo_conn\<rparr>"

section \<open>A client\<close>

definition demo_client :: "nat client" where
  "demo_client = (NewClient NewConfig)\<lparr>cl_SubscribedTopics := [(''trade'', None)]\<rparr>"

definition demo_td :: "trade dataResponse" where
  "demo_td = NewTradePartial\<lparr>Action := InsertAction, Data := [demo_trade]\<rparr>"

definition demo_decoders :: decoders where
  "demo_decoders = \<lparr>dec_info = (\<lambda>_. Inl []), dec_auth = (\<lambda>_. Inl []), dec_sub = (\<lambda>_. Inl []), dec_err = (\<lambda>_. Inl []),
     dec_ins = (\<lambda>_. Inl []), dec_td = (\<lambda>_. Inr demo_td), dec_mbl = (\<lambda>_. Inl [])\<rparr>"

text \<open>The text of a trade message.\<close>

definition demo_trade_text :: string where
  "demo_trade_text = quoted ''table'' @ '':'' @ quoted ''trade''"

text \<open>A connected client that asks for a topic in its own spelling, and what the server answers.\<close>

definition demo_asking :: "nat client" where
  "demo_asking = (NewClient NewConfig)\<lparr>cl_connected := True, cl_ws := True\<rparr>"

definition demo_ask :: OperationRequest where
  "demo_ask = \<lparr>Operation = ''subscribe'', Args = [''orderBookL2:XBTUSD'']\<rparr>"

definition demo_answer :: SubscribeResponse where
  "demo_answer = \<lparr>Success = True, Subscribe = ''orderBookL2:XBTUSD'', sub_Request = demo_ask\<rparr>"

definition demo_reader :: decoders where
  "demo_reader = demo_decoders\<lparr>dec_sub := unmarshal_answer\<rparr>"

definition demo_info :: InfoResponse where
  "demo_info = \<lparr>Info = ''Welcome'', Version = ''1'', info_Timestamp = 1000, Docs = [], Limit = [(''remaining'', JNum ''40'')],
     FrontID = ''0'', SessionID = ''id''\<rparr>"

text \<open>The rows of one trade, as some other package may write them.\<close>

definition demo_enc_trade :: "trade \<Rightarrow> json" where "demo_enc_trade t = JObj [(''symbol'', jstr (td_Symbol t))]"
definition demo_dec_trade :: "json \<Rightarrow> error + trade" where "demo_dec_trade v = Inr demo_trade"

lemma demo_texts_ok:
  "info_ok (\<lambda>t. JNum (show_int t)) set_int 0 demo_info" "auth_ok \<lparr>auth_Success = True, auth_Request = []\<rparr>"
  "error_ok (no_channel demo_sub)" "table_ok demo_enc_trade demo_dec_trade demo_td"
proof -
  have "json_number ''40''" "list_all number_char ''40''" "raw_ok ''symbol''" by code_simp+
  then show "info_ok (\<lambda>t. JNum (show_int t)) set_int 0 demo_info" "auth_ok \<lparr>auth_Success = True, auth_Request = []\<rparr>"
    "error_ok (no_channel demo_sub)" "table_ok demo_enc_trade demo_dec_trade demo_td"
    by (simp_all add: info_ok_def demo_info_def map_sorted_def show_int_number ParseInt_show auth_ok_def error_ok_def
        table_ok_def demo_td_def reads_back_def demo_enc_trade_def demo_dec_trade_def NewTradePartial_def emptyResponse_def
        emptyTable_def tableResponse.defs dataResponse.defs)
qed

text \<open>A subscription at a depth the concrete cache does not have.\<close>

definition demo_deep :: subscriber where "demo_deep = demo_sub\<lparr>sub_depth := 7\<rparr>"

lemma demo_deep_facts:
  "any_GetRspChannel Realtime 7 (AnyMBL demo_cache :: nat any_cache) = Ret None"
  "sub_depth demo_deep = 7" "sub_session demo_deep = 0" "sub_cache demo_deep = 0" "sub_req demo_deep = demo_op" "Operation demo_op = ''subscribe''"
  "\<not> InfoPattern (ErrResponse_String (no_channel demo_deep) @ [CHR 0x0A])"
proof -
  have d: "show_int 7 = ''7''" by code_simp
  have "ErrResponse_String (no_channel demo_deep) @ [CHR 0x0A] = ErrResponse_String \<lparr>Error = ''Fail to get response Channel for orderBookL2 on depth 7'',
      Status = 0, Meta = [], err_Request = demo_op\<rparr> @ [CHR 0x0A]"
    using d by (simp add: no_channel_def demo_deep_def demo_sub_def)
  moreover have "\<not> InfoPattern (ErrResponse_String \<lparr>Error = ''Fail to get response Channel for orderBookL2 on depth 7'',
      Status = 0, Meta = [], err_Request = demo_op\<rparr> @ [CHR 0x0A])"
    by code_simp
  ultimately show "\<not> InfoPattern (ErrResponse_String (no_channel demo_deep) @ [CHR 0x0A])" by simp
  show "any_GetRspChannel Realtime 7 (AnyMBL demo_cache :: nat any_cache) = Ret None"
    by (simp add: any_GetRspChannel_def GetRspChannel_def Realtime_def go_at_def go_nth_def demo_cache_def)
qed (simp_all add: demo_deep_def demo_sub_def demo_op_def)

lemma demo_topic:
  "IsValidTopic ''ORDERBOOKL2''" "canonical ''ORDERBOOKL2'' = ''orderBookL2''"
  "find (\<lambda>name. ToLower name = ToLower ''ORDERBOOKL2'') symbolSubs = Some ''orderBookL2''"
  by code_simp+

lemma demo_unsubscribed: "\<not> isSubscribed demo_asking t"
  by (simp add: isSubscribed_def demo_asking_def NewClient_def)

lemma demo_asks:
  "\<exists>c1. client_Subscribe [''ORDERBOOKL2''] demo_asking = (c1, Some demo_ask)"
  by (simp add: client_Subscribe_def demo_unsubscribed demo_topic normalizeTopic_def)
    (simp add: demo_ask_def demo_asking_def NewClient_def NewConfig_def)

lemma demo_answered: "answer demo_server demo_ask ''orderBookL2:XBTUSD'' = demo_answer"
  by (simp add: answer_def demo_answer_def topic_name_def)

definition demo_text :: string where
  "demo_text = SubscribeResponse_String demo_answer @ [CHR 0x0A]"

lemma demo_text_plain: "\<not> is_heartbeat demo_text \<and> \<not> InfoPattern demo_text"
  by code_simp

section \<open>The example client\<close>

definition demo_main :: main_env where
  "demo_main = \<lparr>maxReconnectCount = 2, maxDelayCount = 6, reconnectDelay = 3, me_deadline = 0, me_apiKey = [], me_apiSecret = [],
     me_hbInterval = second * 15, me_hbFailCount = 3, me_symbol = ''XBTUSD'', me_topics = defaultTopics, me_filters = [],
     me_parse = (\<lambda>_. Inl []),
     me_changeHost = (\<lambda>_. Inr \<lparr>url_Scheme = ''wss'', url_Host = ''www.btcmex.com'', url_Path = ''/realtime'', url_RawQuery = []\<rparr>)\<rparr>"

definition demo_round :: round where
  "demo_round = \<lparr>rd_jitter = 7, rd_interrupted = False, rd_dial = (\<lambda>_. Some ''refused''), rd_ids = (\<lambda>_. []), rd_end = RemoteClosed,
     rd_last = 0\<rparr>"

lemma demo_flags_ok: "flags_ok demo_main default_flags"
  by (simp add: flags_ok_def demo_main_def defaultTopics_def mapped_topic_def getURL_def apply_url_def default_flags_def ChangeHost_def)

text \<open>Caches an upstream may feed, and a message of the order book.\<close>

definition up_ins :: "(instrumentCache, 'i, 'm) tableCache" where
  "up_ins = \<lparr>table = newInstrumentCache, channelGroup = [Some [(0, 0)], None, None], pipeline = [],
     pipelineClosed = False, readyClosed = True, cacheReady = True, cacheClosed = False, answers = []\<rparr>"

definition demo_up :: "(string, nat any_cache) gomap" where
  "demo_up = [(''trade'', AnyTrade trade_demo), (''instrument'', AnyInstrument up_ins), (''orderBookL2'', AnyMBL demo_cache)]"

definition demo_rows :: "orderL2 option dataResponse" where
  "demo_rows = emptyResponse\<lparr>Table := ''orderBookL2'', Action := UpdateAction, Data := [None]\<rparr>"

section \<open>A table\<close>

definition demo_fields :: struct_type where
  "demo_fields = [\<lparr>sf_Name = ''Symbol'', sf_json = Some ''symbol'', sf_Kind = KString\<rparr>,
     \<lparr>sf_Name = ''Price'', sf_json = Some ''price,omitempty'', sf_Kind = KFloat\<rparr>]"

definition demo_row :: "string \<Rightarrow> rat \<Rightarrow> go_struct" where
  "demo_row symbol price = zip demo_fields [VStr symbol, VFloat price]"

definition demo_models :: table_models where
  "demo_models = Some [(''trade'', Some (demo_row [] 0))]"

text \<open>\<open>select Symbol from trade where Price > v\<close>\<close>

definition demo_select :: "val_type \<Rightarrow> string \<Rightarrow> sql_select" where
  "demo_select t v = \<lparr>From = [AliasedTableExpr (TableName ''trade'') []],
     SelectExprs = [AliasedExpr (ColName ''symbol'') []],
     Where = Some (ComparisonExpr ''>'' (ColName ''Price'') (Literal (SQLVal t v)))\<rparr>"

definition demo_columns :: "(string, ColumnDef) gomap" where
  "demo_columns = [(''symbol'', \<lparr>col_name = ''Symbol'', col_alias = [], col_define = demo_fields ! 0\<rparr>),
     (''price'', \<lparr>col_name = ''Price'', col_alias = [], col_define = demo_fields ! 1\<rparr>)]"

lemma demo_row_fields:
  "find_field (demo_row symbol price) ''Symbol'' = Some (demo_fields ! 0, VStr symbol)"
  "find_field (demo_row symbol price) ''Price'' = Some (demo_fields ! 1, VFloat price)"
  "sf_Name (demo_fields ! 0) = ''Symbol''" "sf_json (demo_fields ! 0) = Some ''symbol''"
  "sf_Name (demo_fields ! 1) = ''Price''" "sf_Name (demo_fields ! Suc 0) = ''Price''"
  by (simp_all add: find_field_def demo_row_def demo_fields_def)

lemma demo_lower: "ToLower ''Symbol'' = ''symbol''" "ToLower ''Price'' = ''price''" "ToLower ''symbol'' = ''symbol''"
  by code_simp+

lemma demo_parse:
  "\<exists>tbl. parseSelect (\<lambda>_. []) demo_models (demo_select t v) = Ret (Inr tbl) \<and> tbl_columns tbl = demo_columns
    \<and> tbl_selected tbl = [(''Symbol'', ''symbol'')]
    \<and> tbl_where tbl = Some (compare_fn ''>'' ''Price'' t v) \<and> TableDef_GetName tbl = ''trade''"
  by (simp add: parseSelect_def parseTable_def demo_select_def demo_models_def go_at_def type_of_def GetFieldTypes_def
      demo_row_def demo_fields_def demo_lower parseComparison_def ColumnDef_GetName_def demo_columns_def Let_def
      TableDef_GetName_def)

lemma demo_literals: "fst (ParseFloat ''9000'') = 9000" "fst (ParseFloat ''9000.0'') = 9000" "fst (ParseInt ''9000'') = 9000"
  by (simp_all add: ParseFloat_def ParseInt_def split_sign_def all_digits_def is_digit_def digits_val_def pow10_def parse_exponent_def Let_def)

lemma demo_truncated:
  "\<exists>tbl1 tbl2. parseSelect (\<lambda>_. []) demo_models (demo_select IntVal ''9000'') = Ret (Inr tbl1)
    \<and> parseSelect (\<lambda>_. []) demo_models (demo_select FloatVal ''9000.0'') = Ret (Inr tbl2)
    \<and> GetFilter tbl1 [Some (demo_row ''A'' (18001 / 2))] = Ret []
    \<and> GetFilter tbl2 [Some (demo_row ''A'' (18001 / 2))] = Ret [[(''symbol'', VStr ''A'')]]"
proof -
  obtain t1 where t1: "parseSelect (\<lambda>_. []) demo_models (demo_select IntVal ''9000'') = Ret (Inr t1)"
    "tbl_where t1 = Some (compare_fn ''>'' ''Price'' IntVal ''9000'')" using demo_parse by blast
  obtain t2 where t2: "parseSelect (\<lambda>_. []) demo_models (demo_select FloatVal ''9000.0'') = Ret (Inr t2)"
    "tbl_where t2 = Some (compare_fn ''>'' ''Price'' FloatVal ''9000.0'')" "tbl_columns t2 = demo_columns"
    "tbl_selected t2 = [(''Symbol'', ''symbol'')]" using demo_parse by blast
  let ?r = "Some (demo_row ''A'' (18001 / 2))"
  have v: "GetFieldValue ?r ''Price'' = Ret (VFloat (18001 / 2))" "GetFieldValue ?r ''Symbol'' = Ret (VStr ''A'')"
    by (simp_all add: GetFieldValue_def demo_row_fields)
  have "compare_fn ''>'' ''Price'' IntVal ''9000'' ?r = Ret False" "compare_fn ''>'' ''Price'' FloatVal ''9000.0'' ?r = Ret True"
    by (simp_all add: compare_fn_def operatorMapper_def int_fn_def float_fn_def v parseInt_def parseFloat_def go_trunc_def demo_literals)
  moreover have "select_row t2 ?r = Ret [(''symbol'', VStr ''A'')]"
    by (simp add: select_row_def t2 demo_columns_def v ColumnDef_GetName_def demo_row_fields select_key_def ColumnDef_HasAlias_def
        ColumnDef_GetJSONName_def json_name_def)
  ultimately show ?thesis using t1 t2 by (simp add: GetFilter_def)
qed

end
