(* ===== verification/Spec2Isabelle.thy ===== *)
theory Spec2Isabelle
  imports DemoNet
begin

text \<open>
  A verification development for wstester, a client, a server and a mock of a market data feed
  over websockets, written in Go.

  \<^bold>\<open>The program.\<close> A server (\<open>server/server.go\<close>) accepts websocket connections, gives each a session
  (\<open>server/session.go\<close>) and answers subscriptions to topics. Every topic has a cache
  (\<open>utils/cache*.go\<close>): trades, instruments, and the market-by-level order book, the last for two
  topics. A cache has a queue of inputs, the pipeline, and for every depth a response channel
  (\<open>utils/channel.go\<close>), which passes what the cache publishes on to the sessions registered with
  it; a subscription takes a snapshot and then follows the changes. The client
  (\<open>client/client.go\<close>) subscribes, reads the websocket, and runs caches of the same kind for its
  user. The caches of the server are filled by a generator of trades and by a client of a
  remote exchange (\<open>mock/*.go\<close>). The example client (\<open>examples/client\<close>) reconnects with
  backoff and filters rows with SQL statements (\<open>utils/linq.go\<close>).

  \<^bold>\<open>Theories and sources.\<close>
  \<^item> \<^theory_text>\<open>Prelude\<close>: results of Go code, slices, maps, 64-bit integers. \<^theory_text>\<open>GoText\<close>: the functions of
    \<open>strings\<close> and \<open>strconv\<close> the code calls.
  \<^item> \<^theory_text>\<open>Messages\<close>, \<^theory_text>\<open>Json\<close>, \<^theory_text>\<open>Texts\<close>: \<open>models/*.go\<close>, the messages and their recognition, and the
    JSON texts of requests and responses. \<^theory_text>\<open>Heartbeats\<close>, \<^theory_text>\<open>HeartbeatPair\<close>: the
    counting loops of both ends, alone and on one connection.
  \<^item> \<^theory_text>\<open>PriceList\<close>, \<^theory_text>\<open>GoSets\<close>: \<open>utils/common.go\<close>, \<open>utils/slice.go\<close> and \<open>utils/set*.go\<close>.
  \<^item> \<^theory_text>\<open>OrderBook\<close>, \<^theory_text>\<open>MBLCache\<close>: \<open>utils/cache_mbl.go\<close>, the book and its three row handlers, then
    messages, partials and limited depths. \<^theory_text>\<open>DepthStreams\<close>, \<^theory_text>\<open>Partials\<close>, \<^theory_text>\<open>PartialMerge\<close>: what their readers
    see.
  \<^item> \<^theory_text>\<open>Channels\<close>: \<open>utils/channel.go\<close>. \<^theory_text>\<open>CachePipeline\<close>: \<open>utils/cache.go\<close>. \<^theory_text>\<open>TableCaches\<close>:
    \<open>utils/cache_trade.go\<close> and \<open>utils/cache_instrument.go\<close>. \<^theory_text>\<open>Caches\<close>, \<^theory_text>\<open>Delivery\<close>: the three caches on
    the pipeline, and the way of their messages through the channels. \<^theory_text>\<open>Replica\<close>: a book and its copy
    at the other end.
  \<^item> \<^theory_text>\<open>Client\<close>, \<^theory_text>\<open>ClientStreams\<close>: \<open>client/config.go\<close> and \<open>client/client.go\<close>.
  \<^item> \<^theory_text>\<open>Session\<close>: \<open>server/config.go\<close>, \<open>server/errors.go\<close>, \<open>server/notify.go\<close>, \<open>server/session.go\<close>.
    \<^theory_text>\<open>Server\<close>, \<^theory_text>\<open>ServerFacts\<close>, \<^theory_text>\<open>ServerHttp\<close>: \<open>server/server.go\<close> and \<open>examples/server\<close>;
    \<^theory_text>\<open>Logging\<close>: the level of \<open>utils/log\<close>. \<^theory_text>\<open>Subscription\<close>, \<^theory_text>\<open>Handshake\<close>: client, server and caches
    together.
  \<^item> \<^theory_text>\<open>Linq\<close>: \<open>utils/linq.go\<close>. \<^theory_text>\<open>Examples\<close>: \<open>examples/client\<close>. \<^theory_text>\<open>Mock\<close>: \<open>mock/*.go\<close> and
    \<open>utils/signature.go\<close>.
  \<^item> \<^theory_text>\<open>Demo\<close>, \<^theory_text>\<open>DemoNet\<close>: concrete books, channels, servers, clients and tables, on which the
    hypotheses of the properties below are shown to hold.

  \<^bold>\<open>The model.\<close> A method is a function from the state it reads to the state it leaves. Results are
  \<open>Ret\<close>, \<open>Panic\<close> with the kind of the panic, or \<open>Blocked\<close>, a goroutine that waits for ever. Order
  objects are shared by pointer, so a book has a store of them and rows are references; caches,
  channels and sessions that are shared have numbers. The goroutines of a cache, a channel, a
  session, a subscription and a client are functions of one turn, which run in any order the
  theorems quantify over; turns do not overlap. A Go channel is the list of what was sent. The
  order in which Go ranges over a map is the order of the association list, or an argument.

  \<^bold>\<open>Parameters.\<close> Code outside the repository is an argument where it is used: \<open>url.Parse\<close>, the
  dialer and listening, the SQL parser, the HMAC, MD5 and UUIDs, the encoders and decoders of
  times and of the rows of tables, the outcome of a write, the clock, random numbers, new session ids.

  \<^bold>\<open>Bounds and fuel.\<close> The handler of a connection takes fuel, the number of frames and one, which
  is enough (\<open>ws_loop_fuel\<close>): every message uses up a frame. The JSON parser takes twice the length
  of the text and two, which \<open>json_value_print\<close> shows to be enough for what is printed. All other
  loops recurse on their data or have a proof of termination. Prices and sizes are rational
  numbers, without rounding. Integers wrap at 64 bits where the code adds, multiplies or
  shifts. Queues have no bound: a send to a full one waits.

  \<^bold>\<open>What is shown.\<close> The handlers keep the book sorted and consistent; every reader of a limited
  depth sees the top of the book after insertions and updates, and after the deletion of one
  level, not of several; partials and snapshots agree; channels deliver in order and drop a slow
  reader; caches keep their state machine; a subscription gets its snapshot first and then every
  change; a client that follows the full channel has the book of the server; sessions stay closed and
  count their heartbeats, and two ends in the same mode never miscount; the client and the server agree on
  the topics; filters select what their statement says; reconnecting stops when it should. Where
  the code does not do this, a theorem says what it does.

  The locales are \<open>price_order\<close> and \<open>price_side\<close> (sorted lists of either order, two sides of a
  book), \<open>set_iface\<close> (the \<open>Set\<close> interface), \<open>cache_contract\<close> (what the pipeline needs of a cache) and
  \<open>sub_codec\<close> (what the ends of a subscription need of their encoding); all are interpreted on
  the definitions of the model.

  \<^bold>\<open>Not modelled.\<close> The functions of \<open>utils/log\<close> that write a line, which only call a library; the
  empty \<open>kafka\<close> package; the flags of the example client; listening and the redirections of
  \<open>net/http\<close>; overlapping access to the map of sessions, for which the code has no lock.
\<close>

section \<open>The order book: streams of messages\<close>

text \<open>
  C1: a batch of insertions keeps every limited-depth stream in step with the book. For rows
  that fit the book, the handlers return without error, the book is what the message says,
  and a subscriber of depth \<open>n\<close> who applies the messages published for that depth, in their
  order, to the top \<open>n\<close> levels before the batch has exactly the top \<open>n\<close> levels after it;
  the full channel gets the message itself.
\<close>

theorem insert_stream:
  assumes "book_ok c" and "depths_ok c" and "fits c data" and "Action data = InsertAction"
    and "0 < n" and "int n \<in> set (gokeys (realtime c))"
  shows "\<exists>c1 limits. applyChange c data = Ret (c1, Some limits, None)
    \<and> (case dispatchRsp c1 data (Some limits) of (c', ps) \<Rightarrow>
         book_ok c' \<and> l2_book c' = read_msg c data (l2_book c)
         \<and> read_pubs c' (int n) ps (view n c) = view n c' \<and> filter (\<lambda>p. fst p = 0) ps = [(0, data)])"
  by (rule view_after_insert [OF assms])

theorem insert_stream_demo:
  "\<exists>c1 limits. applyChange demo (demo_msg InsertAction [5, 9]) = Ret (c1, Some limits, None)
    \<and> (case dispatchRsp c1 (demo_msg InsertAction [5, 9]) (Some limits) of (c', ps) \<Rightarrow>
         book_ok c' \<and> l2_book c' = read_msg demo (demo_msg InsertAction [5, 9]) (l2_book demo)
         \<and> read_pubs c' (int 1) ps (view 1 demo) = view 1 c'
         \<and> filter (\<lambda>p. fst p = 0) ps = [(0, demo_msg InsertAction [5, 9])])"
  by (rule insert_stream [OF demo_book_ok demo_depths_ok demo_fits_insert])
    (simp_all add: gokeys_def demo_simps)

text \<open>
  C2: the same for a batch of size updates: every limited-depth stream stays in step with the
  book, and the book is the one the message describes.
\<close>

theorem update_stream:
  assumes "book_ok c" and "depths_ok c" and "fits c data" and "Action data = UpdateAction"
    and "0 < n" and "int n \<in> set (gokeys (realtime c))"
  shows "\<exists>c1 limits. applyChange c data = Ret (c1, Some limits, None)
    \<and> (case dispatchRsp c1 data (Some limits) of (c', ps) \<Rightarrow>
         book_ok c' \<and> l2_book c' = read_msg c data (l2_book c)
         \<and> read_pubs c' (int n) ps (view n c) = view n c' \<and> filter (\<lambda>p. fst p = 0) ps = [(0, data)])"
  by (rule view_after_update [OF assms])

theorem update_stream_demo:
  "\<exists>c1 limits. applyChange demo (demo_msg UpdateAction [6]) = Ret (c1, Some limits, None)
    \<and> (case dispatchRsp c1 (demo_msg UpdateAction [6]) (Some limits) of (c', ps) \<Rightarrow>
         book_ok c' \<and> l2_book c' = read_msg demo (demo_msg UpdateAction [6]) (l2_book demo)
         \<and> read_pubs c' (int 1) ps (view 1 demo) = view 1 c'
         \<and> filter (\<lambda>p. fst p = 0) ps = [(0, demo_msg UpdateAction [6])])"
  by (rule update_stream [OF demo_book_ok demo_depths_ok demo_fits_update])
    (simp_all add: gokeys_def demo_simps)

text \<open>
  C3: a batch of deletions keeps the book right, and keeps a stream of depth \<open>n\<close> in step
  with it whenever no level is both named as deleted and sent as the level that moves up in
  the messages of that depth.
\<close>

theorem delete_stream:
  assumes "book_ok c" and "depths_ok c" and "fits c data" and "Action data = DeleteAction"
    and "0 < n" and "int n \<in> set (gokeys (realtime c))"
  shows "\<exists>c1 limits. applyChange c data = Ret (c1, Some limits, None)
    \<and> (case dispatchRsp c1 data (Some limits) of (c', ps) \<Rightarrow>
         book_ok c' \<and> l2_book c' = read_msg c data (l2_book c) \<and> filter (\<lambda>p. fst p = 0) ps = [(0, data)]
         \<and> (pub_prices c' (int n) DeleteAction ps \<inter> pub_prices c' (int n) InsertAction ps = {}
              \<longrightarrow> read_pubs c' (int n) ps (view n c) = view n c'))"
  by (rule view_after_delete [OF assms])

theorem delete_stream_demo:
  "\<exists>c1 limits. applyChange demo (demo_msg DeleteAction [7]) = Ret (c1, Some limits, None)
    \<and> (case dispatchRsp c1 (demo_msg DeleteAction [7]) (Some limits) of (c', ps) \<Rightarrow>
         book_ok c' \<and> l2_book c' = read_msg demo (demo_msg DeleteAction [7]) (l2_book demo)
         \<and> filter (\<lambda>p. fst p = 0) ps = [(0, demo_msg DeleteAction [7])]
         \<and> (pub_prices c' (int 1) DeleteAction ps \<inter> pub_prices c' (int 1) InsertAction ps = {}
              \<longrightarrow> read_pubs c' (int 1) ps (view 1 demo) = view 1 c'))"
  by (rule delete_stream [OF demo_book_ok demo_depths_ok demo_fits_delete(1)])
    (simp_all add: gokeys_def demo_simps)


text \<open>
  C5: a replica follows its book. A cache publishes on its full channel exactly the changes it
  is fed, row by row, read at the time of publication; and an empty cache at the other end
  that receives the full snapshot and then these messages, with objects of its own for all of
  their rows, ends with the same levels, the same price lists and the same best quotes.
\<close>

theorem replica:
  assumes "book_ok c" and "quote_ok c" and "depths_ok c" and "bidPrices c \<noteq> []" and "askPrices c \<noteq> []"
    and "empty_book d" and "depths_ok d" and "changes_ok (l2_book c) xs"
  shows "\<exists>c' d' ys. relay rng xs c = Ret (c', xs)
    \<and> relay rng (resolve (objs c) (snapshot c 0) # xs) d = Ret (d', ys)
    \<and> l2_book d' = l2_book c' \<and> bidPrices d' = bidPrices c' \<and> askPrices d' = askPrices c'
    \<and> (\<forall>s. valid_side s \<and> side_list c' s \<noteq> [] \<longrightarrow> bestPrice (side_quote d' s) = bestPrice (side_quote c' s)
         \<and> bestSize (side_quote d' s) = bestSize (side_quote c' s))"
proof -
  from replica_follows [OF assms] obtain c' d' ys where r: "relay rng xs c = Ret (c', xs)"
    "relay rng (resolve (objs c) (snapshot c 0) # xs) d = Ret (d', ys)"
    "book_ok c'" "book_ok d'" "quote_ok c'" "quote_ok d'" "l2_book d' = l2_book c'" by blast
  then show ?thesis
    using same_book [OF r(3,4,7)] same_quotes [OF r(3,5,4,6,7)] by blast
qed

theorem replica_demo:
  "\<exists>c' d' ys. relay (\<lambda>ks. ks) demo_changes demo = Ret (c', demo_changes)
    \<and> relay (\<lambda>ks. ks) (resolve (objs demo) (snapshot demo 0) # demo_changes) demo_replica = Ret (d', ys)
    \<and> l2_book d' = l2_book c' \<and> bidPrices d' = bidPrices c' \<and> askPrices d' = askPrices c'
    \<and> (\<forall>s. valid_side s \<and> side_list c' s \<noteq> [] \<longrightarrow> bestPrice (side_quote d' s) = bestPrice (side_quote c' s)
         \<and> bestSize (side_quote d' s) = bestSize (side_quote c' s))"
  by (rule replica [OF demo_book_ok demo_quote_ok demo_depths_ok _ _ demo_replica_ok demo_changes_ok])
    (simp_all add: demo_simps)

text \<open>
  C6: a partial that arrives later is merged by difference, and the merge ends with the book
  the partial describes: the levels it misses are deleted, the new ones inserted, the changed
  ones updated, whatever the order in which Go ranges over its sets. The messages go to
  registered depths only. It is assumed that no level changes its side and that each side
  keeps a level.
\<close>

theorem partial_converges:
  assumes "book_ok c" and "partial_ok c rs" and "no_flip c rs" and "overlaps c rs"
    and "\<And>ks. set (rng ks) = set ks" and "\<And>ks. distinct ks \<Longrightarrow> distinct (rng ks)"
  shows "\<exists>c' ps. partial_merge rng c (map Some rs) = Ret (c', ps) \<and> book_ok c' \<and> (quote_ok c \<longrightarrow> quote_ok c')
    \<and> realtime c' = realtime c \<and> depths_in c ps \<and> (\<forall>p. same_level (l2_book c' p) (partial_book c rs p))"
  by (rule partial_merge_run [OF assms])

theorem partial_converges_demo:
  "\<exists>c' ps. partial_merge rev demo (map Some [9, 3, 5, 6]) = Ret (c', ps) \<and> book_ok c'
    \<and> (quote_ok demo \<longrightarrow> quote_ok c') \<and> realtime c' = realtime demo \<and> depths_in demo ps
    \<and> (\<forall>p. same_level (l2_book c' p) (partial_book demo [9, 3, 5, 6] p))"
  by (rule partial_converges) (simp_all add: demo_book_ok demo_partial)

text \<open>
  C7: the first partial establishes the book: starting from any cache, the price lists, the
  map, the quotes and the invariant are those of the rows, and the snapshot of the new book
  is published on the full channel.
\<close>

theorem first_partial:
  assumes "partial_ok c rs"
  shows "\<exists>c'. partial_first c (map Some rs) = Ret (c', [(0, snapshot c' 0)])
    \<and> book_ok c' \<and> quote_ok c' \<and> l2_book c' = partial_book c rs \<and> objs c' = objs c \<and> realtime c' = realtime c
    \<and> bidPrices c' = rev (partial_prices c ''Buy'' rs) \<and> askPrices c' = partial_prices c ''Sell'' rs
    \<and> l2_get c' = map_of (partial_map c rs [])"
  by (rule partial_first_run [OF assms])

theorem first_partial_demo:
  "\<exists>c'. partial_first demo (map Some [9, 3, 5, 6]) = Ret (c', [(0, snapshot c' 0)])
    \<and> book_ok c' \<and> quote_ok c' \<and> l2_book c' = partial_book demo [9, 3, 5, 6] \<and> objs c' = objs demo
    \<and> realtime c' = realtime demo \<and> bidPrices c' = rev (partial_prices demo ''Buy'' [9, 3, 5, 6])
    \<and> askPrices c' = partial_prices demo ''Sell'' [9, 3, 5, 6]
    \<and> l2_get c' = map_of (partial_map demo [9, 3, 5, 6] [])"
  by (rule first_partial [OF demo_partial(1)])

text \<open>
  C8: a full snapshot of a book with two sides, taken as a first partial, restores the book:
  the same levels, the same price lists, correct quotes, and the same snapshot again.
\<close>

theorem snapshot_partial:
  assumes "book_ok c" and "bidPrices c \<noteq> []" and "askPrices c \<noteq> []" and "objs c0 = objs c"
  shows "\<exists>c'. partial_first c0 (Data (snapshot c 0)) = Ret (c', [(0, snapshot c' 0)])
    \<and> book_ok c' \<and> quote_ok c' \<and> l2_book c' = l2_book c
    \<and> bidPrices c' = bidPrices c \<and> askPrices c' = askPrices c \<and> snapshot c' 0 = snapshot c 0"
  by (rule snapshot_restores [OF assms])

theorem snapshot_partial_demo:
  "\<exists>c'. partial_first (newMBL\<lparr>objs := objs demo\<rparr>) (Data (snapshot demo 0)) = Ret (c', [(0, snapshot c' 0)])
    \<and> book_ok c' \<and> quote_ok c' \<and> l2_book c' = l2_book demo
    \<and> bidPrices c' = bidPrices demo \<and> askPrices c' = askPrices demo \<and> snapshot c' 0 = snapshot demo 0"
  by (rule snapshot_partial) (simp_all add: demo_book_ok demo_simps)

section \<open>The order book: single rows\<close>

text \<open>
  C9: inserting an order at a new price adds exactly that level, in its place in the price
  list of its side, leaves the other side and all other objects alone, keeps the invariant
  and the quotes, and returns the depth of the new level, one more than the number of
  better levels.
\<close>

theorem insert_row:
  assumes "book_ok c" and "r < length (objs c)" and "o' = objs c ! r"
    and "valid_side (ord_Side o')" and "l2_book c (ord_Price o') = None"
  shows "\<exists>c'. handleInsert c (Some r) =
        Ret (c', int (level_of (ord_Side o') (set (side_list c (ord_Side o'))) (ord_Price o')), None)
    \<and> book_ok c' \<and> l2_book c' = (l2_book c)(ord_Price o' \<mapsto> o') \<and> objs c' = objs c
    \<and> other_side_kept c c' (ord_Side o')
    \<and> level_put (side_list c (ord_Side o')) (side_list c' (ord_Side o')) (ord_Price o')
          (level_of (ord_Side o') (set (side_list c (ord_Side o'))) (ord_Price o'))
    \<and> (quote_ok c \<longrightarrow> quote_ok c')"
  by (rule handleInsert_ok [OF assms])

theorem insert_row_demo:
  "\<exists>c'. handleInsert demo (Some 5) =
        Ret (c', int (level_of ''Buy'' (set (side_list demo ''Buy'')) 102), None)
    \<and> book_ok c' \<and> l2_book c' = (l2_book demo)(102 \<mapsto> mk_order 6 ''Buy'' 4 102) \<and> objs c' = objs demo
    \<and> other_side_kept demo c' ''Buy''
    \<and> level_put (side_list demo ''Buy'') (side_list c' ''Buy'') 102
          (level_of ''Buy'' (set (side_list demo ''Buy'')) 102)
    \<and> (quote_ok demo \<longrightarrow> quote_ok c')"
  using insert_row [OF demo_book_ok, of 5 "mk_order 6 ''Buy'' 4 102"]
  by (simp add: demo_objs demo_book valid_side_def)

text \<open>
  C10: deleting a level that is there, and is not the last of its side, removes exactly that
  level from the map and from the price list of its side, leaves the other side alone, keeps
  the invariant and the quotes, and returns the depth the level had.
\<close>

theorem delete_row:
  assumes "book_ok c" and "r < length (objs c)" and "o' = objs c ! r" and "valid_side (ord_Side o')"
    and "l2_book c (ord_Price o') = Some x" and "ord_Side x = ord_Side o'"
    and "side_list c (ord_Side o') \<noteq> [ord_Price o']"
  shows "\<exists>c'. handleDelete c (Some r) =
        Ret (c', int (level_of (ord_Side o') (set (side_list c (ord_Side o'))) (ord_Price o')), None)
    \<and> book_ok c' \<and> l2_book c' = (l2_book c)(ord_Price o' := None) \<and> objs c' = objs c
    \<and> other_side_kept c c' (ord_Side o')
    \<and> level_put (side_list c' (ord_Side o')) (side_list c (ord_Side o')) (ord_Price o')
          (level_of (ord_Side o') (set (side_list c (ord_Side o'))) (ord_Price o'))
    \<and> (quote_ok c \<longrightarrow> quote_ok c')"
  by (rule handleDelete_ok [OF assms])

theorem delete_row_demo:
  "\<exists>c'. handleDelete demo (Some 7) =
        Ret (c', int (level_of ''Buy'' (set (side_list demo ''Buy'')) 100), None)
    \<and> book_ok c' \<and> l2_book c' = (l2_book demo)(100 := None) \<and> objs c' = objs demo
    \<and> other_side_kept demo c' ''Buy''
    \<and> level_put (side_list c' ''Buy'') (side_list demo ''Buy'') 100
          (level_of ''Buy'' (set (side_list demo ''Buy'')) 100)
    \<and> (quote_ok demo \<longrightarrow> quote_ok c')"
  using delete_row [OF demo_book_ok, of 7 "mk_order 1 ''Buy'' 5 100" "mk_order 1 ''Buy'' 5 100"]
  by (simp add: demo_objs demo_book valid_side_def side_list_def demo_simps)

text \<open>
  Updating a level writes the new size into the level's own object and nothing else: the
  map, the price lists and all other objects stay, the quotes follow, and the depth of the
  level is returned.
\<close>

theorem update_row:
  assumes "book_ok c" and "r < length (objs c)" and "o' = objs c ! r" and "valid_side (ord_Side o')"
    and "l2_book c (ord_Price o') = Some x" and "ord_Side x = ord_Side o'"
  shows "\<exists>c'. handleUpdate c (Some r) =
        Ret (c', int (level_of (ord_Side o') (set (side_list c (ord_Side o'))) (ord_Price o')), None)
    \<and> book_ok c' \<and> l2_book c' = (l2_book c)(ord_Price o' \<mapsto> x\<lparr>ord_Size := ord_Size o'\<rparr>)
    \<and> other_side_kept c c' (ord_Side o') \<and> l2_get c' = l2_get c
    \<and> (\<forall>k. l2_get c (ord_Price o') \<noteq> Some k \<longrightarrow> objs c' ! k = objs c ! k)
    \<and> side_list c' (ord_Side o') = side_list c (ord_Side o')
    \<and> (quote_ok c \<longrightarrow> quote_ok c')"
  by (rule handleUpdate_ok [OF assms])

theorem update_row_demo:
  "\<exists>c'. handleUpdate demo (Some 6) =
        Ret (c', int (level_of ''Buy'' (set (side_list demo ''Buy'')) 98), None)
    \<and> book_ok c' \<and> l2_book c' = (l2_book demo)(98 \<mapsto> mk_order 2 ''Buy'' 60 98)
    \<and> other_side_kept demo c' ''Buy'' \<and> l2_get c' = l2_get demo
    \<and> (\<forall>k. l2_get demo 98 \<noteq> Some k \<longrightarrow> objs c' ! k = objs demo ! k)
    \<and> side_list c' ''Buy'' = side_list demo ''Buy'' \<and> (quote_ok demo \<longrightarrow> quote_ok c')"
  using update_row [OF demo_book_ok, of 6 "mk_order 2 ''Buy'' 60 98" "mk_order 2 ''Buy'' 6 98"]
  by (simp add: demo_objs demo_book valid_side_def) (simp add: mk_order_def)

text \<open>
  deleting the only level of a side does not return: after the removal the new best price
  is read at index -1 of the empty price list.
\<close>

theorem delete_last:
  assumes "book_ok c" and "r < length (objs c)" and "o' = objs c ! r" and "valid_side (ord_Side o')"
    and "side_list c (ord_Side o') = [ord_Price o']"
  shows "handleDelete c (Some r) = Panic IndexOutOfRange"
  by (rule handleDelete_last_panics [OF assms])

theorem delete_last_demo: "handleDelete one_bid (Some 0) = Panic IndexOutOfRange"
  by (rule delete_last [OF one_bid_ok _ refl]) (simp_all add: one_bid_simps valid_side_def side_list_def)

text \<open>
  On a book that satisfies its invariant, a row at a price that is there cannot be
  inserted, and a row at a price that is not there can be neither deleted nor updated: the
  handlers return their error with depth 0 and the cache unchanged.
\<close>

theorem refused_rows:
  assumes "book_ok c" and "r < length (objs c)"
  shows "if l2_book c (ord_Price (objs c ! r)) = None
     then handleDelete c (Some r) = Ret (c, 0, Some DeleteNotExist)
       \<and> handleUpdate c (Some r) = Ret (c, 0, Some UpdateNotExist)
     else handleInsert c (Some r) = Ret (c, 0, Some InsertExists)"
proof (cases "l2_get c (ord_Price (objs c ! r))")
  case None
  then show ?thesis using assms(2) by (simp add: l2_book_def handleDelete_missing handleUpdate_missing)
next
  case (Some e)
  then have "e < length (objs c)" using assms(1) by (auto simp: book_ok_def levels_ok_def)
  then show ?thesis using Some assms(2) by (simp add: l2_book_def handleInsert_exists)
qed

theorem refused_rows_demo:
  "handleDelete demo (Some 5) = Ret (demo, 0, Some DeleteNotExist)
    \<and> handleUpdate demo (Some 5) = Ret (demo, 0, Some UpdateNotExist)
    \<and> handleInsert demo (Some 8) = Ret (demo, 0, Some InsertExists)"
  using refused_rows [of demo 5] refused_rows [of demo 8]
  by (simp add: demo_book_ok demo_objs demo_book)
section \<open>The channels\<close>

text \<open>
  C11: from a store of new channels, whatever calls are made on any channels and however the
  consumers behave, a turn of the goroutine of an open channel does not panic: it waits, or
  it leaves the channel open and a store that satisfies the invariant. The calls are those of
  the API, with session ids and Go channels no one else has.
\<close>

theorem channel_turn:
  assumes "reachable_world w" and "chan_open (chans w n)"
  shows "loop_turn room n w = Blocked
    \<or> (\<exists>w' rep. loop_turn room n w = Ret (Turn w' rep) \<and> world_ok w' \<and> chan_open (chans w' n))"
  by (rule loop_turn_safe [OF reachable_world_ok [OF assms(1)] assms(2)])

theorem channel_turn_demo:
  "loop_turn (\<lambda>_. True) 0 started_world = Blocked
    \<or> (\<exists>w' rep. loop_turn (\<lambda>_. True) 0 started_world = Ret (Turn w' rep) \<and> world_ok w' \<and> chan_open (chans w' 0))"
  by (rule channel_turn [OF started_world_reachable started_world_open])



text \<open>
  C13: what one dispatch does to the destinations of a channel: each target with room gets the
  message, each without is closed and dropped, the others stay as they are; and the dispatch
  returns at all exactly when no target is stuck while the write timer is not armed.
\<close>

theorem slow_consumer:
  assumes "dests_ok (destinations (chans w n))"
    and "\<And>r. r \<in> refs_of (destinations (chans w n)) \<Longrightarrow> \<not> closed (streams w r)"
  shows "dispatchDistinations room dst msg n w =
    (let c = chans w n; T = targets dst (destinations c) in
     if stall_free room True T
     then Ret (put_chan n (c\<lparr>destinations := filter (\<lambda>d. fst d \<notin> set (stuck room T)) (destinations c)\<rparr>)
                 (w\<lparr>streams := deliver room msg T (streams w)\<rparr>))
     else Blocked)"
  by (rule dispatchDistinations_spec [OF assms])

theorem slow_consumer_demo:
  "\<exists>w'. dispatchDistinations (\<lambda>r. r \<noteq> 1) [] (7 :: int) 0 (demo_world [] demo_dests) = Ret w'
    \<and> destinations (chans w' 0) = [(''b'', Some 2)]
    \<and> sent (streams w' 2) = [7] \<and> closed (streams w' 1) \<and> \<not> closed (streams w' 2)"
  using slow_consumer [of "demo_world [] demo_dests :: int world" 0 "\<lambda>r. r \<noteq> 1" "[]" 7]
  by (simp add: Let_def demo_dests_def dests_ok_def targets_def stuck_def deliver_def refs_of_def put_chan_def)

text \<open>
  C14: two stuck destinations in a row stop a channel for ever: the timer that is to save the
  dispatcher from the second one was never armed again, so the dispatch neither delivers nor
  drops anything more.
\<close>

theorem two_stuck:
  assumes "dests_ok (destinations (chans w n))"
    and "\<And>r. r \<in> refs_of (destinations (chans w n)) \<Longrightarrow> \<not> closed (streams w r)"
    and "destinations (chans w n) = ds @ (s1, Some r1) # (s2, Some r2) # es"
    and "\<not> room r1" and "\<not> room r2"
  shows "dispatchDistinations room [] msg n w = Blocked"
  using dispatchDistinations_spec [OF assms(1,2), of room "[]" msg] stall_free_append_stuck [of room, OF assms(4,5)]
  by (simp add: assms(3) targets_def Let_def)

theorem two_stuck_demo:
  "dispatchDistinations (\<lambda>_. False) [] (7 :: int) 0 (demo_world [] demo_dests) = Blocked"
  by (rule two_stuck [of _ _ "[]" "''a''" 1 "''b''" 2 "[]"])
    (simp_all add: demo_dests_def dests_ok_def)

text \<open>
  C15: closing a channel that still has a message in its queue and a session makes the next
  turn of its goroutine panic: the session's Go channel was closed, and the message is sent
  to it.
\<close>

theorem close_with_backlog:
  assumes "chan_open (chans w n)" and "source (chans w n) = Some (DataIn [] sub m # q)"
    and "destinations (chans w n) = (s, Some r) # ds" and "Close n w = Ret (w', e)"
  shows "loop_turn room n w' = Panic SendOnClosed"
  by (rule backlog_panics [OF assms])

theorem close_with_backlog_demo:
  "\<exists>w' e. Close 0 (demo_world [DataIn [] [] (7 :: int)] demo_dests) = Ret (w', e)
    \<and> loop_turn (\<lambda>_. True) 0 w' = Panic SendOnClosed"
proof -
  have "\<exists>w' e. Close 0 (demo_world [DataIn [] [] (7 :: int)] demo_dests) = Ret (w', e)"
    by (simp add: Close_def Let_def demo_dests_def close_stream_def)
  then obtain w' e where c: "Close 0 (demo_world [DataIn [] [] (7 :: int)] demo_dests) = Ret (w', e)" by blast
  moreover have "loop_turn (\<lambda>_. True) 0 w' = Panic SendOnClosed"
    by (rule close_with_backlog [OF _ _ _ c]) (simp_all add: demo_dests_def)
  ultimately show ?thesis by blast
qed

section \<open>The cache pipeline\<close>

text \<open>
  A snapshot is taken at its place in the queue: when the messages before it are handled,
  the caller receives the snapshot of the table they lead to, whatever is queued after it.
\<close>

theorem snapshot_order:
  assumes "feed handle (realtime_group c) (table c) ms = Ret (t, ps)"
    and "emit (realtime_group c) ps w = Ret w'"
    and "pipeline c = map (\<lambda>m. Some (CacheMsg m)) ms @ Some (CacheBreak depth None s k) # rest"
    and "snap t depth = Ret x"
  shows "\<exists>c'. cache_run handle snap (Suc (length ms)) (c, w) = Ret (c', w')
    \<and> table c' = t \<and> pipeline c' = rest \<and> map_of (answers c') k = Some x"
  using assms by (rule snapshot_in_order)

theorem snapshot_order_demo:
  "\<exists>c'. cache_run (mbl_handle (\<lambda>ks. ks)) mbl_snap (Suc 0)
      (demo_cache\<lparr>pipeline := [Some (CacheBreak 1 None ''s'' 4), None]\<rparr>, demo_world [] demo_dests :: nat table_msg world)
      = Ret (c', demo_world [] demo_dests)
    \<and> table c' = demo \<and> pipeline c' = [None] \<and> map_of (answers c') 4 = Some (MBLResponse (snapshot demo 1))"
  using snapshot_order [of "mbl_handle (\<lambda>ks. ks)" "demo_cache\<lparr>pipeline := [Some (CacheBreak 1 None ''s'' 4), None]\<rparr>"
      "[]" demo "[]" "demo_world [] demo_dests :: nat table_msg world" "demo_world [] demo_dests" 1 "''s''" 4 "[None]"
      mbl_snap "MBLResponse (snapshot demo 1)"]
  by (simp add: demo_cache_def emit_def mbl_snap_def)

text \<open>
  From the queue of the market-by-level cache to a session: for a queue of acceptable
  messages, the cache handles all of them without a panic, its book satisfies the invariant
  afterwards, and a session registered on the channel of a depth receives exactly the
  messages the handlers publish for that depth, in order.
\<close>

theorem book_to_session:
  assumes "mbl_ok (table c)"
    and "accepts_all (mbl_handle (\<lambda>ks. ks)) mbl_accepts (realtime_group c) (table c) ms"
    and "distinct (map fst (realtime_group c))" and "distinct (map snd (realtime_group c))"
    and "\<forall>(d, n)\<in>set (realtime_group c). chan_open (chans w n)"
    and "pipeline c = map (\<lambda>m. Some (CacheMsg m)) ms"
    and "world_ok w" and "(d, n) \<in> set (realtime_group c)"
    and "source (chans w n) = Some []" and "childChannels (chans w n) = []"
    and "(s, Some r) \<in> set (destinations (chans w n))" and "\<And>r. room r"
  shows "\<exists>t ps w' w''. feed (mbl_handle (\<lambda>ks. ks)) (realtime_group c) (table c) ms = Ret (t, ps) \<and> mbl_ok t
    \<and> cache_run (mbl_handle (\<lambda>ks. ks)) mbl_snap (length ms) (c, w) = Ret (c\<lparr>table := t, pipeline := []\<rparr>, w')
    \<and> loop_turns room n (length (at_depth d ps)) w' = Ret w''
    \<and> sent (streams w'' r) = sent (streams w r) @ at_depth d ps"
  by (rule books.session_receives [OF assms])

theorem book_to_session_demo:
  "\<exists>t ps w' w''. feed (mbl_handle (\<lambda>ks. ks)) [(0, 0)] demo [demo_in] = Ret (t, ps) \<and> mbl_ok t
    \<and> cache_run (mbl_handle (\<lambda>ks. ks)) mbl_snap 1 (demo_cache\<lparr>pipeline := [Some (CacheMsg demo_in)]\<rparr>,
        demo_world [] demo_dests) = Ret (demo_cache\<lparr>table := t, pipeline := []\<rparr>, w')
    \<and> loop_turns (\<lambda>_. True) 0 (length (at_depth 0 ps)) w' = Ret w''
    \<and> sent (streams w'' 2) = at_depth 0 ps"
  using book_to_session [of "demo_cache\<lparr>pipeline := [Some (CacheMsg demo_in)]\<rparr>" "[demo_in]" "demo_world [] demo_dests"
      0 0 "''b''" 2 "\<lambda>_. True"] demo_in_accepted
  by (simp add: demo_world_ok demo_dests_def dests_ok_def mbl_ok_def
      demo_book_ok demo_quote_ok chan_open_def)

text \<open>
  C16: the life cycle of a cache: its flags and its two Go channels stay consistent under every
  operation and every turn of its goroutine; so no operation closes a Go channel of the cache
  a second time.
\<close>

theorem cache_life:
  assumes "cache_step handle snap s s'" and "life_ok (fst s)"
  shows "life_ok (fst s') \<and> cache_Start s' \<noteq> Panic CloseOfClosed
    \<and> (cacheReady (fst s') \<longrightarrow> \<not> pipelineClosed (fst s'))"
  using cache_step_life [OF assms] life_no_double_close(1) [of "fst s'" "snd s'"]
    life_no_double_close(2) [of "fst s'"] by simp

theorem cache_life_demo:
  "\<exists>s'. cache_step trade_handle trade_snap (trade_demo, demo_world [] demo_dests :: nat table_msg world) s' \<and> life_ok (fst s')
    \<and> cache_Start s' \<noteq> Panic CloseOfClosed \<and> (cacheReady (fst s') \<longrightarrow> \<not> pipelineClosed (fst s'))"
proof -
  let ?w = "demo_world [] demo_dests :: nat table_msg world"
  have st: "cache_step trade_handle trade_snap (trade_demo, ?w) (trade_demo\<lparr>pipeline := [None]\<rparr>, ?w)"
    by (rule cache_step.append [of None]) (simp add: Append_def send_pipeline_def trade_demo_def)
  moreover have "life_ok trade_demo" by (simp add: life_ok_def trade_demo_def)
  ultimately show ?thesis using cache_life [OF st] by (intro exI [of _ "(trade_demo\<lparr>pipeline := [None]\<rparr>, ?w)"]) simp
qed

section \<open>The trade and the instrument table\<close>

text \<open>
  C17: an insertion appends the trades to the history and keeps a suffix of it: everything
  while there are at most 600, else the last 300; so the history ends with the newest trades
  and never exceeds 600.
\<close>

theorem trade_history:
  assumes "Action data = InsertAction"
  shows "historyTrade (fst (trade_applyData c data)) =
      drop (trade_cut (length (historyTrade c @ Data data))) (historyTrade c @ Data data)
    \<and> history_ok (fst (trade_applyData c data))"
  using trade_insert_history [OF assms] trade_insert_bound [OF assms] by blast

theorem trade_history_demo:
  "historyTrade (fst (trade_applyData \<lparr>historyTrade = []\<rparr> (NewTradePartial\<lparr>Action := InsertAction, Data := [demo_trade]\<rparr>)))
    = [demo_trade]"
  using trade_history [of "NewTradePartial\<lparr>Action := InsertAction, Data := [demo_trade]\<rparr>" "\<lparr>historyTrade = []\<rparr>"]
  by (simp add: trade_cut_def)

text \<open>
  A snapshot of the trades has the newest ones: at most 200 of them, at most as many as
  asked for when a depth is given, and no fewer than these limits and the history allow.
\<close>

theorem trade_snapshot_newest:
  "\<exists>n. trade_snapshot c depth = Ret (NewTradePartial\<lparr>Data := topn n (historyTrade c)\<rparr>)
    \<and> n = (if depth < 1 then min 200 (length (historyTrade c)) else min 200 (min (length (historyTrade c)) (nat depth)))"
  using trade_snapshot_last [of c depth] by (cases "depth < 1") auto

text \<open>
  Every message keeps the invariant of the instrument table: an entry stands under its own
  symbol, and the two price histories keep their bound.
\<close>

theorem instrument_table:
  assumes "ins_ok c"
  shows "ins_ok (fst (ins_applyData c rsp))"
  by (rule ins_applyData_ok [OF assms])

theorem instrument_table_demo:
  "ins_ok (fst (ins_applyData ins_demo (NewInstrumentPartial\<lparr>Data := [demo_ins, zero_ins]\<rparr>)))"
  by (rule instrument_table [OF ins_demo_ok])



text \<open>
  Whether an update message is published depends on its last row only: a message whose
  first row changes the table, followed by a row that changes nothing, is not passed on.
\<close>

theorem instrument_change_lost:
  "\<exists>c'. ins_handleInput ins_demo (Some (InstrumentResponse
       (NewInstrumentPartial\<lparr>Action := UpdateAction, Data := [demo_ins\<lparr>LastPrice := 7\<rparr>, zero_ins]\<rparr>))) = Ret (c', [])
    \<and> ins_get ins_demo ''XBTUSD'' \<noteq> ins_get c' ''XBTUSD''"
  by (simp add: ins_handleInput_def ins_applyData_def action_defs ins_handleUpdate_def ins_demo_def demo_ins_def zero_ins_def
      ins_get_def ins_merge_def merge_mark_def merge_quote_def merge_last_def merge_funding_def)

section \<open>The server\<close>

text \<open>
  C19: a subscription from the cache to the websocket. With \<open>ms1\<close> in the queue of the cache when
  a client subscribes and \<open>ms2\<close> queued afterwards, the client is sent what \<open>ms1\<close> publishes for
  its depth, then the snapshot of the book after \<open>ms1\<close>, then what \<open>ms2\<close> publishes: the
  messages before the snapshot are the only ones that do not follow it, and none is lost or
  sent twice.
\<close>

theorem subscription_to_websocket:
  fixes c :: "(mbl, 'o table_msg, 'o table_msg) tableCache" and s :: "'o server"
  assumes "sv_caches s ! sub_cache sub = AnyMBL c" "sub_cache sub < length (sv_caches s)"
    and "channelGroup c = Some g # gs" "(d, n) \<in> set g" "sub_depth sub = d" "0 \<le> d"
    and "distinct (map fst g)" "distinct (map snd g)" and "\<forall>(d, n)\<in>set g. chan_open (chans (sv_world s) n)"
    and "world_ok (sv_world s)" and "source (chans (sv_world s) n) = Some []" "childChannels (chans (sv_world s) n) = []"
    and "fresh_for ses r n (sv_world s)" "sent (streams (sv_world s) r) = []" and "\<And>r. room r"
    and "mbl_ok (table c)" and "accepts_all (mbl_handle (\<lambda>ks. ks)) mbl_accepts g (table c) (ms1 @ ms2)"
    and "\<not> pipelineClosed c" "pipeline c = map (\<lambda>m. Some (CacheMsg m)) ms1"
    and "up s (sub_session sub)" and "\<And>xs x. env_wr env xs x = None"
  shows "\<exists>s1 c1 t1 ps1 t2 ps2 c2 w2 w3. subscriber_start env ses r kk sub s = Ret (s1, Some r)
    \<and> sv_caches s1 ! sub_cache sub = AnyMBL c1
    \<and> feed (mbl_handle (\<lambda>ks. ks)) g (table c) ms1 = Ret (t1, ps1) \<and> feed (mbl_handle (\<lambda>ks. ks)) g t1 ms2 = Ret (t2, ps2)
    \<and> cache_run (mbl_handle (\<lambda>ks. ks)) mbl_snap (length ms1 + Suc (length ms2))
        (c1\<lparr>pipeline := pipeline c1 @ map (\<lambda>m. Some (CacheMsg m)) ms2\<rparr>, sv_world s1) = Ret (c2, w2)
    \<and> table c2 = t2
    \<and> loop_turns room n (length (at_depth d ps1) + length (at_depth d ps2) + 2) w2 = Ret w3
    \<and> subscriber_forward env (sub_session sub) (sent (streams w3 r)) s1 =
        Ret (told s1 (sub_session sub) (map (\<lambda>m. WireJSON (SvTable m))
          (at_depth d ps1 @ [MBLResponse (snapshot t1 d)] @ at_depth d ps2)))"
  by (rule subscription_wire) (use assms in simp_all)

theorem subscription_to_websocket_demo:
  "\<exists>s1 c1 t1 ps1 t2 ps2 c2 w2 w3. subscriber_start demo_env ''n'' 5 0 demo_sub demo_server = Ret (s1, Some 5)
    \<and> sv_caches s1 ! 0 = AnyMBL c1
    \<and> feed (mbl_handle (\<lambda>ks. ks)) [(0, 0)] demo [] = Ret (t1, ps1) \<and> feed (mbl_handle (\<lambda>ks. ks)) [(0, 0)] t1 [demo_in] = Ret (t2, ps2)
    \<and> cache_run (mbl_handle (\<lambda>ks. ks)) mbl_snap 2 (c1\<lparr>pipeline := pipeline c1 @ [Some (CacheMsg demo_in)]\<rparr>, sv_world s1) = Ret (c2, w2)
    \<and> table c2 = t2 \<and> loop_turns (\<lambda>_. True) 0 (length (at_depth 0 ps1) + length (at_depth 0 ps2) + 2) w2 = Ret w3
    \<and> subscriber_forward demo_env 0 (sent (streams w3 5)) s1 = Ret (told s1 0 (map (\<lambda>m. WireJSON (SvTable m))
        (at_depth 0 ps1 @ [MBLResponse (snapshot t1 0)] @ at_depth 0 ps2)))"
proof -
  have "fresh_for ''n'' 5 0 (demo_world [] demo_dests :: nat table_msg world)"
    by (rule demo_world_fresh) (simp_all add: demo_dests_def refs_of_def)
  moreover have "world_ok (demo_world [] demo_dests :: nat table_msg world)"
    by (rule demo_world_ok) (simp add: demo_dests_def dests_ok_def)
  moreover have "channelGroup demo_cache = [Some [(0, 0)], None, None]" "\<not> pipelineClosed demo_cache"
    by (simp_all add: demo_cache_def)
  moreover have "mbl_ok demo" by (simp add: mbl_ok_def demo_book_ok demo_quote_ok)
  ultimately show ?thesis
    using subscription_to_websocket [of demo_server demo_sub demo_cache "[(0, 0)]" "[None, None]" 0 0 "''n''" 5 "\<lambda>_. True"
        "[]" "[demo_in]" demo_env 0] demo_in_accepted by (simp add: numeral_2_eq_2)
qed





text \<open>
  C22: a session that answers heartbeats writes one pong for every ping that arrives before the
  next message, in between nothing else, returns that message, and its counter stays.
\<close>

theorem session_pings:
  assumes "alive c" and "se_beating c" and "\<And>xs x. wr xs x = None"
    and "\<not> ReversHeartbeat (se_cfg c)" and "0 \<le> se_hbCounter c" and "se_hbCounter c < HeartbeatFailCount (se_cfg c)"
    and "\<forall>p\<in>set pings. PingPattern p" and "\<not> PingPattern msg" "\<not> PongPattern msg"
  shows "session_ReadMessage wr now (map Frame pings @ Frame msg # fs) (c, w) =
    Ret ((wrote c (replicate (length pings) (WireText ''pong'')), w), Some (Inr msg, fs))"
  by (rule ReadMessage_pings [OF assms])

theorem session_pings_demo:
  "session_ReadMessage (\<lambda>_ _. None) 7 [Frame ''ping'', Frame ''ping'', Frame ''x''] (demo_session, demo_world [] []) =
    Ret ((wrote demo_session [WireText ''pong'', WireText ''pong''], demo_world [] []), Some (Inr ''x'', []))"
  using session_pings [of demo_session "\<lambda>_ _. None" "[''ping'', ''ping'']" "''x''" 7 "[]" "demo_world [] []"]
  by (simp add: PingPattern_def PongPattern_def server_NewConfig_def numeral_2_eq_2)

text \<open>
  C23: what a connection leaves behind. While it lasts, its session is in the map of the
  clients and the counter is one higher; when it ends, the entry of its id is gone and the
  counter is back. So the map is as before exactly when the id was not in use: a second
  session of the same id takes the entry of the first with it.
\<close>

theorem connection_count:
  assumes "wsUpgrader env r fs s = Ret (s', goes)" and "getReqAuth (env_now env) (rq_header r) = None"
    and "- (2 ^ 63) \<le> sv_Clients s" and "sv_Clients s < 2 ^ 63 - 1"
  shows "\<exists>session. NewSession (env_hash env) (env_uuid3 env) (sv_cfg s) (rq_forwarded r) (rq_conn r) = Ret session \<and>
    (if goes
     then sv_clients s' = AList.update (GetID session) (length (sv_sessions s)) (sv_clients s) \<and> sv_Clients s' = sv_Clients s + 1
     else sv_clients s' = AList.delete (GetID session) (sv_clients s) \<and> sv_Clients s' = sv_Clients s)"
  using wsUpgrader_counts [OF assms(1,2)] assms(3,4) by (cases goes) (simp_all add: wrap64_back wrap64_id)

theorem connection_count_demo:
  "\<exists>s'. wsUpgrader demo_env demo_request [ReadError ''EOF''] demo_server = Ret (s', False)
    \<and> sv_clients s' = [(''id'', 0)] \<and> sv_Clients s' = 1"
proof -
  have run: "\<exists>s'. wsUpgrader demo_env demo_request [ReadError ''EOF''] demo_server = Ret (s', False)"
    by (simp add: wsUpgrader_def ws_open_def Upgrade_def CheckOrigin_def go_deref_def getReqAuth_def incClients_def NewSession_def demo_request_def demo_env_def on_session_def
        Welcome_def WriteJSONMessage_def session_write_def sendMessage_def write_out_def conn_write_def demo_conn_def
        getReqSubscribe_def ws_loop.simps demo_server_def session_Close_def Let_def ParseInt_def split_sign_def
        all_digits_def is_digit_def digits_val_def)
  then obtain s' where s': "wsUpgrader demo_env demo_request [ReadError ''EOF''] demo_server = Ret (s', False)" by blast
  have auth: "getReqAuth (env_now demo_env) (rq_header demo_request) = None"
    by (simp add: getReqAuth_def demo_request_def ParseInt_def split_sign_def all_digits_def is_digit_def digits_val_def)
  show ?thesis
    using connection_count [OF s' auth] s'
    by (auto simp: NewSession_def demo_request_def demo_conn_def GetID_def)
qed

text \<open>
  C24: a connection that cannot be set up ends in a run-time panic: an origin that is no URL
  leaves a nil URL, a failed upgrade a nil connection and a failed welcome a nil session, and
  the handler goes on with all of them.
\<close>

theorem lost_session_panics:
  assumes "getReqAuth (env_now env) (rq_header r) = None"
    and "env_origin env (rq_header r ''origin'') = None \<or> rq_conn r = None \<or> (\<exists>conn. rq_conn r = Some conn \<and> \<not> cn_closed conn \<and> (\<forall>x. env_wr env (cn_out conn) x \<noteq> None))"
  shows "wsUpgrader env r fs s = Panic NilDereference"
  using assms(2)
proof (elim disjE)
  assume "env_origin env (rq_header r ''origin'') = None"
  then show ?thesis by (rule bad_origin_panics [OF assms(1)])
next
  assume "rq_conn r = None"
  then show ?thesis by (rule failed_upgrade_panics [OF assms(1)])
next
  assume "\<exists>conn. rq_conn r = Some conn \<and> \<not> cn_closed conn \<and> (\<forall>x. env_wr env (cn_out conn) x \<noteq> None)"
  then show ?thesis using failed_welcome_panics [OF assms(1)] by blast
qed

theorem lost_session_panics_demo:
  "wsUpgrader demo_env (demo_request\<lparr>rq_conn := None\<rparr>) [Frame ''x''] demo_server = Panic NilDereference"
  by (rule lost_session_panics)
    (simp_all add: getReqAuth_def demo_request_def ParseInt_def split_sign_def all_digits_def is_digit_def digits_val_def)

text \<open>
  C25: a new server has a cache with an open channel of the right depth for every topic it
  accepts, so no subscription it accepts fails for want of a channel; the two topics of the
  order book share one cache.
\<close>

theorem server_topics:
  "\<exists>s. NewServer cfg w = Ret s \<and> gokeys (sv_dataCaches s) = [''trade'', ''instrument'', ''orderBookL2'', ''orderBookL2_25'']
    \<and> map_of (sv_dataCaches s) ''orderBookL2'' = map_of (sv_dataCaches s) ''orderBookL2_25''
    \<and> (\<forall>(t, k)\<in>set (sv_dataCaches s). \<exists>n. any_GetRspChannel Realtime (topic_depth t) (sv_caches s ! k) = Ret (Some n)
        \<and> chan_open (chans (sv_world s) n))"
proof -
  have depths: "topic_depth ''trade'' = 0" "topic_depth ''instrument'' = 0" "topic_depth ''orderBookL2'' = 0"
    "topic_depth ''orderBookL2_25'' = 25"
    by (simp_all add: topic_depth_def depthTopic_def is_digit_def ParseInt_def split_sign_def all_digits_def digits_val_def)
  show ?thesis
    by (simp add: NewServer_def NewTradeCache_def NewInstrumentCache_def NewMBLCache_def new_cache_def cache_Start_def
        group_channels_def Let_def put_chan_def Start_def newRspChannel_def cache_NewDepthChannel_def NewDepthChannel_def
        realtime_group_def depths any_GetRspChannel_def GetRspChannel_def Realtime_def go_at_def gokeys_def chan_open_def)
qed

theorem server_topics_demo:
  "\<exists>s k n. NewServer server_NewConfig (demo_world [] [] :: nat table_msg world) = Ret s \<and> (''orderBookL2_25'', k) \<in> set (sv_dataCaches s)
    \<and> any_GetRspChannel Realtime (topic_depth ''orderBookL2_25'') (sv_caches s ! k) = Ret (Some n) \<and> chan_open (chans (sv_world s) n)"
proof -
  obtain s where s: "NewServer server_NewConfig (demo_world [] [] :: nat table_msg world) = Ret s"
    "gokeys (sv_dataCaches s) = [''trade'', ''instrument'', ''orderBookL2'', ''orderBookL2_25'']"
    "\<forall>(t, k)\<in>set (sv_dataCaches s). \<exists>n. any_GetRspChannel Realtime (topic_depth t) (sv_caches s ! k) = Ret (Some n)
        \<and> chan_open (chans (sv_world s) n)"
    using server_topics [of server_NewConfig "demo_world [] []"] by blast
  have "''orderBookL2_25'' \<in> fst ` set (sv_dataCaches s)"
    using arg_cong [OF s(2), of set] by (simp add: gokeys_def)
  then obtain k where "(''orderBookL2_25'', k) \<in> set (sv_dataCaches s)" by force
  then show ?thesis using s(1,3) by blast
qed

text \<open>
  C26: the server lets a signed request in exactly when its signature has expired: the client
  signs for the next five seconds, and until these have passed it is refused.
\<close>

theorem fresh_signature_refused:
  assumes "getHeader sign now c = Some header" and "- (2 ^ 63) \<le> now + 5" and "now + 5 < 2 ^ 63"
  shows "getReqAuth now' (\<lambda>k. case map_of header k of None \<Rightarrow> [] | Some v \<Rightarrow> v) = None \<longleftrightarrow> now + 5 \<le> now'"
proof -
  have "map_of header ''api-expires'' = Some (show_int (now + 5))"
    using assms(1) by (auto simp: getHeader_def Let_def split: option.splits)
  then show ?thesis using ParseInt_show [OF assms(2,3)] by (simp add: getReqAuth_def)
qed

theorem fresh_signature_refused_demo:
  "\<exists>header. getHeader (\<lambda>_ _ _ _. ''sig'') 1000 (demo_client\<lparr>cl_ctx := Some (Some \<lparr>auth_Key = ''k'', auth_Secret = ''s'', auth_AuthURI = ''/''\<rparr>)\<rparr>) = Some header
    \<and> getReqAuth 1001 (\<lambda>k. case map_of header k of None \<Rightarrow> [] | Some v \<Rightarrow> v) \<noteq> None"
proof -
  let ?c = "demo_client\<lparr>cl_ctx := Some (Some \<lparr>auth_Key = ''k'', auth_Secret = ''s'', auth_AuthURI = ''/''\<rparr>)\<rparr>"
  obtain header where h: "getHeader (\<lambda>_ _ _ _. ''sig'') 1000 ?c = Some header"
    by (simp add: getHeader_def getAuth_def)
  show ?thesis using fresh_signature_refused [OF h, of 1001] h by auto
qed

text \<open>
  the address a configuration prints is an address it can be set to: reading it back gives
  the same numbers and port, and changes nothing else.
\<close>

theorem listen_roundtrip:
  assumes "Listen c = Some os" and "length os = 4" and "\<forall>n\<in>set os. n \<le> 255"
    and "- (2 ^ 63) \<le> Port c" and "Port c < 2 ^ 63"
  shows "ChangeListen (GetListenAddr c) d = (d\<lparr>Listen := Listen c, Port := Port c\<rparr>, None)"
  by (rule ChangeListen_GetListenAddr [OF assms])

theorem listen_roundtrip_demo:
  "ChangeListen (GetListenAddr (server_NewConfig\<lparr>Listen := Some [10, 0, 0, 7]\<rparr>)) server_NewConfig =
    (server_NewConfig\<lparr>Listen := Some [10, 0, 0, 7], Port := 9988\<rparr>, None)"
  using listen_roundtrip [of "server_NewConfig\<lparr>Listen := Some [10, 0, 0, 7]\<rparr>" "[10, 0, 0, 7]" server_NewConfig]
  by (simp add: server_NewConfig_def)

section \<open>The client\<close>



text \<open>
  C28: connecting creates the caches of the topics subscribed so far that may be used, dials one
  address that asks for exactly these topics, and connects when the dialer does; topics stay
  subscribed. It panics when one of these topics has no cache constructor, such as \<open>quote\<close> or,
  with credentials, a private topic.
\<close>

theorem client_connect:
  fixes c :: "'o client" and auth :: "APIKeyAuth option"
  assumes "auth = (case ctx of None \<Rightarrow> None | Some a \<Rightarrow> a)"
    and "subs = map (normalizeTopic c) (filter (needs_cache (c\<lparr>cl_ctx := Some auth\<rparr>)) (gokeys (cl_SubscribedTopics c)))"
    and "remote = (GetURL (cl_cfg c))\<lparr>url_RawQuery := (if subs = [] then [] else ''subscribe='' @ go_join '','' subs)\<rparr>"
  shows "if \<forall>t\<in>set (gokeys (cl_SubscribedTopics c)). needs_cache (c\<lparr>cl_ctx := Some auth\<rparr>) t \<longrightarrow> has_cache c t \<or> mapped_topic t
    then \<exists>c' w'. client_Connect dial ctx (c, w) = Ret ((c', w'), map_option (\<lambda>e. ''Fail to connect: '' @ e) (dial remote), remote)
      \<and> IsConnected c' = (dial remote = None \<or> IsConnected c) \<and> cl_SubscribedTopics c' = cl_SubscribedTopics c
      \<and> (\<forall>t. has_cache c' t \<longleftrightarrow> has_cache c t \<or> t \<in> set (gokeys (cl_SubscribedTopics c)) \<and> needs_cache (c\<lparr>cl_ctx := Some auth\<rparr>) t)
    else client_Connect dial ctx (c, w) = Panic NilFunctionCall"
  by (rule Connect_cases [OF assms])

theorem client_connect_demo:
  "client_Connect (\<lambda>_. None) None (demo_client\<lparr>cl_SubscribedTopics := [(''quote'', None)]\<rparr>, demo_world [] []) = Panic NilFunctionCall"
  using client_connect [OF refl refl refl, where ctx = None and c = "demo_client\<lparr>cl_SubscribedTopics := [(''quote'', None)]\<rparr>" and dial = "\<lambda>_. None" and w = "demo_world [] []"]
  by (simp add: gokeys_def needs_cache_def IsPublicTopic_def PublicTopics_def ToLower_def lower_char_def has_cache_def mapped_topic_def
      demo_client_def NewClient_def)


text \<open>
  C30: a subscription from end to end. When the server has read the text of a client's request,
  and the client the texts of the answers, the client counts as subscribed exactly to those of
  the topics it asked for that the server offers, each under the spelling of the protocol: a
  topic asked for in another spelling is answered, yet never counts as subscribed itself.
  Answers that contain \<open>ping\<close> or \<open>pong\<close> are the exception, the client takes them for heartbeats.
\<close>

theorem handshake:
  fixes c :: "'o client" and s :: "'o server"
  assumes "client_Subscribe topics c = (c1, Some req)"
    and "env_dec env = unmarshal_request" and "dec_sub dec = unmarshal_answer" and "skip b = []"
    and "up s i" and "\<And>xs x. env_wr env xs x = None"
    and "\<forall>t\<in>set (Args req). \<not> is_heartbeat (SubscribeResponse_String (answer s req t) @ b)
      \<and> \<not> InfoPattern (SubscribeResponse_String (answer s req t) @ b)"
  shows "\<exists>s' c2 evs. handle_request env i (OperationRequest_String req @ b) s = Ret s'
    \<and> se_conn (sv_sessions s' ! i) = se_conn (wrote (sv_sessions s ! i) (map (\<lambda>t. WireJSON (SvSub (answer s req t))) (Args req)))
    \<and> messageHandler dec (map (\<lambda>t. Frame (SubscribeResponse_String (answer s req t) @ b)) (Args req)) (c1, w) = Ret ((c2, w), [], evs)
    \<and> (\<forall>t. isSubscribed c2 t =
        (if t \<in> canonical ` set (wanted c topics) then map_of (sv_dataCaches s) t \<noteq> None else isSubscribed c t))"
  by (rule sub_codec.subscribed_as_answered [OF json_codec [OF assms(4)] assms(1,2,3,5,6,7)])

theorem handshake_demo:
  "\<exists>c1 s' c2 evs. client_Subscribe [''ORDERBOOKL2''] demo_asking = (c1, Some demo_ask)
    \<and> handle_request (demo_env\<lparr>env_dec := unmarshal_request\<rparr>) 0 (OperationRequest_String demo_ask @ [CHR 0x0A]) demo_server = Ret s'
    \<and> messageHandler demo_reader [Frame demo_text] (c1, demo_world [] []) = Ret ((c2, demo_world [] []), [], evs)
    \<and> isSubscribed c2 ''orderBookL2'' \<and> \<not> isSubscribed c2 ''ORDERBOOKL2''"
proof -
  obtain c1 where c1: "client_Subscribe [''ORDERBOOKL2''] demo_asking = (c1, Some demo_ask)" using demo_asks by blast
  have w: "wanted demo_asking [''ORDERBOOKL2''] = [''ORDERBOOKL2'']"
    by (simp add: wanted_def demo_unsubscribed demo_topic)
  have args: "Args demo_ask = [''orderBookL2:XBTUSD'']" by (simp add: demo_ask_def)
  have tx: "SubscribeResponse_String (answer demo_server demo_ask ''orderBookL2:XBTUSD'') @ [CHR 0x0A] = demo_text"
    by (simp add: demo_answered demo_text_def)
  have env: "env_dec (demo_env\<lparr>env_dec := unmarshal_request\<rparr>) = unmarshal_request" "dec_sub demo_reader = unmarshal_answer"
    "skip [CHR 0x0A] = []" "up demo_server 0" "\<And>xs x. env_wr (demo_env\<lparr>env_dec := unmarshal_request\<rparr>) xs x = None"
    by (simp_all add: demo_reader_def skip_def demo_env_def)
  show ?thesis
    using handshake [OF c1 env, of "demo_world [] []"] c1
    by (auto simp: args tx demo_text_plain w demo_topic demo_unsubscribed)
qed

text \<open>
  C31: messages survive their encoding. Whatever the strings contain, quotes, control
  characters and brackets included, decoding the text of a request, of an answer, of a
  welcome, of an error, of an authentication or of a table gives it back, also with blanks or
  a line break after the text. Times and rows, whose types belong to another package, are
  assumed to be read back; the fields that are left out when they are empty come back empty.
\<close>

theorem message_roundtrip:
  assumes "skip b = []" and "info_ok enc_time dec_time zero_time i" and "auth_ok a" and "error_ok e" and "table_ok enc_row dec_row r"
  shows "unmarshal_request (OperationRequest_String req @ b) = Inr req
    \<and> unmarshal_answer (SubscribeResponse_String rsp @ b) = Inr rsp
    \<and> unmarshal_info dec_time zero_time (InfoResponse_String enc_time i @ b) = Inr i
    \<and> unmarshal_auth (AuthResponse_String a @ b) = Inr a
    \<and> unmarshal_error (ErrResponse_String e @ b) = Inr e
    \<and> unmarshal_table dec_row (table_String enc_row r @ b) = Inr r"
  using unmarshal_request_String [OF assms(1)] unmarshal_answer_String [OF assms(1)] texts_read [OF assms(1)] assms(2-5)
  by blast

theorem message_roundtrip_demo:
  "unmarshal_request (OperationRequest_String demo_ask @ [CHR 0x0A]) = Inr demo_ask \<and> unmarshal_answer demo_text = Inr demo_answer
    \<and> unmarshal_info set_int 0 (InfoResponse_String (\<lambda>t. JNum (show_int t)) demo_info @ [CHR 0x0A]) = Inr demo_info
    \<and> unmarshal_auth (AuthResponse_String \<lparr>auth_Success = True, auth_Request = []\<rparr> @ [CHR 0x0A])
        = Inr \<lparr>auth_Success = True, auth_Request = []\<rparr>
    \<and> unmarshal_error (ErrResponse_String (no_channel demo_sub) @ [CHR 0x0A]) = Inr (no_channel demo_sub)
    \<and> unmarshal_table demo_dec_trade (table_String demo_enc_trade demo_td @ [CHR 0x0A]) = Inr demo_td"
  unfolding demo_text_def by (rule message_roundtrip [OF _ demo_texts_ok]) (simp add: skip_def)



section \<open>Filters\<close>



text \<open>
  An integer literal truncates the column it is compared with: of two statements that
  differ only in writing the limit as 9000 or as 9000.0, the first misses a price of 9000.5.
\<close>

theorem integer_literal_truncates:
  "\<exists>tbl1 tbl2. parseSelect (\<lambda>_. []) demo_models (demo_select IntVal ''9000'') = Ret (Inr tbl1)
    \<and> parseSelect (\<lambda>_. []) demo_models (demo_select FloatVal ''9000.0'') = Ret (Inr tbl2)
    \<and> GetFilter tbl1 [Some (demo_row ''A'' (18001 / 2))] = Ret []
    \<and> GetFilter tbl2 [Some (demo_row ''A'' (18001 / 2))] = Ret [[(''symbol'', VStr ''A'')]]"
  using demo_truncated by blast

text \<open>
  A union of statements gives one filter for each table it names, and for a table named
  twice the leftmost statement decides.
\<close>

theorem union_tables:
  assumes "sql \<noteq> []" and "parse sql = Inr stmt" and "ParseSQL parse sql_str tm sql = Ret (Inr tables)"
  shows "\<exists>ts. list_all2 (\<lambda>s t. parseSelect sql_str tm s = Ret (Inr t)) (union_leaves stmt) ts
    \<and> map_of tables = map_of (map (\<lambda>t. (TableDef_GetName t, t)) ts)"
  by (rule ParseSQL_tables [OF assms])

theorem union_tables_demo:
  "\<exists>ts. list_all2 (\<lambda>s t. parseSelect (\<lambda>_. []) demo_models s = Ret (Inr t)) [demo_select FloatVal ''1'', demo_select FloatVal ''2''] ts
    \<and> (\<exists>tables. ParseSQL (\<lambda>_. Inr (UnionStmt (SelectStmt (demo_select FloatVal ''1'')) (SelectStmt (demo_select FloatVal ''2''))))
          (\<lambda>_. []) demo_models ''q'' = Ret (Inr tables)
      \<and> map_of tables = map_of (map (\<lambda>t. (TableDef_GetName t, t)) ts))"
proof -
  let ?parse = "\<lambda>_. Inr (UnionStmt (SelectStmt (demo_select FloatVal ''1'')) (SelectStmt (demo_select FloatVal ''2'')))"
  have "\<exists>tables. ParseSQL ?parse (\<lambda>_. []) demo_models ''q'' = Ret (Inr tables)"
    using demo_parse [of FloatVal "''1''"] demo_parse [of FloatVal "''2''"] by (auto simp: ParseSQL_def)
  then obtain tables where p: "ParseSQL ?parse (\<lambda>_. []) demo_models ''q'' = Ret (Inr tables)" by blast
  show ?thesis using union_tables [OF _ _ p] p by auto
qed

section \<open>Lists, slices and sets\<close>

text \<open>
  inserting a new price into a sorted list, ascending or descending, returns the list with
  the price at its one place and the index of that place, never an out-of-range access; so
  the result is sorted again.
\<close>

theorem price_add:
  assumes "sorted_wrt (if rv then (\<lambda>a b. b < a) else (<)) xs" and "p \<notin> set xs"
  shows "\<exists>i ys. UniPriceAdd xs p rv = Ret (int i, ys) \<and> ys = take i xs @ p # drop i xs
    \<and> sorted_wrt (if rv then (\<lambda>a b. b < a) else (<)) ys"
proof (cases rv)
  case True
  then show ?thesis using UniPriceAdd_desc [of xs p] desc.sorted_insert [of xs p] assms by auto
next
  case False
  then show ?thesis using UniPriceAdd_asc [of xs p] asc.sorted_insert [of xs p] assms by auto
qed

theorem price_add_demo:
  "\<exists>i ys. UniPriceAdd [1, 3, 5, 7] 4 False = Ret (int i, ys) \<and> ys = take i [1, 3, 5, 7] @ 4 # drop i [1, 3, 5, 7]
    \<and> sorted_wrt (if False then (\<lambda>a b. b < a) else (<)) ys"
  by (rule price_add) simp_all

text \<open>
  the binary search finds every level of a sorted list and no other price, and the
  removal takes exactly the level found out of the list.
\<close>

theorem price_remove:
  assumes "sorted_wrt (if rv then (\<lambda>a b. b < a) else (<)) xs"
  shows "(\<forall>i<length xs. UniPriceSearch xs (xs ! i) rv = int i
       \<and> UniPriceRemove xs (xs ! i) rv = (int i, take i xs @ drop (Suc i) xs))
    \<and> (\<forall>p. p \<notin> set xs \<longrightarrow> UniPriceSearch xs p rv = -1 \<and> UniPriceRemove xs p rv = (-1, xs))"
proof (cases rv)
  case True
  then show ?thesis using assms UniPriceSearch_missing UniPriceRemove_missing
    by (auto simp: UniPriceSearch_desc UniPriceRemove_at)
next
  case False
  then show ?thesis using assms UniPriceSearch_missing UniPriceRemove_missing
    by (auto simp: UniPriceSearch_asc UniPriceRemove_at)
qed

theorem price_remove_demo:
  "UniPriceSearch [1, 3, 5, 7] 5 False = 2 \<and> UniPriceRemove [1, 3, 5, 7] 5 False = (2, [1, 3, 7])
    \<and> UniPriceRemove [1, 3, 5, 7] 4 False = (-1, [1, 3, 5, 7])"
proof -
  let ?xs = "[1, 3, 5, 7] :: float64 list"
  have p: "(\<forall>i<length ?xs. UniPriceSearch ?xs (?xs ! i) False = int i
       \<and> UniPriceRemove ?xs (?xs ! i) False = (int i, take i ?xs @ drop (Suc i) ?xs))
    \<and> (\<forall>p. p \<notin> set ?xs \<longrightarrow> UniPriceSearch ?xs p False = -1 \<and> UniPriceRemove ?xs p False = (-1, ?xs))"
    by (rule price_remove) simp
  show ?thesis using conjunct1 [OF p, rule_format, of 2] conjunct2 [OF p, rule_format, of 4] by simp
qed

text \<open>
  C34: trimming a slice by a set of distinct indices, in any order, with indices out of range
  among them, is the slice without the elements at those indices.
\<close>

theorem range_slice:
  assumes "distinct is"
  shows "RangeSlice src is = nths src {n. int n \<notin> set is}"
  using RangeSlice_loop_spec [of "sort is" 0 0 0 src] assms
  by (cases "is = []") (simp_all add: RangeSlice_def nths_all)

theorem range_slice_demo: "RangeSlice [10, 11, 12, 13 :: nat] [3, -1, 1, 9] = [10, 12]"
  using range_slice [of "[3, -1, 1, 9]" "[10, 11, 12, 13 :: nat]"] by (simp add: nths_Cons)

text \<open>The swapping loop reverses the slice.\<close>

theorem reverse_slice: "ReverseFloat64Slice s = rev s"
  by (rule ReverseFloat64Slice_rev)

text \<open>
  The extrema of a list of 64-bit integers: an element of the list that bounds all of it,
  or the limit of the type when the list is empty or holds only that limit.
\<close>

theorem extrema:
  "MaxInts ns \<in> insert (- (2 ^ 63)) (set ns) \<and> (\<forall>n\<in>set ns. n \<le> MaxInts ns)
    \<and> MinInts ns \<in> insert (2 ^ 63 - 1) (set ns) \<and> (\<forall>n\<in>set ns. MinInts ns \<le> n)"
  using MaxInts_bounds [of ns "- (2 ^ 63)"] MinInts_bounds [of ns "2 ^ 63 - 1"]
  unfolding MaxInts_def MinInts_def by blast

theorem extrema_demo: "MaxInts [3, 9, -4] \<ge> 9 \<and> MinInts [3, 9, -4] \<le> -4"
  using extrema [of "[3, 9, -4]"] by simp

text \<open>
  On sets of one type \<open>Add\<close> is the union, \<open>Sub\<close> the difference and \<open>Contain\<close> the subset
  test, with results that are sets again.
\<close>

theorem set_operations:
  "(\<exists>c. float64Set_Add a (Float64SetV b) = Ret c \<and> distinct c \<and> set c = set a \<union> set b)
    \<and> (\<exists>c. float64Set_Sub a (Float64SetV b) = Ret c \<and> distinct c \<and> set c = set a - set b)
    \<and> float64Set_Contain a (Float64SetV b) = Ret (set b \<subseteq> set a)
    \<and> (\<exists>c. stringSet_Add x (StringSetV y) = Ret c \<and> distinct c \<and> set c = set x \<union> set y)
    \<and> (\<exists>c. stringSet_Sub x (StringSetV y) = Ret c \<and> distinct c \<and> set c = set x - set y)
    \<and> stringSet_Contain x (StringSetV y) = Ret (set y \<subseteq> set x)"
  by (intro conjI fset.add_ok fset.sub_ok fset.contain_ok sset.add_ok sset.sub_ok sset.contain_ok)

text \<open>
  \<open>Join\<close>, documented as the intersection, returns the elements of its receiver whatever
  the other set holds.
\<close>

theorem join_is_receiver:
  "(\<exists>c. float64Set_Join a (Float64SetV b) = Ret c \<and> distinct c \<and> set c = set a)
    \<and> (\<exists>c. stringSet_Join x (StringSetV y) = Ret c \<and> distinct c \<and> set c = set x)"
  using float64Set_Join_receiver [of a b] stringSet_Join_receiver [of x y] by blast

section \<open>Heartbeats and requests\<close>

text \<open>
  The two heartbeat loops are mirror images: the server does in each mode what the client
  does in the other, so of a client and a server in the same mode one asks and one answers.
\<close>

theorem heartbeat_dual:
  "server_heartbeatLoop reverse maxFail xs = client_heartbeatHandler (\<not> reverse) maxFail xs"
  by (simp add: server_heartbeatLoop_def client_heartbeatHandler_def hb_steps_dual)

text \<open>
  while its writes succeed, the asking end keeps the connection exactly as long as the
  number of unanswered pings stays at least 0 and below the limit.
\<close>

theorem heartbeat_count:
  assumes "0 < maxFail" and "\<And>x. x \<in> set xs \<Longrightarrow> snd x"
  shows "(\<exists>out. client_heartbeatHandler False maxFail xs = HbGo (outstanding xs) out)
    \<longleftrightarrow> (\<forall>n \<le> length xs. 0 \<le> outstanding (take n xs) \<and> outstanding (take n xs) < maxFail)"
  using hb_loop_pinger [of 0 maxFail xs] assms by (simp add: client_heartbeatHandler_def)

theorem heartbeat_count_demo:
  "(\<exists>out. client_heartbeatHandler False 3 [(NewPing 1, True), (NewPong 2, True)]
        = HbGo (outstanding [(NewPing 1, True), (NewPong 2, True)]) out)
    \<longleftrightarrow> (\<forall>n \<le> length [(NewPing 1, True), (NewPong 2, True)].
          0 \<le> outstanding (take n [(NewPing 1, True), (NewPong 2, True)])
          \<and> outstanding (take n [(NewPing 1, True), (NewPong 2, True)]) < 3)"
  by (rule heartbeat_count) auto

text \<open>
  The answering end writes one pong for every ping, in order, and its counter stays at 0.
\<close>

theorem heartbeat_answers:
  assumes "0 < maxFail" and "\<And>x. x \<in> set xs \<Longrightarrow> hb_Type (fst x) = ''Ping'' \<and> snd x"
  shows "client_heartbeatHandler True maxFail xs = HbGo 0 (replicate (length xs) PongFrame)
    \<and> server_heartbeatLoop False maxFail xs = HbGo 0 (replicate (length xs) PongFrame)"
  using hb_loop_answerer [OF assms]
  by (simp add: client_heartbeatHandler_def server_heartbeatLoop_def hb_steps_dual)

theorem heartbeat_answers_demo:
  "client_heartbeatHandler True 3 [(NewPing 1, True)] = HbGo 0 [PongFrame]
    \<and> server_heartbeatLoop False 3 [(NewPing 1, True)] = HbGo 0 [PongFrame]"
  using heartbeat_answers [of 3 "[(NewPing 1, True)]"] by simp

text \<open>
  C35: the heartbeat loops of a connection whose ends are in the same mode, with every frame on
  its way. The end that asks counts the pings that are not answered yet, below its limit; the
  other end counts nothing and never sees a mismatch; the asking end sees one only when as
  many pings as its limit are unanswered; and an open connection can always catch up.
\<close>

theorem heartbeat_pair:
  assumes "hb_reach m fc m fs s" and "0 < fc" and "0 < fs" and "a = from_asker m s" and "n = (if m then fs else fc)"
  shows "sv_count a = 0
    \<and> (hb_closed a = None \<longrightarrow> cl_count a = int (unanswered a) \<and> cl_count a < n)
    \<and> (\<forall>k. hb_closed a = Some (ClientEnds (MissMatch k)) \<longrightarrow> k = n \<and> int (unanswered a) = n)
    \<and> (\<forall>k. hb_closed a \<noteq> Some (ServerEnds (MissMatch k)))
    \<and> (hb_closed s = None \<longrightarrow> (\<exists>s'. (hb_pair_step m fc m fs)\<^sup>*\<^sup>* s s' \<and> hb_closed s' = None
         \<and> unanswered s' = 0 \<and> cl_count s' = 0 \<and> sv_count s' = 0))"
  using same_mode_reach [OF assms(1,2,3)] same_mode_catch_up [OF assms(1,2,3)]
  by (auto simp: asking_ok_def assms(4,5) split: option.splits)

theorem heartbeat_pair_demo:
  "sv_count hb_demo = 0 \<and> cl_count hb_demo = int (unanswered hb_demo) \<and> cl_count hb_demo < 3
    \<and> (\<exists>s'. (hb_pair_step False 3 False 5)\<^sup>*\<^sup>* hb_demo s' \<and> hb_closed s' = None
         \<and> unanswered s' = 0 \<and> cl_count s' = 0 \<and> sv_count s' = 0)"
  using heartbeat_pair [OF hb_demo_reach(1) _ _ refl refl] hb_demo_reach(3) by (simp add: from_asker_def)

text \<open>
  C36: when the client is in the normal mode and the server in the reverse mode, both ends
  ask, each takes the ping of the other for a reason to send one, and nothing is ever
  answered: every step of the loops raises a counter, and however fast the ends are, the
  connection is over after fewer steps than the sum of the two limits.
\<close>

theorem heartbeat_mismatch:
  assumes "(hb_pair_step False fc True fs ^^ k) hb_start s" and "hb_closed s = None" and "0 < fc" and "0 < fs"
  shows "cl_count s + sv_count s = int k \<and> int k \<le> fc + fs - 2 \<and> PongFrame \<notin> set (to_server s @ to_client s)"
  using both_ask_run [OF assms(1) _ assms(2)] assms(3,4) by (auto simp: both_ask_def hb_start_def)

theorem heartbeat_mismatch_demo:
  "cl_count hb_demo + sv_count hb_demo = 1 \<and> (1::int) \<le> 3 + 5 - 2 \<and> PongFrame \<notin> set (to_server hb_demo @ to_client hb_demo)"
  using heartbeat_mismatch [OF hb_demo_reach(2), of] hb_demo_reach(3) by simp

text \<open>
  The short form of the arguments of a request, one quoted string with commas, reads back
  the list that was joined.
\<close>

theorem args_roundtrip:
  assumes "xs \<noteq> []" and "\<forall>x\<in>set xs. CHR '','' \<notin> set x \<and> CHR 0x22 \<notin> set x \<and> CHR 0x0A \<notin> set x"
  shows "Args_UnmarshalJSON unmarshal (quoted (go_join '','' xs)) = Inr xs"
  by (rule Args_UnmarshalJSON_join [OF assms])

theorem args_roundtrip_demo: "Args_UnmarshalJSON (\<lambda>_. Inl []) (quoted ''trade,instrument'') = Inr [''trade'', ''instrument'']"
  using args_roundtrip [of "[''trade'', ''instrument'']" "\<lambda>_. Inl []"] by simp
section \<open>The example client and the mock\<close>

text \<open>
  C37: the reconnect loop of the example client, while every dial fails. With a limit of
  \<open>m\<close> retries it dials \<open>m + 1\<close> times and stops in the round after; before that, and with a
  negative limit for ever, every round dials once more.
\<close>

theorem client_gives_up:
  assumes "\<forall>rd\<in>set rds. dial_fails rd" and "flags_ok env f"
  shows "\<exists>s'. main_loop env w rds (main_init f) = Ret s'
    \<and> (if 0 \<le> maxReconnectCount env \<and> maxReconnectCount env + 1 < int (length rds)
       then \<not> running s' \<and> int (dials s') = maxReconnectCount env + 1
       else running s' \<and> dials s' = length rds)"
proof -
  have s0: "running (main_init f)" "failCount (main_init f) = 0" "dials (main_init f) = 0" "flags_ok env (mflags (main_init f))"
    using assms(2) by (simp_all add: main_init_def)
  show ?thesis
  proof (cases "0 \<le> maxReconnectCount env \<and> maxReconnectCount env + 1 < int (length rds)")
    case True
    then show ?thesis unfolding if_P [OF True] using main_stops [OF assms(1) s0(1), of env w] s0(2-4) by simp
  next
    case False
    then have "maxReconnectCount env < 0 \<or> failCount (main_init f) + int (length rds) \<le> maxReconnectCount env + 1" using s0(2) by auto
    from main_goes_on [OF assms(1) s0(1,4) this, of w] show ?thesis unfolding if_not_P [OF False] using s0(3) by simp
  qed
qed

theorem client_gives_up_demo:
  "\<exists>s'. main_loop demo_main (demo_world [] [] :: nat table_msg world) (replicate 4 demo_round) (main_init default_flags) = Ret s'
    \<and> \<not> running s' \<and> int (dials s') = 3"
proof -
  have "\<forall>rd\<in>set (replicate 4 demo_round). dial_fails rd" by (simp add: dial_fails_def demo_round_def)
  from client_gives_up [OF this demo_flags_ok, of "demo_world [] []"] show ?thesis by (simp add: demo_main_def)
qed

text \<open>
  C38: the delay before a reconnection is the expected delay of binary exponential backoff,
  \<open>(2^k - 1) / 2\<close> slots for the \<open>k\<close>-th failure up to the maximum, as long as it fits; a
  negative maximum gives a negative delay, which does not wait at all.
\<close>

theorem backoff:
  assumes "0 \<le> c" and "0 \<le> slot" and "slot \<le> 18446744073"
    and "0 \<le> i \<Longrightarrow> min c i \<le> 62 \<and> slot * (2 ^ nat (min c i) - 1) \<le> 18446744073"
  shows "expectBackoff c i slot = Ret (500000000 * slot * (if i < 0 then -1 else 2 ^ nat (min c i) - 1))"
proof (cases "i < 0")
  case True
  then show ?thesis using expectBackoff_negative [OF assms(1) True assms(2,3)] by simp
next
  case False
  then show ?thesis using expectBackoff_exact [OF assms(1) _ _ assms(2)] assms(4) by (simp add: mult.assoc)
qed

theorem backoff_demo:
  "expectBackoff 4 6 3 = Ret (500000000 * 3 * 15) \<and> expectBackoff 9 6 3 = Ret (500000000 * 3 * 63) \<and> expectBackoff 4 (-1) 3 = Ret (500000000 * 3 * -1)"
  using backoff [of 4 3 6] backoff [of 9 3 6] backoff [of 4 3 "-1"] by simp



text \<open>
  C40: the upstream loses nothing. While its channels are open, its goroutine puts every trade,
  instrument and order book message it receives into the pipeline of the cache of its table, in
  the order received, and the order book rows it puts there read as the rows of the message.
\<close>

theorem upstream_feed:
  assumes "up_caches caches td ins bk" and "\<forall>e\<in>set es. e \<noteq> UpChanClosed \<and> e \<noteq> UpDone"
  shows "\<exists>caches' ms new. up_loop es caches = Ret (caches', True)
    \<and> up_caches caches' (td\<lparr>pipeline := pipeline td @ queue_of (map TradeResponse (up_trades es))\<rparr>)
        (ins\<lparr>pipeline := pipeline ins @ queue_of (map InstrumentResponse (up_instruments es))\<rparr>)
        (bk\<lparr>table := (table bk)\<lparr>objs := objs (table bk) @ new\<rparr>, pipeline := pipeline bk @ queue_of (map MBLResponse ms)\<rparr>)
    \<and> map (resolve (objs (table bk) @ new)) ms = up_books es"
  by (rule up_loop_feeds [OF assms])

theorem upstream_feed_demo:
  "\<exists>caches' tc. up_loop [UpTrade demo_td, UpNil, UpMBL demo_rows, UpTrade demo_td] demo_up = Ret (caches', True)
    \<and> map_of caches' ''trade'' = Some (AnyTrade tc) \<and> pipeline tc = queue_of [TradeResponse demo_td, TradeResponse demo_td]"
proof -
  have "up_caches demo_up trade_demo up_ins demo_cache"
    by (simp add: up_caches_def demo_up_def trade_demo_def up_ins_def demo_cache_def)
  from upstream_feed [OF this, of "[UpTrade demo_td, UpNil, UpMBL demo_rows, UpTrade demo_td]"] show ?thesis
    by (auto simp: up_caches_def trade_demo_def)
qed

end
